(* ===== verification/Prelude.thy ===== *)
theory Prelude
  imports Main "HOL-Library.Word"
begin

text \<open>
  Shared vocabulary of the development: Go's \<open>time.Duration\<close> and \<open>time.Time\<close>, error values
  with \<open>errors.Is\<close>, decimal printing (\<open>%d\<close>), iteration orders of Go maps, and the two
  generic contracts the components are verified against: an inductive invariant of a
  transition system, and the Start/Stop life cycle of a background component.
\<close>

named_theorems go_time \<open>unfolding durations and instants\<close>
named_theorems go_err \<open>evaluating errors.Is and error texts\<close>

section \<open>Durations and instants\<close>

text \<open>
  \<open>time.Duration\<close> is an int64 count of nanoseconds. A duration is kept as \<open>int\<close>, and the
  wrap-around of int64 is written out with \<open>wrap64\<close> wherever the code does arithmetic that can
  overflow. \<open>time.Time\<close> is the number of nanoseconds since 1 January of year 1 (UTC), so the
  zero value of the type is 0. \<open>Time.Sub\<close> saturates at the ends of int64.
\<close>

type_synonym duration = int
type_synonym time = int

definition max_int64 :: int where "max_int64 = 2 ^ 63 - 1"
definition min_int64 :: int where "min_int64 = - (2 ^ 63)"

definition wrap64 :: "int \<Rightarrow> int" where
  "wrap64 x = sint (word_of_int x :: 64 word)"

definition clamp64 :: "int \<Rightarrow> int" where
  "clamp64 x = max min_int64 (min max_int64 x)"

definition time_is_zero :: "time \<Rightarrow> bool" where
  "time_is_zero t \<longleftrightarrow> t = 0"

definition time_sub :: "time \<Rightarrow> time \<Rightarrow> duration" where
  "time_sub t u = clamp64 (t - u)"

definition millisecond :: duration where "millisecond = 1000000"
definition second :: duration where "second = 1000000000"
definition minute :: duration where "minute = 60000000000"

lemmas [go_time] = max_int64_def min_int64_def clamp64_def time_is_zero_def time_sub_def
  millisecond_def second_def minute_def

lemma wrap64_range: "min_int64 \<le> wrap64 x \<and> wrap64 x \<le> max_int64"
  using sint_range_size [of "word_of_int x :: 64 word"]
  by (auto simp: wrap64_def min_int64_def max_int64_def word_size)

lemma wrap64_id: "min_int64 \<le> x \<Longrightarrow> x \<le> max_int64 \<Longrightarrow> wrap64 x = x"
  unfolding wrap64_def min_int64_def max_int64_def
  by (subst int_word_sint) auto

lemma clamp64_id: "min_int64 \<le> x \<Longrightarrow> x \<le> max_int64 \<Longrightarrow> clamp64 x = x"
  by (simp add: clamp64_def)

lemma clamp64_ge: "d \<le> max_int64 \<Longrightarrow> d \<le> x \<Longrightarrow> d \<le> clamp64 x"
  by (simp add: clamp64_def)

lemma clamp64_le_arg: "d \<le> clamp64 x \<Longrightarrow> min_int64 < d \<Longrightarrow> d \<le> x"
  by (auto simp: clamp64_def max_def min_def split: if_splits)

lemma time_sub_ge_iff:
  "min_int64 < d \<Longrightarrow> d \<le> max_int64 \<Longrightarrow> d \<le> time_sub t u \<longleftrightarrow> u + d \<le> t"
  unfolding time_sub_def using clamp64_ge [of d "t - u"] clamp64_le_arg [of d "t - u"] by auto

section \<open>Error values\<close>

text \<open>
  An error is a sentinel (\<open>errors.New\<close>, compared by identity: the tag), an opaque error of a
  library, or the result of \<open>fmt.Errorf\<close>: its text and the operands of its \<open>%w\<close> verbs. An
  operand of \<open>%v\<close> contributes to the text only. \<open>errors.Is\<close> searches the tree of wrapped errors.
\<close>

datatype 'e go_error =
    Sentinel 'e
  | Opaque string
  | Errorf string "'e go_error list"

fun errors_is :: "'e go_error \<Rightarrow> 'e \<Rightarrow> bool" where
  "errors_is (Sentinel e) t = (e = t)"
| "errors_is (Opaque m) t = False"
| "errors_is (Errorf m es) t = list_ex (\<lambda>e. errors_is e t) es"

fun error_text :: "('e \<Rightarrow> string) \<Rightarrow> 'e go_error \<Rightarrow> string" where
  "error_text msg (Sentinel e) = msg e"
| "error_text msg (Opaque m) = m"
| "error_text msg (Errorf m es) = m"

declare errors_is.simps [go_err] error_text.simps [go_err]

section \<open>Decimal printing\<close>

definition digit_char :: "nat \<Rightarrow> char" where
  "digit_char d = ''0123456789'' ! d"

fun nat_digits :: "nat \<Rightarrow> string" where
  "nat_digits n =
     (if n < 10 then [digit_char n] else nat_digits (n div 10) @ [digit_char (n mod 10)])"

declare nat_digits.simps [simp del]

definition itoa :: "int \<Rightarrow> string" where
  "itoa i = (if i < 0 then CHR ''-'' # nat_digits (nat (- i)) else nat_digits (nat i))"

definition digit_val :: "char \<Rightarrow> nat" where
  "digit_val c = of_char c - 48"

definition digits_val :: "string \<Rightarrow> nat" where
  "digits_val = foldl (\<lambda>a c. 10 * a + digit_val c) 0"

lemma of_char_digit: "d < 10 \<Longrightarrow> of_char (digit_char d) = 48 + d"
proof -
  assume "d < 10"
  then have "d \<in> {0, 1, 2, 3, 4, 5, 6, 7, 8, 9}" by auto
  then show ?thesis by (auto simp: digit_char_def)
qed

lemma digit_val_char [simp]: "d < 10 \<Longrightarrow> digit_val (digit_char d) = d"
  by (simp add: digit_val_def of_char_digit)

lemma digits_val_nat_digits [simp]: "digits_val (nat_digits n) = n"
proof (induction n rule: nat_digits.induct)
  case (1 n)
  then show ?case
    by (cases "n < 10") (simp_all add: nat_digits.simps [of n] digits_val_def)
qed

lemma nat_digits_inj: "nat_digits m = nat_digits n \<longleftrightarrow> m = n"
  by (metis digits_val_nat_digits)

lemma nat_digits_chars: "c \<in> set (nat_digits n) \<Longrightarrow> 48 \<le> (of_char c :: nat) \<and> (of_char c :: nat) < 58"
proof (induction n rule: nat_digits.induct)
  case (1 n)
  then show ?case
    by (cases "n < 10") (auto simp: nat_digits.simps [of n] of_char_digit)
qed

lemma nat_digits_no_char: "of_char c < (48 :: nat) \<or> 58 \<le> (of_char c :: nat) \<Longrightarrow> c \<notin> set (nat_digits n)"
  using nat_digits_chars [of c n] by auto

lemma itoa_no_colon [simp]: "CHR '':'' \<notin> set (itoa i)"
  by (auto simp: itoa_def nat_digits_no_char)

lemma itoa_inj: "itoa i = itoa j \<longleftrightarrow> i = j"
proof -
  have "CHR ''-'' \<notin> set (nat_digits n)" for n
    by (rule nat_digits_no_char) simp
  then have *: "CHR ''-'' # xs \<noteq> nat_digits n" for xs n
    by (metis list.set_intros(1))
  show ?thesis
    by (auto simp: itoa_def nat_digits_inj * * [symmetric])
qed

section \<open>Iterating over Go maps\<close>

text \<open>
  \<open>for k, v := range m\<close> visits every key exactly once, in an order the runtime chooses. An
  operation that ranges over a map takes that order as an argument; its properties hold for
  every order.
\<close>

definition range_order :: "'k list \<Rightarrow> ('k \<rightharpoonup> 'v) \<Rightarrow> bool" where
  "range_order ks m \<longleftrightarrow> distinct ks \<and> set ks = dom m"

lemma range_order_dom: "range_order ks m \<Longrightarrow> set ks = dom m"
  by (simp add: range_order_def)

lemma range_order_distinct: "range_order ks m \<Longrightarrow> distinct ks"
  by (simp add: range_order_def)

lemma range_order_some: "range_order ks m \<Longrightarrow> k \<in> set ks \<longleftrightarrow> (\<exists>v. m k = Some v)"
  by (auto simp: range_order_def)

lemma map_upd_fold_outside:
  "(\<And>x. x \<in> set xs \<Longrightarrow> f x \<noteq> k) \<Longrightarrow> fold (\<lambda>x m. m(f x \<mapsto> g x)) xs m k = m k"
  by (induction xs arbitrary: m) auto

lemma map_upd_fold_dom: "dom (fold (\<lambda>x m. m(f x \<mapsto> g x)) xs m) = dom m \<union> f ` set xs"
  by (induction xs arbitrary: m) auto

lemma map_upd_fold_some:
  "fold (\<lambda>x m. m(f x \<mapsto> g x)) xs m k = Some v \<Longrightarrow> m k = Some v \<or> (\<exists>x \<in> set xs. f x = k \<and> g x = v)"
proof (induction xs arbitrary: m)
  case Nil
  then show ?case by simp
next
  case (Cons x xs)
  have "(m(f x \<mapsto> g x)) k = Some v \<or> (\<exists>y \<in> set xs. f y = k \<and> g y = v)"
    by (rule Cons.IH) (use Cons.prems in simp)
  then show ?case
    by (cases "k = f x") auto
qed

section \<open>Inductive invariants\<close>

text \<open>
  A concurrent component is a transition system: a set of initial states and a step relation.
  A state predicate that holds initially and is kept by every step holds in every reachable
  state. The component theories interpret this locale on their own steps.
\<close>

locale invariant_system =
  fixes init :: "'s \<Rightarrow> bool"
    and step :: "'s \<Rightarrow> 's \<Rightarrow> bool"
    and inv :: "'s \<Rightarrow> bool"
  assumes init_inv: "init s \<Longrightarrow> inv s"
    and step_inv: "inv s \<Longrightarrow> step s t \<Longrightarrow> inv t"
begin

lemma steps_inv: "rtranclp step s t \<Longrightarrow> inv s \<Longrightarrow> inv t"
  by (induction rule: rtranclp_induct) (auto intro: step_inv)

lemma reachable_inv: "init s \<Longrightarrow> rtranclp step s t \<Longrightarrow> inv t"
  by (blast intro: steps_inv init_inv)

end

section \<open>Start/Stop life cycles\<close>

text \<open>
  The background components (idle tracker, sleep coordinator, health manager, route manager)
  share a contract: Start fails on a running component and leaves it alone, Stop fails on a
  stopped one and leaves it alone, and otherwise they switch the component on and off.
\<close>

datatype lifecycle_call = CallStart | CallStop

fun alternates :: "bool \<Rightarrow> lifecycle_call list \<Rightarrow> bool" where
  "alternates r [] = True"
| "alternates r (CallStart # cs) = (\<not> r \<and> alternates True cs)"
| "alternates r (CallStop # cs) = (r \<and> alternates False cs)"

locale lifecycle =
  fixes running :: "'s \<Rightarrow> bool"
    and start :: "'s \<Rightarrow> 'e option \<times> 's"
    and stop :: "'s \<Rightarrow> 'e option \<times> 's"
  assumes start_refused: "running s \<Longrightarrow> \<exists>e. start s = (Some e, s)"
    and start_result: "\<not> running s \<Longrightarrow> start s = (r, t) \<Longrightarrow>
      (if r = None then running t else t = s)"
    and stop_refused: "\<not> running s \<Longrightarrow> \<exists>e. stop s = (Some e, s)"
    and stop_stops: "running s \<Longrightarrow> \<not> running (snd (stop s))"
begin

text \<open>A call is accepted when it takes effect: Start returned nil, Stop found the component running.\<close>

definition accepted :: "lifecycle_call \<Rightarrow> 's \<Rightarrow> bool" where
  "accepted c s = (case c of CallStart \<Rightarrow> fst (start s) = None | CallStop \<Rightarrow> running s)"

definition after :: "lifecycle_call \<Rightarrow> 's \<Rightarrow> 's" where
  "after c s = (case c of CallStart \<Rightarrow> snd (start s) | CallStop \<Rightarrow> snd (stop s))"

primrec accepted_calls :: "lifecycle_call list \<Rightarrow> 's \<Rightarrow> lifecycle_call list" where
  "accepted_calls [] s = []"
| "accepted_calls (c # cs) s =
     (if accepted c s then c # accepted_calls cs (after c s) else accepted_calls cs (after c s))"

lemma start_effect:
  "fst (start s) = None \<longleftrightarrow> running s \<noteq> running (snd (start s))"
  "fst (start s) \<noteq> None \<Longrightarrow> snd (start s) = s"
  using start_refused [of s] start_result [of s "fst (start s)" "snd (start s)"]
  by (cases "running s"; auto split: if_splits)+

lemma stop_effect:
  "running s \<longleftrightarrow> running s \<noteq> running (snd (stop s))"
  "\<not> running s \<Longrightarrow> snd (stop s) = s"
  using stop_refused [of s] stop_stops [of s] by (cases "running s"; auto)+

lemma not_accepted_unchanged: "\<not> accepted c s \<Longrightarrow> after c s = s"
  by (cases c) (simp_all add: accepted_def after_def start_effect(2) stop_effect(2))

lemma accepted_switches: "accepted c s \<Longrightarrow> running s = (c = CallStop) \<and> running (after c s) = (c = CallStart)"
  using start_effect(1) [of s] start_refused [of s] stop_stops [of s]
  by (cases c) (auto simp: accepted_def after_def)

text \<open>Accepted calls alternate: no component is started twice without a Stop in between.\<close>

lemma accepted_calls_alternate: "alternates (running s) (accepted_calls cs s)"
proof (induction cs arbitrary: s)
  case Nil
  then show ?case by simp
next
  case (Cons c cs)
  then show ?case
    using accepted_switches [of c s] not_accepted_unchanged [of c s] Cons [of "after c s"]
    by (cases "accepted c s"; cases c) auto
qed

end

end
