(* ===== verification/ConfigTypes.thy ===== *)
theory ConfigTypes
  imports Prelude
begin

text \<open>
  The configuration data model of \<open>internal/config/types.go\<close>: one record per struct, with
  the struct's fields in order, and \<open>SecretString\<close> with its redacting renderings.
\<close>

section \<open>SecretString\<close>

record secret_string =
  secret_value :: string

definition redacted :: string where
  "redacted = ''***REDACTED***''"

definition SecretString_String :: "secret_string \<Rightarrow> string" where
  "SecretString_String s = (if secret_value s = '''' then '''' else redacted)"

definition SecretString_MarshalText :: "secret_string \<Rightarrow> string" where
  "SecretString_MarshalText s = SecretString_String s"

definition SecretString_LogValue :: "secret_string \<Rightarrow> string" where
  "SecretString_LogValue s = SecretString_String s"

definition SecretString_Value :: "secret_string \<Rightarrow> string" where
  "SecretString_Value s = secret_value s"

text \<open>\<open>decode\<close> is the decoding of the YAML node into a string.\<close>

definition SecretString_UnmarshalYAML ::
  "('n \<Rightarrow> 'e + string) \<Rightarrow> 'n \<Rightarrow> secret_string \<Rightarrow> 'e option \<times> secret_string" where
  "SecretString_UnmarshalYAML decode node s =
     (case decode node of Inl e \<Rightarrow> (Some e, s) | Inr v \<Rightarrow> (None, s\<lparr>secret_value := v\<rparr>))"

text \<open>What a secret shows does not depend on its value, apart from being empty.\<close>

lemma secret_not_shown:
  "SecretString_String s = SecretString_String t \<longleftrightarrow> (SecretString_Value s = [] \<longleftrightarrow> SecretString_Value t = [])"
  by (simp add: SecretString_String_def SecretString_Value_def redacted_def)

section \<open>Servers and routes\<close>

record wake_on_lan_config =
  wol_enabled :: bool
  wol_machineID :: string
  wol_timeout :: duration
  wol_debounce :: duration

record sleep_on_lan_config =
  sol_enabled :: bool
  sol_endpoint :: string
  sol_authToken :: secret_string
  sol_idleTimeout :: duration

record server_health_check =
  hc_endpoint :: string
  hc_interval :: duration
  hc_timeout :: duration
  hc_authToken :: secret_string

record server =
  srv_wakeOnLan :: wake_on_lan_config
  srv_sleepOnLan :: sleep_on_lan_config
  srv_healthCheck :: server_health_check

record route =
  route_name :: string
  route_listen :: int
  route_upstream :: string
  route_server :: string

section \<open>Settings\<close>

record gwaihir_config =
  gw_url :: string
  gw_apiKey :: secret_string
  gw_timeout :: duration

record logging_config =
  log_level :: string
  log_format :: string

record endpoint_config =
  ep_enabled :: bool
  ep_port :: int

record observability_config =
  obs_healthCheck :: endpoint_config
  obs_metrics :: endpoint_config

record settings_config =
  set_gwaihir :: gwaihir_config
  set_logging :: logging_config
  set_observability :: observability_config

record config =
  cfg_settings :: settings_config
  cfg_servers :: "string \<rightharpoonup> server"
  cfg_routes :: "route list"

section \<open>Redaction\<close>

text \<open>Every rendering of a secret depends only on whether it is set.\<close>

lemma SecretString_redacts:
  "(secret_value s = '''') = (secret_value t = '''') \<Longrightarrow>
     SecretString_String s = SecretString_String t
     \<and> SecretString_MarshalText s = SecretString_MarshalText t
     \<and> SecretString_LogValue s = SecretString_LogValue t"
  by (simp add: SecretString_String_def SecretString_MarshalText_def SecretString_LogValue_def)

lemma SecretString_String_empty_iff: "SecretString_String s = '''' \<longleftrightarrow> SecretString_Value s = ''''"
  by (simp add: SecretString_String_def SecretString_Value_def redacted_def)

section \<open>Zero values\<close>

text \<open>A field absent from the YAML file keeps Go's zero value.\<close>

definition zero_secret :: secret_string where
  "zero_secret = \<lparr>secret_value = ''''\<rparr>"

definition zero_wol :: wake_on_lan_config where
  "zero_wol = \<lparr>wol_enabled = False, wol_machineID = '''', wol_timeout = 0, wol_debounce = 0\<rparr>"

definition zero_sol :: sleep_on_lan_config where
  "zero_sol = \<lparr>sol_enabled = False, sol_endpoint = '''', sol_authToken = zero_secret, sol_idleTimeout = 0\<rparr>"

definition zero_hc :: server_health_check where
  "zero_hc = \<lparr>hc_endpoint = '''', hc_interval = 0, hc_timeout = 0, hc_authToken = zero_secret\<rparr>"

definition zero_server :: server where
  "zero_server = \<lparr>srv_wakeOnLan = zero_wol, srv_sleepOnLan = zero_sol, srv_healthCheck = zero_hc\<rparr>"

definition zero_settings :: settings_config where
  "zero_settings =
     \<lparr>set_gwaihir = \<lparr>gw_url = '''', gw_apiKey = zero_secret, gw_timeout = 0\<rparr>,
      set_logging = \<lparr>log_level = '''', log_format = ''''\<rparr>,
      set_observability =
        \<lparr>obs_healthCheck = \<lparr>ep_enabled = False, ep_port = 0\<rparr>,
         obs_metrics = \<lparr>ep_enabled = False, ep_port = 0\<rparr>\<rparr>\<rparr>"

lemmas zero_config_defs = zero_secret_def zero_wol_def zero_sol_def zero_hc_def zero_server_def
  zero_settings_def

end
