(* ===== verification/Reload.thy ===== *)
theory Reload
  imports ConfigTypes
begin

text \<open>
  The configuration diff of \<open>internal/proxy/reload.go\<close>: route keys, route equality and the
  classification of old and new routes into added, removed, modified and unchanged. The two
  loops over Go maps take their iteration orders as arguments.
\<close>

record route_changes =
  added :: "route list"
  removed :: "string list"
  modified :: "route list"
  unchanged :: "string list"

definition routeKey :: "route \<Rightarrow> string" where
  "routeKey r = route_name r @ '':'' @ itoa (route_listen r)"

definition routeEquals :: "route \<Rightarrow> route \<Rightarrow> bool" where
  "routeEquals a b \<longleftrightarrow>
     route_name a = route_name b \<and>
     route_listen a = route_listen b \<and>
     route_upstream a = route_upstream b \<and>
     route_server a = route_server b"

text \<open>Both maps are filled by a loop over the slice, so a later route replaces an earlier one
  with the same key.\<close>

definition route_map :: "route list \<Rightarrow> (string \<rightharpoonup> route)" where
  "route_map rs = fold (\<lambda>r m. m(routeKey r \<mapsto> r)) rs Map.empty"

definition no_changes :: route_changes where
  "no_changes = \<lparr>added = [], removed = [], modified = [], unchanged = []\<rparr>"

text \<open>Body of \<open>for key, newRoute := range newMap\<close>.\<close>

definition classify_new ::
  "(string \<rightharpoonup> route) \<Rightarrow> (string \<rightharpoonup> route) \<Rightarrow> string \<Rightarrow> route_changes \<Rightarrow> route_changes" where
  "classify_new oldMap newMap key ch =
     (case newMap key of
        None \<Rightarrow> ch
      | Some newRoute \<Rightarrow>
          (case oldMap key of
             Some oldRoute \<Rightarrow>
               if \<not> routeEquals oldRoute newRoute
               then ch\<lparr>modified := modified ch @ [newRoute]\<rparr>
               else ch\<lparr>unchanged := unchanged ch @ [key]\<rparr>
           | None \<Rightarrow> ch\<lparr>added := added ch @ [newRoute]\<rparr>))"

text \<open>Body of \<open>for key := range oldMap\<close>.\<close>

definition classify_old :: "(string \<rightharpoonup> route) \<Rightarrow> string \<Rightarrow> route_changes \<Rightarrow> route_changes" where
  "classify_old newMap key ch =
     (if newMap key = None then ch\<lparr>removed := removed ch @ [key]\<rparr> else ch)"

definition detectChanges ::
  "string list \<Rightarrow> string list \<Rightarrow> route list \<Rightarrow> route list \<Rightarrow> route_changes" where
  "detectChanges newOrder oldOrder oldRoutes newRoutes =
     (let oldMap = route_map oldRoutes; newMap = route_map newRoutes;
          ch = fold (classify_new oldMap newMap) newOrder no_changes
      in fold (classify_old newMap) oldOrder ch)"

section \<open>Keys\<close>

lemma routeKey_eq_iff:
  "routeKey a = routeKey b \<longleftrightarrow> route_name a = route_name b \<and> route_listen a = route_listen b"
proof
  assume eq: "routeKey a = routeKey b"
  have split: "takeWhile (\<lambda>c. c \<noteq> CHR '':'') (rev (routeKey r)) = rev (itoa (route_listen r))" for r
  proof -
    have "rev (routeKey r) = rev (itoa (route_listen r)) @ CHR '':'' # rev (route_name r)"
      by (simp add: routeKey_def)
    moreover have "\<forall>c \<in> set (rev (itoa (route_listen r))). c \<noteq> CHR '':''"
      using itoa_no_colon by auto
    ultimately show ?thesis
      by (simp add: takeWhile_append)
  qed
  from eq have "itoa (route_listen a) = itoa (route_listen b)"
    using split [of a] split [of b] by simp
  with eq show "route_name a = route_name b \<and> route_listen a = route_listen b"
    by (simp add: routeKey_def itoa_inj)
next
  assume "route_name a = route_name b \<and> route_listen a = route_listen b"
  then show "routeKey a = routeKey b" by (simp add: routeKey_def)
qed

lemma routeEquals_iff: "routeEquals a b \<longleftrightarrow> a = b"
  by (cases a; cases b) (simp add: routeEquals_def)

section \<open>Route maps\<close>

lemma route_map_Nil [simp]: "route_map [] = Map.empty"
  by (simp add: route_map_def)

lemma route_map_snoc [simp]: "route_map (rs @ [r]) = (route_map rs)(routeKey r \<mapsto> r)"
  by (simp add: route_map_def)

lemma route_map_some_key: "route_map rs k = Some r \<Longrightarrow> r \<in> set rs \<and> routeKey r = k"
  using map_upd_fold_some [of routeKey "\<lambda>r. r" rs Map.empty k r] by (auto simp: route_map_def)

lemma route_map_dom: "dom (route_map rs) = routeKey ` set rs"
  using map_upd_fold_dom [of routeKey "\<lambda>r. r" rs Map.empty] by (simp add: route_map_def)

lemma route_map_distinct:
  "distinct (map routeKey rs) \<Longrightarrow> r \<in> set rs \<Longrightarrow> route_map rs (routeKey r) = Some r"
proof (induction rs rule: rev_induct)
  case Nil
  then show ?case by simp
next
  case (snoc x xs)
  then show ?case by (auto simp: image_iff)
qed

section \<open>What the two loops compute\<close>

lemma classify_new_fold:
  "set ks \<subseteq> dom newMap \<Longrightarrow> fold (classify_new oldMap newMap) ks ch =
     ch\<lparr>added := added ch @ List.map_filter newMap (filter (\<lambda>k. oldMap k = None) ks),
        modified := modified ch @ List.map_filter newMap
          (filter (\<lambda>k. oldMap k \<noteq> None \<and> oldMap k \<noteq> newMap k) ks),
        unchanged := unchanged ch @ filter (\<lambda>k. oldMap k \<noteq> None \<and> oldMap k = newMap k) ks\<rparr>"
proof (induction ks arbitrary: ch)
  case Nil
  then show ?case by (simp add: List.map_filter_def)
next
  case (Cons k ks)
  then obtain r where r: "newMap k = Some r" by auto
  with Cons show ?case
    by (cases "oldMap k") (auto simp: classify_new_def routeEquals_iff List.map_filter_def)
qed

lemma classify_old_fold:
  "fold (classify_old newMap) ks ch = ch\<lparr>removed := removed ch @ filter (\<lambda>k. newMap k = None) ks\<rparr>"
  by (induction ks arbitrary: ch) (simp_all add: classify_old_def)

lemma detectChanges_eq:
  assumes "range_order newOrder (route_map new)"
  shows "detectChanges newOrder oldOrder old new =
    \<lparr>added = List.map_filter (route_map new) (filter (\<lambda>k. route_map old k = None) newOrder),
     removed = filter (\<lambda>k. route_map new k = None) oldOrder,
     modified = List.map_filter (route_map new)
       (filter (\<lambda>k. route_map old k \<noteq> None \<and> route_map old k \<noteq> route_map new k) newOrder),
     unchanged = filter (\<lambda>k. route_map old k \<noteq> None \<and> route_map old k = route_map new k) newOrder\<rparr>"
  using assms
  by (simp add: detectChanges_def Let_def classify_new_fold range_order_dom classify_old_fold
      no_changes_def)

lemma in_set_map_filter: "r \<in> set (List.map_filter f ks) \<longleftrightarrow> (\<exists>k \<in> set ks. f k = Some r)"
  by (force simp: List.map_filter_def)

lemma route_map_at_key:
  "range_order ks (route_map new) \<Longrightarrow>
     (\<exists>k \<in> set ks. P k \<and> route_map new k = Some r)
       \<longleftrightarrow> route_map new (routeKey r) = Some r \<and> P (routeKey r)"
  using range_order_some [of ks "route_map new"] route_map_some_key by blast

text \<open>Membership in each of the four classes, whatever the iteration orders are.\<close>

lemma detectChanges_added:
  "range_order newOrder (route_map new) \<Longrightarrow>
     r \<in> set (added (detectChanges newOrder oldOrder old new))
       \<longleftrightarrow> route_map new (routeKey r) = Some r \<and> route_map old (routeKey r) = None"
  using route_map_at_key [of newOrder new "\<lambda>k. route_map old k = None" r]
  by (auto simp: detectChanges_eq in_set_map_filter)

lemma detectChanges_modified:
  "range_order newOrder (route_map new) \<Longrightarrow>
     r \<in> set (modified (detectChanges newOrder oldOrder old new))
       \<longleftrightarrow> route_map new (routeKey r) = Some r \<and> route_map old (routeKey r) \<notin> {None, Some r}"
  using route_map_at_key [of newOrder new "\<lambda>k. route_map old k \<noteq> None \<and> route_map old k \<noteq> route_map new k" r]
  by (auto simp: detectChanges_eq in_set_map_filter)

lemma detectChanges_removed:
  "range_order newOrder (route_map new) \<Longrightarrow> range_order oldOrder (route_map old) \<Longrightarrow>
     k \<in> set (removed (detectChanges newOrder oldOrder old new))
       \<longleftrightarrow> k \<in> dom (route_map old) \<and> route_map new k = None"
  by (auto simp: detectChanges_eq range_order_dom)

lemma detectChanges_unchanged:
  "range_order newOrder (route_map new) \<Longrightarrow>
     k \<in> set (unchanged (detectChanges newOrder oldOrder old new))
       \<longleftrightarrow> k \<in> dom (route_map new) \<and> route_map old k = route_map new k"
  by (auto simp: detectChanges_eq range_order_dom)

lemmas detectChanges_members = detectChanges_added detectChanges_modified detectChanges_removed
  detectChanges_unchanged

text \<open>No class lists a key twice.\<close>

lemma map_filter_keys_distinct:
  "distinct ks \<Longrightarrow> distinct (map routeKey (List.map_filter (route_map new) ks))"
proof (induction ks)
  case Nil
  then show ?case by (simp add: List.map_filter_simps)
next
  case (Cons k ks)
  show ?case
  proof (cases "route_map new k")
    case None
    with Cons show ?thesis by (simp add: List.map_filter_simps)
  next
    case (Some r)
    then have key: "routeKey r = k" by (simp add: route_map_some_key)
    have "k \<notin> routeKey ` set (List.map_filter (route_map new) ks)"
      using Cons.prems by (auto simp: in_set_map_filter dest: route_map_some_key)
    with Some key Cons show ?thesis by (simp add: List.map_filter_simps)
  qed
qed

lemma detectChanges_distinct:
  assumes "range_order newOrder (route_map new)" and "range_order oldOrder (route_map old)"
  defines "ch \<equiv> detectChanges newOrder oldOrder old new"
  shows "distinct (map routeKey (added ch))" and "distinct (map routeKey (modified ch))"
    and "distinct (removed ch)" and "distinct (unchanged ch)"
  using assms(1,2)
  by (simp_all add: ch_def detectChanges_eq map_filter_keys_distinct range_order_distinct)

section \<open>The contract: the diff turns the old routes into the new ones\<close>

text \<open>
  What a consumer of the diff has to do with it: forget the removed and the modified keys, then
  install the added and the modified routes.
\<close>

definition apply_changes :: "route_changes \<Rightarrow> (string \<rightharpoonup> route) \<Rightarrow> (string \<rightharpoonup> route)" where
  "apply_changes ch m =
     fold (\<lambda>r m. m(routeKey r \<mapsto> r)) (added ch @ modified ch)
       (m |` (- (set (removed ch) \<union> routeKey ` set (modified ch))))"

lemma route_fold_in:
  "distinct (map routeKey rs) \<Longrightarrow> r \<in> set rs \<Longrightarrow>
     fold (\<lambda>r m. m(routeKey r \<mapsto> r)) rs m (routeKey r) = Some r"
proof (induction rs rule: rev_induct)
  case Nil
  then show ?case by simp
next
  case (snoc x xs)
  then show ?case by (auto simp: image_iff)
qed

lemma detectChanges_apply:
  assumes new: "range_order newOrder (route_map new)"
    and old: "range_order oldOrder (route_map old)"
  shows "apply_changes (detectChanges newOrder oldOrder old new) (route_map old) = route_map new"
proof
  fix k
  let ?ch = "detectChanges newOrder oldOrder old new"
  let ?rs = "added ?ch @ modified ?ch"
  let ?m = "route_map old |` (- (set (removed ?ch) \<union> routeKey ` set (modified ?ch)))"
  note classes = detectChanges_added [OF new] detectChanges_modified [OF new]
    detectChanges_removed [OF new old]
  have dist: "distinct (map routeKey ?rs)"
    using detectChanges_distinct(1,2) [OF new old]
    by (auto simp: classes)
  show "apply_changes ?ch (route_map old) k = route_map new k"
  proof (cases "\<exists>r \<in> set ?rs. routeKey r = k")
    case True
    then obtain r where r: "r \<in> set ?rs" "routeKey r = k" by blast
    with dist have "apply_changes ?ch (route_map old) k = Some r"
      using route_fold_in unfolding apply_changes_def by blast
    moreover from r have "route_map new k = Some r"
      by (auto simp: classes)
    ultimately show ?thesis by simp
  next
    case False
    then have "apply_changes ?ch (route_map old) k = ?m k"
      unfolding apply_changes_def by (intro map_upd_fold_outside) blast
    also from False have "\<dots> = (if k \<in> set (removed ?ch) then None else route_map old k)"
      by (auto simp: restrict_map_def)
    also have "\<dots> = route_map new k"
    proof (cases "route_map new k")
      case None
      then show ?thesis by (auto simp: classes)
    next
      case (Some r)
      then have key: "routeKey r = k" by (simp add: route_map_some_key)
      with False have "r \<notin> set (added ?ch)" "r \<notin> set (modified ?ch)" by auto
      with Some key show ?thesis by (auto simp: classes)
    qed
    finally show ?thesis .
  qed
qed

lemma detectChanges_skip_iff:
  assumes new: "range_order newOrder (route_map new)"
    and old: "range_order oldOrder (route_map old)"
  defines "ch \<equiv> detectChanges newOrder oldOrder old new"
  shows "added ch = [] \<and> removed ch = [] \<and> modified ch = [] \<longleftrightarrow> route_map old = route_map new"
proof
  assume empty: "added ch = [] \<and> removed ch = [] \<and> modified ch = []"
  have "apply_changes ch (route_map old) = route_map new"
    unfolding ch_def by (rule detectChanges_apply [OF new old])
  with empty show "route_map old = route_map new"
    by (simp add: apply_changes_def restrict_map_def)
next
  assume eq: "route_map old = route_map new"
  show "added ch = [] \<and> removed ch = [] \<and> modified ch = []"
  proof (intro conjI)
    show "added ch = []" using detectChanges_added [OF new, of _ oldOrder old] eq
      unfolding ch_def by (metis list.set_intros(1) neq_Nil_conv option.distinct(1))
    show "modified ch = []" using detectChanges_modified [OF new, of _ oldOrder old] eq
      unfolding ch_def by (metis insertCI list.set_intros(1) neq_Nil_conv)
    show "removed ch = []" using detectChanges_removed [OF new old] eq
      unfolding ch_def by (metis domIff list.set_intros(1) neq_Nil_conv)
  qed
qed

section \<open>Properties\<close>



text \<open>Two routes have the same key exactly when both their names and their ports agree: a
  colon inside a name cannot make two different listeners collide.\<close>

theorem routeKey_injective:
  "routeKey a = routeKey b \<longleftrightarrow> route_name a = route_name b \<and> route_listen a = route_listen b"
  by (rule routeKey_eq_iff)

end
