(* ===== verification/Channel.thy ===== *)
theory Channel
  imports Prelude
begin

text \<open>
  Go's buffered channels, as far as the code uses them: a non-blocking send
  (\<open>select { case ch <- v: ... default: ... }\<close>) and a receive. The locale states the contract
  the components rely on (FIFO order, a bounded buffer, drops only when full); the channel model
  interprets it.
\<close>

section \<open>The contract of a bounded queue\<close>

locale bounded_queue =
  fixes send :: "'a \<Rightarrow> 'q \<Rightarrow> 'q option"
    and recv :: "'q \<Rightarrow> ('a \<times> 'q) option"
    and contents :: "'q \<Rightarrow> 'a list"
    and cap :: "'q \<Rightarrow> nat"
  assumes send_room: "length (contents q) < cap q \<Longrightarrow>
      \<exists>q'. send v q = Some q' \<and> contents q' = contents q @ [v] \<and> cap q' = cap q"
    and send_full: "cap q \<le> length (contents q) \<Longrightarrow> send v q = None"
    and recv_first: "contents q = v # vs \<Longrightarrow>
      \<exists>q'. recv q = Some (v, q') \<and> contents q' = vs \<and> cap q' = cap q"
    and recv_empty: "contents q = [] \<Longrightarrow> recv q = None"
begin

lemma send_some_iff: "(\<exists>q'. send v q = Some q') \<longleftrightarrow> length (contents q) < cap q"
  using send_room [of q v] send_full [of q v] by (cases "length (contents q) < cap q") auto

lemma send_SomeD:
  assumes "send v q = Some q'"
  shows "contents q' = contents q @ [v]" and "cap q' = cap q" and "length (contents q) < cap q"
  using assms send_room [of q v] send_full [of q v]
  by (cases "length (contents q) < cap q"; auto)+

lemma send_NoneD: "send v q = None \<Longrightarrow> cap q \<le> length (contents q)"
  using send_room [of q v] by (cases "length (contents q) < cap q") auto

lemma recv_SomeD:
  assumes "recv q = Some (v, q')"
  shows "contents q = v # contents q'" and "cap q' = cap q"
  using assms recv_first [of q] recv_empty [of q] by (cases "contents q"; fastforce)+

lemma send_bounded: "send v q = Some q' \<Longrightarrow> length (contents q') \<le> cap q'"
  using send_SomeD by fastforce

lemma recv_bounded: "recv q = Some (v, q') \<Longrightarrow> length (contents q) \<le> cap q \<Longrightarrow> length (contents q') \<le> cap q'"
  using recv_SomeD [of q v q'] by simp

text \<open>Offering a list of values one by one keeps the prefix that fits and drops the rest.\<close>

definition offer :: "'a \<Rightarrow> 'q \<Rightarrow> 'q" where
  "offer v q = (case send v q of None \<Rightarrow> q | Some q' \<Rightarrow> q')"

lemma offer_contents:
  "contents (offer v q) = (if length (contents q) < cap q then contents q @ [v] else contents q)"
  "cap (offer v q) = cap q"
  using send_room [of q v] send_full [of q v]
  by (cases "length (contents q) < cap q"; auto simp: offer_def)+

lemma offer_all:
  "length (contents q) \<le> cap q \<Longrightarrow>
     contents (fold offer vs q) = contents q @ take (cap q - length (contents q)) vs"
proof (induction vs arbitrary: q)
  case Nil
  then show ?case by simp
next
  case (Cons v vs)
  show ?case
  proof (cases "length (contents q) < cap q")
    case True
    with Cons.IH [of "offer v q"] show ?thesis
      by (auto simp: offer_contents take_Cons' diff_Suc split: nat.splits)
  next
    case False
    with Cons.prems Cons.IH [of "offer v q"] show ?thesis
      by (simp add: offer_contents)
  qed
qed

end

section \<open>Go channels\<close>

record 'a chan =
  ch_cap :: nat
  ch_buf :: "'a list"

definition make_chan :: "nat \<Rightarrow> 'a chan" where
  "make_chan n = \<lparr>ch_cap = n, ch_buf = []\<rparr>"

definition try_send :: "'a \<Rightarrow> 'a chan \<Rightarrow> 'a chan option" where
  "try_send v c =
     (if length (ch_buf c) < ch_cap c then Some (c\<lparr>ch_buf := ch_buf c @ [v]\<rparr>) else None)"

definition try_recv :: "'a chan \<Rightarrow> ('a \<times> 'a chan) option" where
  "try_recv c = (case ch_buf c of [] \<Rightarrow> None | v # vs \<Rightarrow> Some (v, c\<lparr>ch_buf := vs\<rparr>))"

interpretation chan: bounded_queue try_send try_recv ch_buf ch_cap
  by unfold_locales (auto simp: try_send_def try_recv_def)

lemma make_chan_simps [simp]: "ch_buf (make_chan n) = []" "ch_cap (make_chan n) = n"
  by (simp_all add: make_chan_def)

end
