(* ===== verification/HealthStore.thy ===== *)
theory HealthStore
  imports ConfigTypes
begin

text \<open>
  The health status of servers and the store the components share: \<open>ServerHealthStatus\<close> and the
  interface \<open>HealthStore\<close> of \<open>internal/health/types.go\<close> as a locale, and
  \<open>InMemoryHealthStore\<close> of \<open>internal/store/health_store.go\<close>, which interprets it.
\<close>

record server_health_status =
  st_serverID :: string
  st_healthy :: bool
  st_lastCheckedAt :: time
  st_lastError :: string

definition zero_status :: server_health_status where
  "zero_status = \<lparr>st_serverID = '''', st_healthy = False, st_lastCheckedAt = 0, st_lastError = ''''\<rparr>"

section \<open>The interface\<close>

text \<open>
  \<open>Get\<close> returns a status and whether the server has been checked; \<open>Update\<close> replaces one entry;
  \<open>GetAll\<close> is a snapshot.
\<close>

locale health_store =
  fixes get :: "'s \<Rightarrow> string \<Rightarrow> server_health_status \<times> bool"
    and update :: "'s \<Rightarrow> string \<Rightarrow> server_health_status \<Rightarrow> 's"
    and get_all :: "'s \<Rightarrow> (string \<rightharpoonup> server_health_status)"
  assumes get_update: "get (update s k v) k' = (if k' = k then (v, True) else get s k')"
    and get_missing: "\<not> snd (get s k) \<Longrightarrow> fst (get s k) = zero_status"
    and get_all_get: "get_all s k = (if snd (get s k) then Some (fst (get s k)) else None)"
begin

text \<open>The test the clients make: \<open>status, found := Get(id); found \<and> status.Healthy\<close>.\<close>

definition reports_healthy :: "'s \<Rightarrow> string \<Rightarrow> bool" where
  "reports_healthy s k \<longleftrightarrow> snd (get s k) \<and> st_healthy (fst (get s k))"

lemma reports_healthy_get: "reports_healthy s k \<longleftrightarrow> st_healthy (fst (get s k))"
  using get_missing [of s k] by (cases "snd (get s k)") (auto simp: reports_healthy_def zero_status_def)

lemma reports_healthy_update:
  "reports_healthy (update s k v) k' = (if k' = k then st_healthy v else reports_healthy s k')"
  by (simp add: reports_healthy_def get_update)

lemma update_same: "get (update (update s k v) k w) k' = get (update s k w) k'"
  by (simp add: get_update)

lemma update_swap: "k \<noteq> l \<Longrightarrow> get (update (update s k v) l w) m = get (update (update s l w) k v) m"
  by (simp add: get_update)

definition updates :: "(string \<times> server_health_status) list \<Rightarrow> 's \<Rightarrow> 's" where
  "updates us s = fold (\<lambda>(k, v) s. update s k v) us s"

text \<open>After any sequence of updates a server has the status of its last update.\<close>

lemma get_updates:
  "get (updates us s) k = (case map_of (rev us) k of None \<Rightarrow> get s k | Some v \<Rightarrow> (v, True))"
proof (induction us arbitrary: s)
  case Nil
  then show ?case by (simp add: updates_def)
next
  case (Cons u us)
  obtain k' v where u: "u = (k', v)" by (cases u)
  have "get (updates (u # us) s) k = get (updates us (update s k' v)) k"
    by (simp add: updates_def u)
  then show ?case
    by (simp add: Cons get_update u map_add_def split: option.splits)
qed

lemma never_updated_not_healthy:
  "\<not> reports_healthy s k \<Longrightarrow> k \<notin> fst ` set us \<Longrightarrow> \<not> reports_healthy (updates us s) k"
proof -
  assume "\<not> reports_healthy s k" and "k \<notin> fst ` set us"
  moreover from this(2) have "map_of (rev us) k = None"
    by (simp add: map_of_eq_None_iff)
  ultimately show ?thesis by (simp add: reports_healthy_def get_updates)
qed

end

section \<open>The in-memory store\<close>

record in_memory_store =
  ims_health :: "string \<rightharpoonup> server_health_status"

definition NewInMemoryHealthStore :: in_memory_store where
  "NewInMemoryHealthStore = \<lparr>ims_health = Map.empty\<rparr>"

definition store_Get :: "in_memory_store \<Rightarrow> string \<Rightarrow> server_health_status \<times> bool" where
  "store_Get s serverID =
     (case ims_health s serverID of None \<Rightarrow> (zero_status, False) | Some st \<Rightarrow> (st, True))"

definition store_Update ::
  "in_memory_store \<Rightarrow> string \<Rightarrow> server_health_status \<Rightarrow> in_memory_store" where
  "store_Update s serverID status = s\<lparr>ims_health := (ims_health s)(serverID \<mapsto> status)\<rparr>"

text \<open>\<open>GetAll\<close> copies the map entry by entry, in the runtime's iteration order.\<close>

definition store_GetAll_loop ::
  "string list \<Rightarrow> in_memory_store \<Rightarrow> (string \<rightharpoonup> server_health_status)" where
  "store_GetAll_loop order s =
     fold (\<lambda>k m. case ims_health s k of None \<Rightarrow> m | Some v \<Rightarrow> m(k \<mapsto> v)) order Map.empty"

definition store_snapshot :: "in_memory_store \<Rightarrow> (string \<rightharpoonup> server_health_status)" where
  "store_snapshot s = ims_health s"

lemma copy_loop:
  "fold (\<lambda>k m. case h k of None \<Rightarrow> m | Some v \<Rightarrow> m(k \<mapsto> v)) ks m = m ++ (h |` set ks)"
proof (induction ks arbitrary: m)
  case Nil
  then show ?case by (simp add: restrict_map_def map_add_def)
next
  case (Cons k ks)
  then show ?case
    by (cases "h k") (auto simp: map_add_def restrict_map_def fun_eq_iff split: option.splits)
qed

lemma store_GetAll_loop_eq:
  "range_order order (ims_health s) \<Longrightarrow> store_GetAll_loop order s = store_snapshot s"
  by (auto simp: store_GetAll_loop_def copy_loop range_order_def restrict_map_def store_snapshot_def
      fun_eq_iff dom_def)

interpretation ims: health_store store_Get store_Update store_snapshot
  by unfold_locales
    (auto simp: store_Get_def store_Update_def store_snapshot_def split: option.splits)

lemma fresh_store_unhealthy: "\<not> ims.reports_healthy NewInMemoryHealthStore k"
  by (simp add: ims.reports_healthy_def store_Get_def NewInMemoryHealthStore_def)

section \<open>Properties\<close>

text \<open>A reader of the health store sees, for every server, the status written by the last
  update of that server, and the zero status with found = false if there was none; \<open>GetAll\<close>
  returns exactly the entries that \<open>Get\<close> finds, whatever order the copy loop runs in.\<close>

theorem store_last_write_wins:
  "range_order order (ims_health (fold (\<lambda>(k, v) s. store_Update s k v) us NewInMemoryHealthStore)) \<Longrightarrow>
     store_Get (fold (\<lambda>(k, v) s. store_Update s k v) us NewInMemoryHealthStore) serverID =
       (case map_of (rev us) serverID of None \<Rightarrow> (zero_status, False) | Some st \<Rightarrow> (st, True))
     \<and> store_GetAll_loop order (fold (\<lambda>(k, v) s. store_Update s k v) us NewInMemoryHealthStore) serverID
       = map_of (rev us) serverID"
  using ims.get_updates [of us NewInMemoryHealthStore serverID]
    ims.get_all_get [of "ims.updates us NewInMemoryHealthStore" serverID]
  by (simp add: store_GetAll_loop_eq ims.updates_def store_Get_def NewInMemoryHealthStore_def
      split: option.splits)

theorem store_last_write_wins_witness:
  "store_Get (fold (\<lambda>(k, v) s. store_Update s k v)
       [(''a'', zero_status), (''b'', zero_status), (''a'', zero_status\<lparr>st_healthy := True\<rparr>)]
       NewInMemoryHealthStore) ''a'' = (zero_status\<lparr>st_healthy := True\<rparr>, True)"
  using store_last_write_wins [of "[''a'', ''b'']"
      "[(''a'', zero_status), (''b'', zero_status), (''a'', zero_status\<lparr>st_healthy := True\<rparr>)]" "''a''"]
  by (auto simp: range_order_def store_Update_def NewInMemoryHealthStore_def)

end
