(* ===== verification/Metrics.thy ===== *)
theory Metrics
  imports Prelude
begin

text \<open>
  The metrics registry of \<open>internal/infrastructure/metrics\<close>. Prometheus is a library outside the
  repository, so a registry is the list of calls the code makes on Prometheus collectors, and
  registering a collector is a parameter. An optional \<open>*metrics.Registry\<close> is an option: None is
  nil, and recording on nil does nothing.
\<close>

datatype metric_call =
    CounterInc string "string list"
  | GaugeSet string "string list" int
  | Observe string "string list" duration

type_synonym registry = "metric_call list option"

definition record_calls :: "metric_call list \<Rightarrow> registry \<Rightarrow> registry" where
  "record_calls cs m = map_option (\<lambda>l. l @ cs) m"

definition success_label :: "bool \<Rightarrow> string" where
  "success_label success = (if success then ''true'' else ''false'')"

section \<open>Recording\<close>

definition RecordConfigReload :: "bool \<Rightarrow> registry \<Rightarrow> registry" where
  "RecordConfigReload success =
     record_calls [CounterInc ''smaug_config_reload_total'' [success_label success]]"

definition RecordAPICall :: "string \<Rightarrow> bool \<Rightarrow> duration \<Rightarrow> registry \<Rightarrow> registry" where
  "RecordAPICall operation success d =
     record_calls
       [Observe ''smaug_gwaihir_api_duration_seconds'' [operation, success_label success] d,
        CounterInc ''smaug_gwaihir_api_calls_total'' [operation, success_label success]]"

definition RecordWakeAttempt :: "string \<Rightarrow> bool \<Rightarrow> registry \<Rightarrow> registry" where
  "RecordWakeAttempt serverID success =
     record_calls [CounterInc ''smaug_wake_attempts_total'' [serverID, success_label success]]"

definition SetServerAwake :: "string \<Rightarrow> bool \<Rightarrow> registry \<Rightarrow> registry" where
  "SetServerAwake serverID awake =
     record_calls [GaugeSet ''smaug_server_awake'' [serverID] (if awake then 1 else 0)]"

definition RecordHealthCheckFailure :: "string \<Rightarrow> string \<Rightarrow> registry \<Rightarrow> registry" where
  "RecordHealthCheckFailure serverID reason =
     record_calls [CounterInc ''smaug_health_check_failures_total'' [serverID, reason]]"

definition RecordSleepTriggered :: "string \<Rightarrow> registry \<Rightarrow> registry" where
  "RecordSleepTriggered serverID =
     record_calls [CounterInc ''smaug_sleep_triggered_total'' [serverID]]"

definition status_table :: "(int \<times> string) list" where
  "status_table =
     [(200, ''200''), (201, ''201''), (204, ''204''), (301, ''301''), (302, ''302''),
      (304, ''304''), (400, ''400''), (401, ''401''), (403, ''403''), (404, ''404''),
      (409, ''409''), (429, ''429''), (500, ''500''), (502, ''502''), (503, ''503''),
      (504, ''504'')]"

definition statusCodeToString :: "int \<Rightarrow> string" where
  "statusCodeToString code =
     (case map_of status_table code of Some s \<Rightarrow> s | None \<Rightarrow> ''other'')"

definition RecordRequest :: "string \<Rightarrow> int \<Rightarrow> duration \<Rightarrow> registry \<Rightarrow> registry" where
  "RecordRequest methd statusCode d =
     record_calls
       [CounterInc ''smaug_requests_total'' [],
        Observe ''smaug_request_duration_seconds'' [] d,
        CounterInc ''smaug_requests_by_status_total'' [statusCodeToString statusCode],
        CounterInc ''smaug_requests_by_method_total'' [methd]]"

lemmas metrics_defs = record_calls_def success_label_def RecordConfigReload_def RecordAPICall_def
  RecordWakeAttempt_def SetServerAwake_def RecordHealthCheckFailure_def RecordSleepTriggered_def
  RecordRequest_def

lemma record_calls_None [simp]: "record_calls cs None = None"
  by (simp add: record_calls_def)

lemma record_calls_Some [simp]: "record_calls cs (Some l) = Some (l @ cs)"
  by (simp add: record_calls_def)

lemma record_calls_nil_iff [simp]: "record_calls cs m = None \<longleftrightarrow> m = None"
  by (simp add: record_calls_def)

text \<open>How often a counter was incremented for a label combination.\<close>

definition counter :: "string \<Rightarrow> string list \<Rightarrow> metric_call list \<Rightarrow> nat" where
  "counter n ls l = count_list l (CounterInc n ls)"

lemma counter_append [simp]: "counter n ls (l @ k) = counter n ls l + counter n ls k"
  by (simp add: counter_def)

lemma status_table_entries: "list_all (\<lambda>(c, s). s = itoa c) status_table"
  by (simp add: status_table_def itoa_def nat_digits.simps digit_char_def)

lemma statusCodeToString_cases: "statusCodeToString code \<in> {itoa code, ''other''}"
proof (cases "map_of status_table code")
  case None
  then show ?thesis by (simp add: statusCodeToString_def)
next
  case (Some s)
  then have "(code, s) \<in> set status_table" by (rule map_of_SomeD)
  then have "s = itoa code"
    using status_table_entries by (auto simp: list_all_iff)
  with Some show ?thesis by (simp add: statusCodeToString_def)
qed

section \<open>Construction\<close>

text \<open>
  \<open>register\<close> is Prometheus' \<open>Register\<close>: an error or the registry with the collector. The
  constructors register their collectors in the order of the code and stop at the first error.
\<close>

fun register_all ::
  "(string \<Rightarrow> 'r \<Rightarrow> 'e option \<times> 'r) \<Rightarrow> string list \<Rightarrow> 'r \<Rightarrow> (string \<times> 'e) + 'r" where
  "register_all register [] r = Inr r"
| "register_all register (n # ns) r =
     (case register n r of
        (Some e, r') \<Rightarrow> Inl (n, e)
      | (None, r') \<Rightarrow> register_all register ns r')"

definition NewRequestMetrics where
  "NewRequestMetrics register =
     register_all register
       [''smaug_requests_total'', ''smaug_request_duration_seconds'',
        ''smaug_requests_by_status_total'', ''smaug_requests_by_method_total'']"

definition NewPowerMetrics where
  "NewPowerMetrics register =
     register_all register
       [''smaug_wake_attempts_total'', ''smaug_server_awake'',
        ''smaug_health_check_failures_total'', ''smaug_sleep_triggered_total'']"

definition NewConfigMetrics where
  "NewConfigMetrics register = register_all register [''smaug_config_reload_total'']"

definition NewGwaihirMetrics where
  "NewGwaihirMetrics register =
     register_all register
       [''smaug_gwaihir_api_duration_seconds'', ''smaug_gwaihir_api_calls_total'']"

definition bind_sum :: "'e + 'a \<Rightarrow> ('a \<Rightarrow> 'e + 'b) \<Rightarrow> 'e + 'b" where
  "bind_sum x f = (case x of Inl e \<Rightarrow> Inl e | Inr a \<Rightarrow> f a)"

text \<open>\<open>New\<close> returns a registry on which nothing has been recorded.\<close>

definition metrics_New ::
  "(string \<Rightarrow> 'r \<Rightarrow> 'e option \<times> 'r) \<Rightarrow> 'r \<Rightarrow> (string \<times> 'e) + ('r \<times> registry)" where
  "metrics_New register r0 =
     bind_sum (NewRequestMetrics register r0) (\<lambda>r1.
     bind_sum (NewPowerMetrics register r1) (\<lambda>r2.
     bind_sum (NewConfigMetrics register r2) (\<lambda>r3.
     bind_sum (NewGwaihirMetrics register r3) (\<lambda>r4. Inr (r4, Some [])))))"

text \<open>
  The Prometheus side of a registry is only passed on: to the handler of the metrics endpoint, to
  tests, and through \<open>Collect\<close> and \<open>Describe\<close> to the collectors registered in it.
\<close>

definition Registry_Handler :: "('r \<Rightarrow> 'h) \<Rightarrow> 'r \<times> registry \<Rightarrow> 'h" where
  "Registry_Handler handlerFor r = handlerFor (fst r)"

definition Registry_Gatherer :: "'r \<times> registry \<Rightarrow> 'r" where
  "Registry_Gatherer r = fst r"

definition Registry_Collect :: "('r \<Rightarrow> 'ch \<Rightarrow> 'ch) \<Rightarrow> 'r \<times> registry \<Rightarrow> 'ch \<Rightarrow> 'ch" where
  "Registry_Collect collect r ch = collect (fst r) ch"

definition Registry_Describe :: "('r \<Rightarrow> 'ch \<Rightarrow> 'ch) \<Rightarrow> 'r \<times> registry \<Rightarrow> 'ch \<Rightarrow> 'ch" where
  "Registry_Describe describe r ch = describe (fst r) ch"

definition Registry_Close :: "'r \<times> registry \<Rightarrow> string option" where
  "Registry_Close r = None"

definition collector_names :: "string list" where
  "collector_names =
     [''smaug_requests_total'', ''smaug_request_duration_seconds'',
      ''smaug_requests_by_status_total'', ''smaug_requests_by_method_total'',
      ''smaug_wake_attempts_total'', ''smaug_server_awake'',
      ''smaug_health_check_failures_total'', ''smaug_sleep_triggered_total'',
      ''smaug_config_reload_total'',
      ''smaug_gwaihir_api_duration_seconds'', ''smaug_gwaihir_api_calls_total'']"

lemma register_all_append:
  "register_all register (ns @ ms) r = bind_sum (register_all register ns r) (register_all register ms)"
  by (induction ns arbitrary: r) (auto simp: bind_sum_def split: option.splits prod.splits)

lemma bind_sum_assoc: "bind_sum (bind_sum x f) g = bind_sum x (\<lambda>a. bind_sum (f a) g)"
  by (simp add: bind_sum_def split: sum.splits)

lemma metrics_New_eq:
  "metrics_New register r0 =
     bind_sum (register_all register collector_names r0) (\<lambda>r. Inr (r, Some []))"
proof -
  have "collector_names =
      [''smaug_requests_total'', ''smaug_request_duration_seconds'',
       ''smaug_requests_by_status_total'', ''smaug_requests_by_method_total''] @
      [''smaug_wake_attempts_total'', ''smaug_server_awake'',
       ''smaug_health_check_failures_total'', ''smaug_sleep_triggered_total''] @
      [''smaug_config_reload_total''] @
      [''smaug_gwaihir_api_duration_seconds'', ''smaug_gwaihir_api_calls_total'']"
    by (simp add: collector_names_def)
  note names = this
  show ?thesis
    unfolding metrics_New_def NewRequestMetrics_def NewPowerMetrics_def NewConfigMetrics_def
      NewGwaihirMetrics_def names register_all_append bind_sum_assoc ..
qed

lemma collector_names_distinct: "distinct collector_names"
  by (simp add: collector_names_def)

text \<open>
  A registry that refuses only names it already holds accepts any list of distinct fresh names.
\<close>

lemma register_all_fresh:
  assumes "\<And>n r. n \<notin> names r \<Longrightarrow> fst (register n r) = None \<and> names (snd (register n r)) = insert n (names r)"
  shows "distinct ns \<Longrightarrow> set ns \<inter> names r = {} \<Longrightarrow>
    \<exists>r'. register_all register ns r = Inr r' \<and> names r' = set ns \<union> names r"
proof (induction ns arbitrary: r)
  case Nil
  then show ?case by simp
next
  case (Cons n ns)
  obtain o' r' where reg: "register n r = (o', r')" by fastforce
  with assms [of n r] Cons.prems have "o' = None" "names r' = insert n (names r)" by auto
  with Cons.IH [of r'] Cons.prems reg show ?case by auto
qed

end
