(* ===== verification/IdleTracker.thy ===== *)
theory IdleTracker
  imports Channel Metrics
begin

text \<open>
  The idle tracker of \<open>internal/proxy/idle_tracker.go\<close>: last-activity times per route, the
  periodic check that emits sleep triggers on a buffered channel, and the Start/Stop life cycle
  of its checker goroutine. Every operation holds the tracker's lock, so an operation is one
  state change; the consumer of the channel does not take the lock, so the check loop is a
  sequence of route visits interleaved with receives.
\<close>

section \<open>State\<close>

datatype idle_error =
    ErrIdleTrackerMissingLogger
  | ErrIdleTrackerInvalidCheckInterval
  | ErrIdleTrackerAlreadyRunning
  | ErrIdleTrackerNotRunning

definition idleNeverSeen :: duration where
  "idleNeverSeen = max_int64"

definition sleepTriggerBufSize :: nat where
  "sleepTriggerBufSize = 64"

record route_entry =
  re_idleTimeout :: duration
  re_lastSeen :: time

text \<open>
  \<open>it_cycle\<close> identifies the cancel function and the done channel of the latest Start, and
  \<open>it_checkers\<close> the checker goroutines that have not exited. \<open>it_delivered\<close> and \<open>it_log\<close> are
  history: what the consumer received, and the activity and triggers in order.
\<close>

datatype idle_log = Seen string time | Fired string time duration

record idle_tracker =
  it_checkInterval :: duration
  it_metrics :: registry
  it_routes :: "string \<rightharpoonup> route_entry"
  it_sleepCh :: "string chan"
  it_running :: bool
  it_cycle :: nat
  it_checkers :: "nat list"
  it_delivered :: "string list"
  it_log :: "idle_log list"

section \<open>Operations\<close>

definition NewIdleTracker :: "duration \<Rightarrow> bool \<Rightarrow> idle_error + idle_tracker" where
  "NewIdleTracker checkInterval hasLogger =
     (if \<not> hasLogger then Inl ErrIdleTrackerMissingLogger
      else if checkInterval \<le> 0 then Inl ErrIdleTrackerInvalidCheckInterval
      else Inr \<lparr>it_checkInterval = checkInterval, it_metrics = None, it_routes = Map.empty,
                it_sleepCh = make_chan sleepTriggerBufSize, it_running = False, it_cycle = 0,
                it_checkers = [], it_delivered = [], it_log = []\<rparr>)"

definition IdleTracker_SetMetrics :: "registry \<Rightarrow> idle_tracker \<Rightarrow> idle_tracker" where
  "IdleTracker_SetMetrics reg t = (if it_running t then t else t\<lparr>it_metrics := reg\<rparr>)"

definition RegisterRoute :: "string \<Rightarrow> duration \<Rightarrow> idle_tracker \<Rightarrow> idle_tracker" where
  "RegisterRoute routeID idleTimeout t =
     (case it_routes t routeID of
        Some existing \<Rightarrow>
          t\<lparr>it_routes := (it_routes t)(routeID \<mapsto> existing\<lparr>re_idleTimeout := idleTimeout\<rparr>)\<rparr>
      | None \<Rightarrow>
          t\<lparr>it_routes := (it_routes t)(routeID \<mapsto> \<lparr>re_idleTimeout = idleTimeout, re_lastSeen = 0\<rparr>)\<rparr>)"

definition RecordActivity :: "time \<Rightarrow> string \<Rightarrow> idle_tracker \<Rightarrow> idle_tracker" where
  "RecordActivity now routeID t =
     (let entry = (case it_routes t routeID of
                     Some e \<Rightarrow> e | None \<Rightarrow> \<lparr>re_idleTimeout = 0, re_lastSeen = 0\<rparr>)
      in t\<lparr>it_routes := (it_routes t)(routeID \<mapsto> entry\<lparr>re_lastSeen := now\<rparr>),
           it_log := it_log t @ [Seen routeID now]\<rparr>)"

definition computeIdleTime :: "time \<Rightarrow> time \<Rightarrow> duration" where
  "computeIdleTime lastSeen now =
     (if time_is_zero lastSeen then idleNeverSeen else time_sub now lastSeen)"

definition IdleTime :: "time \<Rightarrow> string \<Rightarrow> idle_tracker \<Rightarrow> duration" where
  "IdleTime now routeID t =
     (case it_routes t routeID of
        None \<Rightarrow> idleNeverSeen
      | Some e \<Rightarrow> computeIdleTime (re_lastSeen e) now)"

text \<open>The body of the loop over the routes, for one route.\<close>

definition visit_route :: "time \<Rightarrow> string \<Rightarrow> idle_tracker \<Rightarrow> idle_tracker" where
  "visit_route now routeID t =
     (case it_routes t routeID of
        None \<Rightarrow> t
      | Some entry \<Rightarrow>
          if re_idleTimeout entry \<le> 0 then t
          else
            (let idleSince = computeIdleTime (re_lastSeen entry) now in
             if idleSince < re_idleTimeout entry then t
             else
               (case try_send routeID (it_sleepCh t) of
                  Some ch \<Rightarrow>
                    t\<lparr>it_sleepCh := ch,
                      it_routes := (it_routes t)(routeID \<mapsto> entry\<lparr>re_lastSeen := now\<rparr>),
                      it_metrics := RecordSleepTriggered routeID (it_metrics t),
                      it_log := it_log t @ [Fired routeID now (re_idleTimeout entry)]\<rparr>
                | None \<Rightarrow> t)))"

text \<open>The consumer takes the oldest trigger off the channel.\<close>

definition take_trigger :: "idle_tracker \<Rightarrow> idle_tracker" where
  "take_trigger t =
     (case try_recv (it_sleepCh t) of
        None \<Rightarrow> t
      | Some (routeID, ch) \<Rightarrow> t\<lparr>it_sleepCh := ch, it_delivered := it_delivered t @ [routeID]\<rparr>)"

datatype check_step = Visit string | Take

fun exec_check_step :: "time \<Rightarrow> check_step \<Rightarrow> idle_tracker \<Rightarrow> idle_tracker" where
  "exec_check_step now (Visit routeID) t = visit_route now routeID t"
| "exec_check_step now Take t = take_trigger t"

definition visited :: "check_step list \<Rightarrow> string list" where
  "visited steps = List.map_filter (\<lambda>s. case s of Visit r \<Rightarrow> Some r | Take \<Rightarrow> None) steps"

text \<open>
  \<open>now\<close> is read before the lock is taken; \<open>steps\<close> are the visits, in the map's iteration order,
  interleaved with what the consumer does meanwhile.
\<close>

definition checkIdleRoutes :: "time \<Rightarrow> check_step list \<Rightarrow> idle_tracker \<Rightarrow> idle_tracker" where
  "checkIdleRoutes now steps t = fold (exec_check_step now) steps t"

section \<open>Life cycle\<close>

definition IdleTracker_Start :: "idle_tracker \<Rightarrow> idle_error option \<times> idle_tracker" where
  "IdleTracker_Start t =
     (if it_running t then (Some ErrIdleTrackerAlreadyRunning, t)
      else (None, t\<lparr>it_cycle := Suc (it_cycle t), it_running := True,
                    it_checkers := Suc (it_cycle t) # it_checkers t\<rparr>))"

text \<open>\<open>Stop\<close> cancels the context of the latest cycle and waits for the checker of that cycle.\<close>

definition IdleTracker_Stop :: "idle_tracker \<Rightarrow> idle_error option \<times> idle_tracker" where
  "IdleTracker_Stop t =
     (if \<not> it_running t then (Some ErrIdleTrackerNotRunning, t)
      else (None, t\<lparr>it_running := False, it_checkers := removeAll (it_cycle t) (it_checkers t)\<rparr>))"

text \<open>One iteration of \<open>runChecker\<close> of goroutine \<open>c\<close>: the context is done, or the ticker fired.\<close>

datatype checker_event = CtxDone | TickerFired time "check_step list"

definition runChecker_iter :: "nat \<Rightarrow> checker_event \<Rightarrow> idle_tracker \<Rightarrow> idle_tracker" where
  "runChecker_iter c ev t =
     (if c \<notin> set (it_checkers t) then t
      else (case ev of
              CtxDone \<Rightarrow> t\<lparr>it_checkers := removeAll c (it_checkers t)\<rparr>
            | TickerFired now steps \<Rightarrow> checkIdleRoutes now steps t))"

interpretation idle_cycle: lifecycle it_running IdleTracker_Start IdleTracker_Stop
  by unfold_locales (auto simp: IdleTracker_Start_def IdleTracker_Stop_def)

section \<open>One visit\<close>

definition due :: "time \<Rightarrow> string \<Rightarrow> idle_tracker \<Rightarrow> bool" where
  "due now r t \<longleftrightarrow>
     (case it_routes t r of
        None \<Rightarrow> False
      | Some e \<Rightarrow> 0 < re_idleTimeout e \<and> re_idleTimeout e \<le> computeIdleTime (re_lastSeen e) now)"

definition has_room :: "idle_tracker \<Rightarrow> bool" where
  "has_room t \<longleftrightarrow> length (ch_buf (it_sleepCh t)) < ch_cap (it_sleepCh t)"

text \<open>All triggers ever sent, oldest first: the received ones, then the buffered ones.\<close>

definition emitted :: "idle_tracker \<Rightarrow> string list" where
  "emitted t = it_delivered t @ ch_buf (it_sleepCh t)"

lemma visit_route_skip: "\<not> (due now r t \<and> has_room t) \<Longrightarrow> visit_route now r t = t"
  by (auto simp: visit_route_def due_def has_room_def try_send_def Let_def split: option.splits)

lemma visit_route_fire:
  assumes "due now r t" and "has_room t"
  obtains e where "it_routes t r = Some e"
    and "0 < re_idleTimeout e" and "re_idleTimeout e \<le> computeIdleTime (re_lastSeen e) now"
    and "visit_route now r t =
      t\<lparr>it_sleepCh := (it_sleepCh t)\<lparr>ch_buf := ch_buf (it_sleepCh t) @ [r]\<rparr>,
        it_routes := (it_routes t)(r \<mapsto> e\<lparr>re_lastSeen := now\<rparr>),
        it_metrics := RecordSleepTriggered r (it_metrics t),
        it_log := it_log t @ [Fired r now (re_idleTimeout e)]\<rparr>"
  using assms
  by (auto simp: visit_route_def due_def has_room_def try_send_def Let_def split: option.splits)

lemma visit_route_emitted:
  "emitted (visit_route now r t) = (if due now r t \<and> has_room t then emitted t @ [r] else emitted t)"
  by (auto simp: visit_route_skip emitted_def elim!: visit_route_fire)

lemma visit_route_routes:
  "it_routes (visit_route now r t) =
     (if due now r t \<and> has_room t
      then (it_routes t)(r \<mapsto> (the (it_routes t r))\<lparr>re_lastSeen := now\<rparr>) else it_routes t)"
  by (auto simp: visit_route_skip elim!: visit_route_fire)

lemma visit_route_cap [simp]: "ch_cap (it_sleepCh (visit_route now r t)) = ch_cap (it_sleepCh t)"
  by (cases "due now r t \<and> has_room t") (auto simp: visit_route_skip elim!: visit_route_fire)

lemma take_trigger_emitted [simp]: "emitted (take_trigger t) = emitted t"
  by (auto simp: take_trigger_def emitted_def try_recv_def split: option.splits list.splits)

lemma take_trigger_frame [simp]:
  "it_routes (take_trigger t) = it_routes t" "it_metrics (take_trigger t) = it_metrics t"
  "it_log (take_trigger t) = it_log t" "ch_cap (it_sleepCh (take_trigger t)) = ch_cap (it_sleepCh t)"
  by (auto simp: take_trigger_def try_recv_def split: option.splits list.splits)

lemma due_cong: "it_routes t = it_routes u \<Longrightarrow> due now r t = due now r u"
  by (simp add: due_def)

lemma visited_simps [simp]:
  "visited [] = []" "visited (Visit r # ss) = r # visited ss" "visited (Take # ss) = visited ss"
  by (simp_all add: visited_def List.map_filter_simps)

lemma checkIdleRoutes_simps [simp]:
  "checkIdleRoutes now [] t = t"
  "checkIdleRoutes now (Visit r # ss) t = checkIdleRoutes now ss (visit_route now r t)"
  "checkIdleRoutes now (Take # ss) t = checkIdleRoutes now ss (take_trigger t)"
  by (simp_all add: checkIdleRoutes_def)

section \<open>One check\<close>

definition touch :: "time \<Rightarrow> string list \<Rightarrow> (string \<rightharpoonup> route_entry) \<Rightarrow> (string \<rightharpoonup> route_entry)" where
  "touch now rs m = (\<lambda>r. if r \<in> set rs then map_option (\<lambda>e. e\<lparr>re_lastSeen := now\<rparr>) (m r) else m r)"

lemma touch_Cons:
  "m r = Some e \<Longrightarrow> r \<notin> set rs \<Longrightarrow> touch now rs (m(r \<mapsto> e\<lparr>re_lastSeen := now\<rparr>)) = touch now (r # rs) m"
  by (auto simp: touch_def fun_eq_iff)

lemma due_someD: "due now r t \<Longrightarrow> \<exists>e. it_routes t r = Some e"
  by (auto simp: due_def split: option.splits)

text \<open>
  What one check does, whatever the order of the visits and the speed of the consumer: it emits
  some of the due routes, each once, resets exactly those, and leaves every other entry alone.
\<close>

lemma checkIdleRoutes_effect:
  assumes "distinct (visited steps)"
  shows "\<exists>sent. emitted (checkIdleRoutes now steps t) = emitted t @ sent \<and> distinct sent
    \<and> set sent \<subseteq> {r \<in> set (visited steps). due now r t}
    \<and> it_routes (checkIdleRoutes now steps t) = touch now sent (it_routes t)"
  using assms
proof (induction steps arbitrary: t)
  case Nil
  then show ?case by (auto simp: touch_def)
next
  case (Cons s ss)
  show ?case
  proof (cases s)
    case Take
    with Cons.prems Cons.IH [of "take_trigger t"] show ?thesis
      by (simp add: due_cong [of "take_trigger t" t])
  next
    case (Visit r)
    let ?u = "visit_route now r t"
    from Cons.prems Visit have r: "r \<notin> set (visited ss)" and "distinct (visited ss)" by auto
    from Cons.IH [OF this(2), of ?u] obtain sent where
      IH: "emitted (checkIdleRoutes now ss ?u) = emitted ?u @ sent" "distinct sent"
        "set sent \<subseteq> {q \<in> set (visited ss). due now q ?u}"
        "it_routes (checkIdleRoutes now ss ?u) = touch now sent (it_routes ?u)" by blast
    from IH(3) r have notin: "r \<notin> set sent" by auto
    with IH(3) have sub: "set sent \<subseteq> {q \<in> set (visited ss). due now q t}"
      by (auto simp: due_def visit_route_routes split: if_splits)
    show ?thesis
    proof (cases "due now r t \<and> has_room t")
      case True
      then obtain e where e: "it_routes t r = Some e" using due_someD by blast
      with True IH(4) notin have "it_routes (checkIdleRoutes now ss ?u) = touch now (r # sent) (it_routes t)"
        by (simp add: visit_route_routes touch_Cons)
      with True IH(1,2) sub notin Visit show ?thesis
        by (intro exI [of _ "r # sent"]) (auto simp: visit_route_emitted)
    next
      case False
      with IH sub Visit show ?thesis
        by (intro exI [of _ sent]) (auto simp: visit_route_skip)
    qed
  qed
qed

text \<open>With room for every visited route, exactly the due ones are emitted, in visit order.\<close>

lemma checkIdleRoutes_all:
  assumes "distinct (visited steps)"
    and "length (ch_buf (it_sleepCh t)) + length (visited steps) \<le> ch_cap (it_sleepCh t)"
  shows "emitted (checkIdleRoutes now steps t) =
    emitted t @ filter (\<lambda>r. due now r t) (visited steps)"
  using assms
proof (induction steps arbitrary: t)
  case Nil
  then show ?case by simp
next
  case (Cons s ss)
  show ?case
  proof (cases s)
    case Take
    have "length (ch_buf (it_sleepCh (take_trigger t))) \<le> length (ch_buf (it_sleepCh t))"
      by (auto simp: take_trigger_def try_recv_def split: option.splits list.splits)
    with Take Cons.prems Cons.IH [of "take_trigger t"] show ?thesis
      by (simp add: due_cong [of "take_trigger t" t])
  next
    case (Visit r)
    let ?u = "visit_route now r t"
    have room: "has_room t" using Cons.prems Visit by (simp add: has_room_def)
    have "length (ch_buf (it_sleepCh ?u)) \<le> Suc (length (ch_buf (it_sleepCh t)))"
      by (cases "due now r t") (auto simp: visit_route_skip room elim!: visit_route_fire [OF _ room])
    with Cons.prems Visit have
      IH: "emitted (checkIdleRoutes now ss ?u) = emitted ?u @ filter (\<lambda>q. due now q ?u) (visited ss)"
      by (intro Cons.IH) auto
    have "filter (\<lambda>q. due now q ?u) (visited ss) = filter (\<lambda>q. due now q t) (visited ss)"
      using Cons.prems Visit by (intro filter_cong) (auto simp: due_def visit_route_routes)
    with IH room Visit show ?thesis by (simp add: visit_route_emitted)
  qed
qed

section \<open>Runs of the tracker\<close>

datatype idle_event =
    EvSetMetrics registry
  | EvRegister string duration
  | EvActivity string
  | EvChecker nat "check_step list"
  | EvCheckerExit nat
  | EvTake
  | EvStart
  | EvStop

fun idle_exec :: "time \<Rightarrow> idle_event \<Rightarrow> idle_tracker \<Rightarrow> idle_tracker" where
  "idle_exec now (EvSetMetrics reg) t = IdleTracker_SetMetrics reg t"
| "idle_exec now (EvRegister r d) t = RegisterRoute r d t"
| "idle_exec now (EvActivity r) t = RecordActivity now r t"
| "idle_exec now (EvChecker c steps) t = runChecker_iter c (TickerFired now steps) t"
| "idle_exec now (EvCheckerExit c) t = runChecker_iter c CtxDone t"
| "idle_exec now EvTake t = take_trigger t"
| "idle_exec now EvStart t = snd (IdleTracker_Start t)"
| "idle_exec now EvStop t = snd (IdleTracker_Stop t)"

definition idle_run :: "(time \<times> idle_event) list \<Rightarrow> idle_tracker \<Rightarrow> idle_tracker" where
  "idle_run evs t = fold (\<lambda>(now, ev). idle_exec now ev) evs t"

text \<open>
  The clock does not run backwards between operations, it is past the zero time, and timeouts
  are int64 durations.
\<close>

fun timeout_ok :: "idle_event \<Rightarrow> bool" where
  "timeout_ok (EvRegister r d) = (d \<le> max_int64)"
| "timeout_ok _ = True"

fun well_timed :: "time \<Rightarrow> (time \<times> idle_event) list \<Rightarrow> bool" where
  "well_timed now [] = True"
| "well_timed now ((s, ev) # evs) = (0 < s \<and> now \<le> s \<and> timeout_ok ev \<and> well_timed s evs)"

fun log_route :: "idle_log \<Rightarrow> string" where
  "log_route (Seen r s) = r"
| "log_route (Fired r s d) = r"

fun log_time :: "idle_log \<Rightarrow> time" where
  "log_time (Seen r s) = s"
| "log_time (Fired r s d) = s"

definition fired_routes :: "idle_log list \<Rightarrow> string list" where
  "fired_routes l = List.map_filter (\<lambda>x. case x of Fired r s d \<Rightarrow> Some r | Seen r s \<Rightarrow> None) l"

text \<open>A trigger comes at least its idle timeout after any earlier entry of the same route.\<close>

fun spaced :: "idle_log \<Rightarrow> idle_log \<Rightarrow> bool" where
  "spaced x (Seen r s) = True"
| "spaced x (Fired r s d) = (log_route x = r \<longrightarrow> log_time x + d \<le> s)"

definition idle_inv :: "time \<Rightarrow> idle_tracker \<Rightarrow> bool" where
  "idle_inv now t \<longleftrightarrow>
     ch_cap (it_sleepCh t) = sleepTriggerBufSize
   \<and> length (ch_buf (it_sleepCh t)) \<le> sleepTriggerBufSize
   \<and> emitted t = fired_routes (it_log t)
   \<and> (\<forall>x \<in> set (it_log t). 0 < log_time x \<and>
        (\<exists>e. it_routes t (log_route x) = Some e \<and> log_time x \<le> re_lastSeen e))
   \<and> (\<forall>r e. it_routes t r = Some e \<longrightarrow> re_lastSeen e \<le> now \<and> re_idleTimeout e \<le> max_int64)
   \<and> sorted_wrt spaced (it_log t)"

lemma fired_routes_snoc [simp]:
  "fired_routes (l @ [Seen r s]) = fired_routes l"
  "fired_routes (l @ [Fired r s d]) = fired_routes l @ [r]"
  by (simp_all add: fired_routes_def List.map_filter_def)

lemma idle_inv_later: "idle_inv s t \<Longrightarrow> s \<le> now \<Longrightarrow> idle_inv now t"
  unfolding idle_inv_def by (meson order_trans)

section \<open>Every operation keeps the invariant\<close>

lemma idle_invD:
  assumes "idle_inv now t"
  shows "ch_cap (it_sleepCh t) = sleepTriggerBufSize"
    and "length (ch_buf (it_sleepCh t)) \<le> sleepTriggerBufSize"
    and "emitted t = fired_routes (it_log t)"
    and "x \<in> set (it_log t) \<Longrightarrow> 0 < log_time x \<and>
        (\<exists>e. it_routes t (log_route x) = Some e \<and> log_time x \<le> re_lastSeen e)"
    and "it_routes t r = Some e \<Longrightarrow> re_lastSeen e \<le> now \<and> re_idleTimeout e \<le> max_int64"
    and "sorted_wrt spaced (it_log t)"
  using assms by (auto simp: idle_inv_def)

lemma due_spaced:
  assumes inv: "idle_inv now t" and e: "it_routes t r = Some e"
    and d: "0 < re_idleTimeout e" "re_idleTimeout e \<le> computeIdleTime (re_lastSeen e) now"
    and x: "x \<in> set (it_log t)"
  shows "spaced x (Fired r now (re_idleTimeout e))"
proof (cases "log_route x = r")
  case True
  with idle_invD(4) [OF inv x] e have "0 < log_time x" "log_time x \<le> re_lastSeen e" by auto
  moreover from this d have "re_idleTimeout e \<le> time_sub now (re_lastSeen e)"
    by (simp add: computeIdleTime_def time_is_zero_def)
  with d(1) idle_invD(5) [OF inv e] have "re_lastSeen e + re_idleTimeout e \<le> now"
    by (subst (asm) time_sub_ge_iff) (auto simp: min_int64_def)
  ultimately show ?thesis by simp
qed simp

lemma visit_route_inv:
  assumes inv: "idle_inv now t" and now: "0 < now"
  shows "idle_inv now (visit_route now r t)"
proof (cases "due now r t \<and> has_room t")
  case False
  with inv show ?thesis by (simp add: visit_route_skip)
next
  case True
  then have "due now r t" "has_room t" by auto
  then obtain e where e: "it_routes t r = Some e"
    and d: "0 < re_idleTimeout e" "re_idleTimeout e \<le> computeIdleTime (re_lastSeen e) now"
    and eq: "visit_route now r t =
      t\<lparr>it_sleepCh := (it_sleepCh t)\<lparr>ch_buf := ch_buf (it_sleepCh t) @ [r]\<rparr>,
        it_routes := (it_routes t)(r \<mapsto> e\<lparr>re_lastSeen := now\<rparr>),
        it_metrics := RecordSleepTriggered r (it_metrics t),
        it_log := it_log t @ [Fired r now (re_idleTimeout e)]\<rparr>"
    by (rule visit_route_fire)
  have log: "0 < log_time x \<and> (\<exists>e'. ((it_routes t)(r \<mapsto> e\<lparr>re_lastSeen := now\<rparr>)) (log_route x) = Some e'
      \<and> log_time x \<le> re_lastSeen e')" if "x \<in> set (it_log t)" for x
    using idle_invD(4) [OF inv that] idle_invD(5) [OF inv e] e by fastforce
  from True have room: "length (ch_buf (it_sleepCh t)) < sleepTriggerBufSize"
    using idle_invD(1) [OF inv] by (simp add: has_room_def)
  show ?thesis
    unfolding idle_inv_def eq
    using room idle_invD(1,3,6) [OF inv] idle_invD(5) [OF inv] log now due_spaced [OF inv e d] e
    by (auto simp: emitted_def sorted_wrt_append)
qed

lemma take_trigger_inv: "idle_inv now t \<Longrightarrow> idle_inv now (take_trigger t)"
proof -
  assume inv: "idle_inv now t"
  have "length (ch_buf (it_sleepCh (take_trigger t))) \<le> length (ch_buf (it_sleepCh t))"
    by (auto simp: take_trigger_def try_recv_def split: option.splits list.splits)
  with inv show ?thesis by (simp add: idle_inv_def)
qed

lemma checkIdleRoutes_inv:
  "idle_inv now t \<Longrightarrow> 0 < now \<Longrightarrow> idle_inv now (checkIdleRoutes now steps t)"
proof (induction steps arbitrary: t)
  case Nil
  then show ?case by simp
next
  case (Cons s ss)
  then show ?case by (cases s) (simp_all add: visit_route_inv take_trigger_inv)
qed

lemma RecordActivity_inv:
  assumes inv: "idle_inv now t" and now: "0 < now"
  shows "idle_inv now (RecordActivity now r t)"
proof -
  define e where "e = (case it_routes t r of Some e \<Rightarrow> e | None \<Rightarrow> \<lparr>re_idleTimeout = 0, re_lastSeen = 0\<rparr>)"
  have t: "re_idleTimeout e \<le> max_int64"
    using idle_invD(5) [OF inv] by (auto simp: e_def max_int64_def split: option.splits)
  have log: "0 < log_time x \<and> (\<exists>e'. ((it_routes t)(r \<mapsto> e\<lparr>re_lastSeen := now\<rparr>)) (log_route x) = Some e'
      \<and> log_time x \<le> re_lastSeen e')" if "x \<in> set (it_log t)" for x
    using idle_invD(4) [OF inv that] idle_invD(5) [OF inv] by fastforce
  have eq: "RecordActivity now r t =
      t\<lparr>it_routes := (it_routes t)(r \<mapsto> e\<lparr>re_lastSeen := now\<rparr>), it_log := it_log t @ [Seen r now]\<rparr>"
    by (simp add: RecordActivity_def e_def Let_def)
  show ?thesis
    unfolding idle_inv_def eq
    using inv idle_invD(1-3,6) [OF inv] idle_invD(5) [OF inv] log now t
    by (auto simp: emitted_def sorted_wrt_append)
qed

lemma RegisterRoute_inv:
  assumes inv: "idle_inv now t" and d: "d \<le> max_int64" and now: "0 < now"
  shows "idle_inv now (RegisterRoute r d t)"
proof -
  have routes: "it_routes (RegisterRoute r d t) q =
      (if q = r then Some (case it_routes t r of Some e \<Rightarrow> e\<lparr>re_idleTimeout := d\<rparr>
         | None \<Rightarrow> \<lparr>re_idleTimeout = d, re_lastSeen = 0\<rparr>) else it_routes t q)" for q
    by (auto simp: RegisterRoute_def split: option.splits)
  have frame: "it_sleepCh (RegisterRoute r d t) = it_sleepCh t" "it_log (RegisterRoute r d t) = it_log t"
    "emitted (RegisterRoute r d t) = emitted t"
    by (auto simp: RegisterRoute_def emitted_def split: option.splits)
  have log: "0 < log_time x \<and> (\<exists>e'. it_routes (RegisterRoute r d t) (log_route x) = Some e'
      \<and> log_time x \<le> re_lastSeen e')" if "x \<in> set (it_log t)" for x
    using idle_invD(4) [OF inv that] by (auto simp: routes)
  have bounds: "re_lastSeen e \<le> now \<and> re_idleTimeout e \<le> max_int64"
    if "it_routes (RegisterRoute r d t) q = Some e" for q e
    using that idle_invD(5) [OF inv] d now by (auto simp: routes split: if_splits option.splits)
  show ?thesis
    unfolding idle_inv_def frame using idle_invD(1-3,6) [OF inv] log bounds by auto
qed

lemma idle_inv_frame:
  "idle_inv now (t\<lparr>it_metrics := m\<rparr>) = idle_inv now t"
  "idle_inv now (t\<lparr>it_checkers := cs\<rparr>) = idle_inv now t"
  "idle_inv now (t\<lparr>it_running := b\<rparr>) = idle_inv now t"
  "idle_inv now (t\<lparr>it_cycle := n\<rparr>) = idle_inv now t"
  by (simp_all add: idle_inv_def emitted_def)

lemma idle_exec_inv:
  "idle_inv now t \<Longrightarrow> 0 < now \<Longrightarrow> timeout_ok ev \<Longrightarrow> idle_inv now (idle_exec now ev t)"
  by (cases ev)
    (simp_all add: IdleTracker_SetMetrics_def RegisterRoute_inv RecordActivity_inv
      runChecker_iter_def checkIdleRoutes_inv take_trigger_inv IdleTracker_Start_def
      IdleTracker_Stop_def idle_inv_frame)

lemma idle_run_Cons [simp]: "idle_run ((now, ev) # evs) t = idle_run evs (idle_exec now ev t)"
  by (simp add: idle_run_def)

lemma idle_run_Nil [simp]: "idle_run [] t = t"
  by (simp add: idle_run_def)

lemma idle_run_inv: "idle_inv now t \<Longrightarrow> well_timed now evs \<Longrightarrow> \<exists>later. idle_inv later (idle_run evs t)"
proof (induction evs arbitrary: now t)
  case Nil
  then show ?case by auto
next
  case (Cons ev evs)
  obtain s e where ev: "ev = (s, e)" by (cases ev)
  with Cons.prems have "idle_inv s (idle_exec s e t)" "well_timed s evs"
    using idle_exec_inv [OF idle_inv_later, of now t s e] by auto
  from Cons.IH [OF this] ev show ?case by simp
qed

lemma NewIdleTracker_inv: "NewIdleTracker i True = Inr t \<Longrightarrow> idle_inv now t"
  by (auto simp: NewIdleTracker_def idle_inv_def emitted_def fired_routes_def List.map_filter_simps
      split: if_splits)

lemma NewIdleTracker_run_inv:
  "NewIdleTracker i lg = Inr t \<Longrightarrow> well_timed 0 evs \<Longrightarrow> \<exists>later. idle_inv later (idle_run evs t)"
  using idle_run_inv [OF NewIdleTracker_inv] by (cases lg) (auto simp: NewIdleTracker_def)

section \<open>Properties\<close>

text \<open>C36. Cooldown: in any run of a new tracker whose operations read a clock that does not run
  backwards, a sleep trigger for a route is emitted no earlier than the route's idle timeout
  after every earlier activity of the route and after every earlier trigger of the route.\<close>

theorem idle_trigger_cooldown:
  assumes "NewIdleTracker i lg = Inr t" and "well_timed 0 evs"
    and "a < b" and "b < length (it_log (idle_run evs t))"
    and "it_log (idle_run evs t) ! b = Fired r s d"
    and "log_route (it_log (idle_run evs t) ! a) = r"
  shows "log_time (it_log (idle_run evs t) ! a) + d \<le> s"
proof -
  obtain later where "idle_inv later (idle_run evs t)"
    using NewIdleTracker_run_inv [OF assms(1,2)] by blast
  then have "spaced (it_log (idle_run evs t) ! a) (it_log (idle_run evs t) ! b)"
    using assms(3,4) by (simp add: idle_inv_def sorted_wrt_iff_nth_less)
  with assms(5,6) show ?thesis by simp
qed

definition cooldown_example :: idle_tracker where
  "cooldown_example =
     \<lparr>it_checkInterval = 60, it_metrics = None, it_routes = Map.empty,
      it_sleepCh = make_chan sleepTriggerBufSize, it_running = False, it_cycle = 0,
      it_checkers = [], it_delivered = [], it_log = []\<rparr>"

theorem idle_trigger_cooldown_witness:
  "it_log (idle_run [(1, EvRegister ''r'' 300), (1, EvStart), (10, EvActivity ''r''),
       (60, EvChecker 1 [Visit ''r'']), (310, EvChecker 1 [Visit ''r''])] cooldown_example)
     = [Seen ''r'' 10, Fired ''r'' 310 300]
   \<and> log_time (Seen ''r'' 10) + 300 \<le> 310"
proof -
  let ?evs = "[(1, EvRegister ''r'' 300), (1, EvStart), (10, EvActivity ''r''),
       (60, EvChecker 1 [Visit ''r'']), (310, EvChecker 1 [Visit ''r''])]"
  have new: "NewIdleTracker 60 True = Inr cooldown_example"
    by (simp add: NewIdleTracker_def cooldown_example_def)
  have log: "it_log (idle_run ?evs cooldown_example) = [Seen ''r'' 10, Fired ''r'' 310 300]"
    by (simp add: cooldown_example_def RegisterRoute_def IdleTracker_Start_def RecordActivity_def
        runChecker_iter_def visit_route_def computeIdleTime_def go_time try_send_def
        sleepTriggerBufSize_def make_chan_def Let_def)
  have "log_time ([Seen ''r'' 10, Fired ''r'' 310 300] ! 0) + 300 \<le> 310"
    using idle_trigger_cooldown [OF new, of ?evs 0 1 "''r''" 310 300]
    unfolding log by (simp add: max_int64_def)
  with log show ?thesis by simp
qed

text \<open>The trigger channel never holds more than 64 entries, and no trigger is lost, duplicated
  or reordered on the way to the consumer: what was received followed by what is buffered is
  exactly the sequence of triggers fired.\<close>

theorem idle_triggers_delivered_in_order:
  assumes "NewIdleTracker i lg = Inr t" and "well_timed 0 evs"
  shows "it_delivered (idle_run evs t) @ ch_buf (it_sleepCh (idle_run evs t))
      = fired_routes (it_log (idle_run evs t))
    \<and> length (ch_buf (it_sleepCh (idle_run evs t))) \<le> 64"
proof -
  obtain later where "idle_inv later (idle_run evs t)"
    using NewIdleTracker_run_inv [OF assms] by blast
  then show ?thesis by (auto simp: idle_inv_def emitted_def sleepTriggerBufSize_def)
qed

theorem idle_triggers_delivered_in_order_witness:
  "length (ch_buf (it_sleepCh (idle_run [(5, EvRegister ''r'' 300), (5, EvStart),
       (60, EvChecker 1 [Visit ''r'', Take])] cooldown_example))) \<le> 64"
proof -
  have "NewIdleTracker 60 True = Inr cooldown_example"
    by (simp add: NewIdleTracker_def cooldown_example_def)
  from idle_triggers_delivered_in_order [OF this, of "[(5, EvRegister ''r'' 300), (5, EvStart),
       (60, EvChecker 1 [Visit ''r'', Take])]"] show ?thesis
    by (simp add: max_int64_def)
qed

text \<open>C39. One check visits every route once, in any order and with the consumer receiving at any
  moment: it emits only routes whose positive idle timeout has elapsed, each at most once, resets
  the last-seen time of exactly the emitted routes (a trigger dropped on a full channel changes
  nothing, so it is retried), and emits all due routes when the channel has room for them.\<close>

theorem checkIdleRoutes_correct:
  assumes "range_order (visited steps) (it_routes t)"
  shows "\<exists>sent. emitted (checkIdleRoutes now steps t) = emitted t @ sent \<and> distinct sent
    \<and> (\<forall>r \<in> set sent. due now r t)
    \<and> it_routes (checkIdleRoutes now steps t) = touch now sent (it_routes t)
    \<and> (length (ch_buf (it_sleepCh t)) + card (dom (it_routes t)) \<le> ch_cap (it_sleepCh t)
        \<longrightarrow> (\<forall>r. due now r t \<longrightarrow> r \<in> set sent))"
proof -
  have dist: "distinct (visited steps)" and dom: "set (visited steps) = dom (it_routes t)"
    using assms by (auto simp: range_order_def)
  then have len: "length (visited steps) = card (dom (it_routes t))"
    by (metis distinct_card)
  obtain sent where sent: "emitted (checkIdleRoutes now steps t) = emitted t @ sent" "distinct sent"
      "set sent \<subseteq> {r \<in> set (visited steps). due now r t}"
      "it_routes (checkIdleRoutes now steps t) = touch now sent (it_routes t)"
    using checkIdleRoutes_effect [OF dist] by blast
  have "sent = filter (\<lambda>r. due now r t) (visited steps)"
    if "length (ch_buf (it_sleepCh t)) + card (dom (it_routes t)) \<le> ch_cap (it_sleepCh t)"
    using checkIdleRoutes_all [OF dist, of t now] that len sent(1) by simp
  moreover have "r \<in> set (visited steps)" if "due now r t" for r
    using due_someD [OF that] dom by auto
  ultimately show ?thesis using sent by (intro exI [of _ sent]) auto
qed

theorem checkIdleRoutes_correct_witness:
  "''r'' \<in> set (emitted (checkIdleRoutes 310 [Visit ''r'', Take]
       (cooldown_example\<lparr>it_routes := [''r'' \<mapsto> \<lparr>re_idleTimeout = 300, re_lastSeen = 10\<rparr>]\<rparr>)))"
proof -
  let ?t = "cooldown_example\<lparr>it_routes := [''r'' \<mapsto> \<lparr>re_idleTimeout = 300, re_lastSeen = 10\<rparr>]\<rparr>"
  have "due 310 ''r'' ?t"
    by (simp add: due_def computeIdleTime_def go_time)
  then show ?thesis
    using checkIdleRoutes_correct [of "[Visit ''r'', Take]" ?t 310]
    by (auto simp: range_order_def cooldown_example_def sleepTriggerBufSize_def)
qed

end
