(* ===== verification/GoNet.thy ===== *)
theory GoNet
  imports Prelude
begin

text \<open>
  The parts of Go's standard library the code's URL and address checks use: \<open>net/url\<close>'s
  \<open>Parse\<close> (errors, scheme, host) and \<open>Hostname\<close>, and \<open>net.ParseIP\<close>, \<open>IsLoopback\<close>,
  \<open>IsUnspecified\<close> over \<open>net/netip\<close>. Strings are byte strings, as in Go.
\<close>

section \<open>Bytes and strings\<close>

abbreviation byte :: "char \<Rightarrow> nat" where "byte c \<equiv> of_char c"

definition is_digit :: "char \<Rightarrow> bool" where
  "is_digit c \<longleftrightarrow> 48 \<le> byte c \<and> byte c \<le> 57"

definition is_lower :: "char \<Rightarrow> bool" where
  "is_lower c \<longleftrightarrow> 97 \<le> byte c \<and> byte c \<le> 122"

definition is_upper :: "char \<Rightarrow> bool" where
  "is_upper c \<longleftrightarrow> 65 \<le> byte c \<and> byte c \<le> 90"

definition is_alpha :: "char \<Rightarrow> bool" where
  "is_alpha c \<longleftrightarrow> is_lower c \<or> is_upper c"

definition hex_value :: "char \<Rightarrow> nat option" where
  "hex_value c =
     (if is_digit c then Some (byte c - 48)
      else if 97 \<le> byte c \<and> byte c \<le> 102 then Some (byte c - 87)
      else if 65 \<le> byte c \<and> byte c \<le> 70 then Some (byte c - 55)
      else None)"

definition to_lower :: "char \<Rightarrow> char" where
  "to_lower c = (if is_upper c then char_of (byte c + 32) else c)"

lemmas char_class_defs = is_digit_def is_lower_def is_upper_def is_alpha_def hex_value_def

text \<open>\<open>strings.Cut\<close>: the text before and after the first separator, and whether it was found.\<close>

fun cut :: "char \<Rightarrow> string \<Rightarrow> string \<times> string \<times> bool" where
  "cut sep [] = ([], [], False)"
| "cut sep (c # cs) =
     (if c = sep then ([], cs, True)
      else (let (a, b, found) = cut sep cs in (c # a, b, found)))"

text \<open>Split at the last separator: None when there is none.\<close>

definition cut_last :: "char \<Rightarrow> string \<Rightarrow> (string \<times> string) option" where
  "cut_last sep s =
     (case cut sep (rev s) of (a, b, found) \<Rightarrow> if found then Some (rev b, rev a) else None)"

lemma cut_found_iff: "snd (snd (cut sep s)) \<longleftrightarrow> sep \<in> set s"
  by (induction s) (auto simp: split_beta Let_def)

lemma cut_append: "sep \<notin> set a \<Longrightarrow> cut sep (a @ sep # b) = (a, b, True)"
  by (induction a) auto

lemma cut_none: "sep \<notin> set a \<Longrightarrow> cut sep a = (a, [], False)"
  by (induction a) auto

section \<open>Percent-escapes\<close>

datatype url_error =
    InvalidControlCharacter
  | MissingProtocolScheme
  | FirstSegmentColon
  | InvalidUserinfo
  | InvalidEscape
  | InvalidHostCharacter
  | InvalidIPLiteral
  | MissingBracket
  | InvalidPort

datatype escape_mode = EncodePath | EncodeHost | EncodeZone | EncodeUserPassword | EncodeFragment

text \<open>Characters a host may contain unescaped (\<open>shouldEscape\<close> in host and zone mode).\<close>

definition host_char_ok :: "char \<Rightarrow> bool" where
  "host_char_ok c \<longleftrightarrow>
     is_alpha c \<or> is_digit c \<or> c \<in> set ''-_.~!$&'' \<or> byte c = 39 \<or> c \<in> set ''()*+,;=:[]<>'' \<or> byte c = 34"

fun unescape :: "escape_mode \<Rightarrow> string \<Rightarrow> url_error + string" where
  "unescape m [] = Inr []"
| "unescape m (c # cs) =
     (if c = CHR ''%'' then
        (case cs of
           a # b # rest \<Rightarrow>
             (case (hex_value a, hex_value b) of
                (Some x, Some y) \<Rightarrow>
                  if m = EncodeHost \<and> x < 8 \<and> \<not> (x = 2 \<and> y = 5) then Inl InvalidEscape
                  else if m = EncodeZone \<and> \<not> (x = 2 \<and> y = 5) \<and> 16 * x + y \<noteq> 32
                    \<and> \<not> host_char_ok (char_of (16 * x + y)) then Inl InvalidEscape
                  else map_sum id (\<lambda>s. char_of (16 * x + y) # s) (unescape m rest)
              | _ \<Rightarrow> Inl InvalidEscape)
         | _ \<Rightarrow> Inl InvalidEscape)
      else if (m = EncodeHost \<or> m = EncodeZone) \<and> byte c < 128 \<and> \<not> host_char_ok c
        then Inl InvalidHostCharacter
      else map_sum id (\<lambda>s. c # s) (unescape m cs))"

section \<open>IP addresses\<close>

text \<open>Decimal fields of an IPv4 address: no empty field, no leading zero, at most 255.\<close>

fun split_on :: "char \<Rightarrow> string \<Rightarrow> string list" where
  "split_on sep [] = [[]]"
| "split_on sep (c # cs) =
     (if c = sep then [] # split_on sep cs
      else (case split_on sep cs of [] \<Rightarrow> [[c]] | f # fs \<Rightarrow> (c # f) # fs))"

definition ipv4_field :: "string \<Rightarrow> nat option" where
  "ipv4_field f =
     (if f = [] \<or> \<not> list_all is_digit f \<or> (1 < length f \<and> hd f = CHR ''0'') then None
      else (let v = digits_val f in if v \<le> 255 then Some v else None))"

definition parse_ipv4 :: "string \<Rightarrow> nat list option" where
  "parse_ipv4 s =
     (let fs = split_on (CHR ''.'') s in
      if length fs \<noteq> 4 then None else those (map ipv4_field fs))"

definition hex_digits_prefix :: "string \<Rightarrow> string \<times> string" where
  "hex_digits_prefix s =
     (takeWhile (\<lambda>c. hex_value c \<noteq> None) s, dropWhile (\<lambda>c. hex_value c \<noteq> None) s)"

definition hex_number :: "string \<Rightarrow> nat" where
  "hex_number = foldl (\<lambda>a c. 16 * a + the (hex_value c)) 0"

text \<open>
  The group loop of \<open>netip.parseIPv6\<close>. The first argument counts the 16-bit groups that still
  fit, \<open>ip\<close> holds the bytes parsed so far and \<open>ell\<close> the byte position of the ellipsis. The
  result is the bytes, the ellipsis and the unparsed rest.
\<close>

fun ipv6_groups ::
  "nat \<Rightarrow> nat list \<Rightarrow> nat option \<Rightarrow> string \<Rightarrow> (nat list \<times> nat option \<times> string) option" where
  "ipv6_groups 0 ip ell s = Some (ip, ell, s)"
| "ipv6_groups (Suc k) ip ell s =
     (let (ds, rest) = hex_digits_prefix s in
      if ds = [] \<or> 4 < length ds then None
      else
        (case rest of
           [] \<Rightarrow> Some (ip @ [hex_number ds div 256, hex_number ds mod 256], ell, [])
         | c # cs \<Rightarrow>
             if c = CHR ''.'' then
               (if ell = None \<and> length ip \<noteq> 12 then None
                else if 16 < length ip + 4 then None
                else map_option (\<lambda>b. (ip @ b, ell, [])) (parse_ipv4 s))
             else if c \<noteq> CHR '':'' \<or> cs = [] then None
             else
               (let ip' = ip @ [hex_number ds div 256, hex_number ds mod 256] in
                if hd cs = CHR '':'' then
                  (if ell \<noteq> None then None
                   else if tl cs = [] then Some (ip', Some (length ip'), [])
                   else ipv6_groups k ip' (Some (length ip')) (tl cs))
                else ipv6_groups k ip' ell cs)))"

definition parse_ipv6_bytes :: "string \<Rightarrow> nat list option" where
  "parse_ipv6_bytes s =
     (if s = ''::'' then Some (replicate 16 0)
      else
        (let (ell0, s0) = (if take 2 s = ''::'' then (Some 0, drop 2 s) else (None, s)) in
         (case ipv6_groups 8 [] ell0 s0 of
            None \<Rightarrow> None
          | Some (ip, ell, rest) \<Rightarrow>
              if rest \<noteq> [] then None
              else if length ip < 16 then
                (case ell of
                   None \<Rightarrow> None
                 | Some e \<Rightarrow> Some (take e ip @ replicate (16 - length ip) 0 @ drop e ip))
              else if ell \<noteq> None then None
              else Some ip)))"

datatype ip_addr = IPv4 "nat list" | IPv6 "nat list" string

definition parse_ipv6 :: "string \<Rightarrow> ip_addr option" where
  "parse_ipv6 s =
     (let (a, zone, found) = cut (CHR ''%'') s in
      if found \<and> zone = [] then None
      else map_option (\<lambda>b. IPv6 b zone) (parse_ipv6_bytes a))"

text \<open>\<open>netip.ParseAddr\<close> decides by the first of the characters dot, colon and percent.\<close>

definition ParseAddr :: "string \<Rightarrow> ip_addr option" where
  "ParseAddr s =
     (case List.find (\<lambda>c. c \<in> set ''.:%'') s of
        None \<Rightarrow> None
      | Some c \<Rightarrow>
          if c = CHR ''.'' then map_option IPv4 (parse_ipv4 s)
          else if c = CHR '':'' then parse_ipv6 s
          else None)"

text \<open>\<open>net.ParseIP\<close>: the 16-byte form; an address with a zone is refused.\<close>

definition v4_in_v6 :: "nat list \<Rightarrow> nat list" where
  "v4_in_v6 b = replicate 10 0 @ [255, 255] @ b"

definition ParseIP :: "string \<Rightarrow> nat list option" where
  "ParseIP s =
     (case ParseAddr s of
        None \<Rightarrow> None
      | Some (IPv4 b) \<Rightarrow> Some (v4_in_v6 b)
      | Some (IPv6 b zone) \<Rightarrow> if zone = [] then Some b else None)"

definition To4 :: "nat list \<Rightarrow> nat list option" where
  "To4 ip = (if take 12 ip = replicate 10 0 @ [255, 255] then Some (drop 12 ip) else None)"

definition IsLoopback :: "nat list \<Rightarrow> bool" where
  "IsLoopback ip =
     (case To4 ip of Some b \<Rightarrow> hd b = 127 | None \<Rightarrow> ip = replicate 15 0 @ [1])"

definition IsUnspecified :: "nat list \<Rightarrow> bool" where
  "IsUnspecified ip \<longleftrightarrow> ip = v4_in_v6 [0, 0, 0, 0] \<or> ip = replicate 16 0"

section \<open>URLs\<close>

record go_url =
  url_scheme :: string
  url_host :: string

text \<open>\<open>getScheme\<close>: the scheme and the rest after the colon, or no scheme and the whole string.\<close>

fun getScheme :: "string \<Rightarrow> string \<Rightarrow> string \<Rightarrow> url_error + (string \<times> string)" where
  "getScheme raw acc [] = Inr ([], raw)"
| "getScheme raw acc (c # cs) =
     (if is_alpha c then getScheme raw (acc @ [c]) cs
      else if is_digit c \<or> c \<in> set ''+-.'' then
        (if acc = [] then Inr ([], raw) else getScheme raw (acc @ [c]) cs)
      else if c = CHR '':'' then
        (if acc = [] then Inl MissingProtocolScheme else Inr (acc, cs))
      else Inr ([], raw))"

definition validOptionalPort :: "string \<Rightarrow> bool" where
  "validOptionalPort p \<longleftrightarrow> p = [] \<or> (hd p = CHR '':'' \<and> list_all is_digit (tl p))"

definition userinfo_char_ok :: "char \<Rightarrow> bool" where
  "userinfo_char_ok c \<longleftrightarrow>
     is_alpha c \<or> is_digit c \<or> c \<in> set ''-._:~!$&()*+,;=%@'' \<or> byte c = 39"

definition valid_userinfo :: "string \<Rightarrow> url_error option" where
  "valid_userinfo u =
     (if \<not> list_all userinfo_char_ok u then Some InvalidUserinfo
      else
        (let (name, pw, _) = cut (CHR '':'') u in
         case (unescape EncodeUserPassword name, unescape EncodeUserPassword pw) of
           (Inr _, Inr _) \<Rightarrow> None
         | _ \<Rightarrow> Some InvalidEscape))"

text \<open>The part of an IP literal between the brackets, zone included.\<close>

fun find_zone :: "string \<Rightarrow> string \<Rightarrow> (string \<times> string) option" where
  "find_zone acc [] = None"
| "find_zone acc (c # cs) =
     (if take 3 (c # cs) = ''%25'' then Some (acc, c # cs) else find_zone (acc @ [c]) cs)"

definition ip_literal :: "string \<Rightarrow> url_error + string" where
  "ip_literal h =
     (let u = (case find_zone [] h of
                 None \<Rightarrow> unescape EncodeHost h
               | Some (a, z) \<Rightarrow>
                   (case (unescape EncodeHost a, unescape EncodeZone z) of
                      (Inr a', Inr z') \<Rightarrow> Inr (a' @ z')
                    | (Inl e, _) \<Rightarrow> Inl e
                    | (_, Inl e) \<Rightarrow> Inl e))
      in case u of
           Inl e \<Rightarrow> Inl e
         | Inr n \<Rightarrow> (case ParseAddr n of Some (IPv6 _ _) \<Rightarrow> Inr n | _ \<Rightarrow> Inl InvalidIPLiteral))"

definition parseHost :: "string \<Rightarrow> string \<Rightarrow> url_error + string" where
  "parseHost scheme host =
     (case cut_last (CHR ''['') host of
        Some (pre, post) \<Rightarrow>
          if pre \<noteq> [] then Inl InvalidIPLiteral
          else
            (case cut_last (CHR '']'') post of
               None \<Rightarrow> Inl MissingBracket
             | Some (name, port) \<Rightarrow>
                 if \<not> validOptionalPort port then Inl InvalidPort
                 else map_sum id (\<lambda>n. ''['' @ n @ '']'' @ port) (ip_literal name))
      | None \<Rightarrow>
          (let (a, b, found) = cut (CHR '':'') host;
               port = (if \<not> found then []
                       else if scheme \<in> {''postgres'', ''postgresql''}
                         then CHR '':'' # snd (the (cut_last (CHR '':'') host))
                       else CHR '':'' # b)
           in if \<not> validOptionalPort port then Inl InvalidPort else unescape EncodeHost host))"

definition parseAuthority :: "string \<Rightarrow> string \<Rightarrow> url_error + string" where
  "parseAuthority scheme authority =
     (case cut_last (CHR ''@'') authority of
        None \<Rightarrow> parseHost scheme authority
      | Some (userinfo, host) \<Rightarrow>
          (case parseHost scheme host of
             Inl e \<Rightarrow> Inl e
           | Inr h \<Rightarrow> (case valid_userinfo userinfo of Some e \<Rightarrow> Inl e | None \<Rightarrow> Inr h)))"

definition is_ctl_byte :: "char \<Rightarrow> bool" where
  "is_ctl_byte c \<longleftrightarrow> byte c < 32 \<or> byte c = 127"

definition path_checked :: "string \<Rightarrow> string \<Rightarrow> string \<Rightarrow> url_error + go_url" where
  "path_checked scheme host path =
     (case unescape EncodePath path of
        Inl e \<Rightarrow> Inl e
      | Inr _ \<Rightarrow> Inr \<lparr>url_scheme = scheme, url_host = host\<rparr>)"

definition parse_no_fragment :: "string \<Rightarrow> url_error + go_url" where
  "parse_no_fragment raw =
     (if list_ex is_ctl_byte raw then Inl InvalidControlCharacter
      else if raw = ''*'' then Inr \<lparr>url_scheme = [], url_host = []\<rparr>
      else
        (case getScheme raw [] raw of
           Inl e \<Rightarrow> Inl e
         | Inr (sch, rest0) \<Rightarrow>
             (let scheme = map to_lower sch; rest = fst (cut (CHR ''?'') rest0) in
              if take 1 rest \<noteq> ''/'' \<and> scheme \<noteq> [] then Inr \<lparr>url_scheme = scheme, url_host = []\<rparr>
              else if take 1 rest \<noteq> ''/'' \<and> CHR '':'' \<in> set (fst (cut (CHR ''/'') rest))
                then Inl FirstSegmentColon
              else if (scheme \<noteq> [] \<or> take 3 rest \<noteq> ''///'') \<and> take 2 rest = ''//'' then
                (let (authority, after, slash) = cut (CHR ''/'') (drop 2 rest) in
                 case parseAuthority scheme authority of
                   Inl e \<Rightarrow> Inl e
                 | Inr host \<Rightarrow> path_checked scheme host (if slash then CHR ''/'' # after else []))
              else path_checked scheme [] rest)))"

definition url_Parse :: "string \<Rightarrow> url_error + go_url" where
  "url_Parse raw =
     (let (u, frag, _) = cut (CHR ''#'') raw in
      case parse_no_fragment u of
        Inl e \<Rightarrow> Inl e
      | Inr url \<Rightarrow> (case unescape EncodeFragment frag of Inl e \<Rightarrow> Inl e | Inr _ \<Rightarrow> Inr url))"

definition url_Hostname :: "go_url \<Rightarrow> string" where
  "url_Hostname u =
     (let host = (case cut_last (CHR '':'') (url_host u) of
                    None \<Rightarrow> url_host u
                  | Some (h, p) \<Rightarrow> if validOptionalPort (CHR '':'' # p) then h else url_host u)
      in if take 1 host = ''['' \<and> last host = CHR '']'' then butlast (tl host) else host)"

text \<open>\<open>strings.EqualFold(s, t)\<close> for a lower-case ASCII \<open>t\<close>: besides the two ASCII cases, the
  long s (U+017F) folds to s and the Kelvin sign (U+212A) to k.\<close>

fun equal_fold :: "string \<Rightarrow> string \<Rightarrow> bool" where
  "equal_fold [] [] = True"
| "equal_fold (c # cs) (t # ts) =
     ((to_lower c = t \<and> equal_fold cs ts)
    \<or> (t = CHR ''s'' \<and> byte c = 197 \<and> cs \<noteq> [] \<and> byte (hd cs) = 191 \<and> equal_fold (tl cs) ts)
    \<or> (t = CHR ''k'' \<and> byte c = 226 \<and> map byte (take 2 cs) = [132, 170] \<and> equal_fold (drop 2 cs) ts))"
| "equal_fold _ _ = False"

section \<open>Plain URLs\<close>

text \<open>
  A plain URL is a scheme, a registered name of letters, digits, dots and dashes, an optional
  port, and a path of such characters. Every stage of the parser is transparent on it.
\<close>

definition plain_char :: "char \<Rightarrow> bool" where
  "plain_char c \<longleftrightarrow> is_alpha c \<or> is_digit c \<or> c = CHR ''.'' \<or> c = CHR ''-''"

definition plain_path :: "string \<Rightarrow> bool" where
  "plain_path p \<longleftrightarrow> p = [] \<or> (hd p = CHR ''/'' \<and> list_all (\<lambda>c. plain_char c \<or> c = CHR ''/'') p)"

definition plain_port :: "string \<Rightarrow> bool" where
  "plain_port p \<longleftrightarrow> validOptionalPort p"

lemma plain_char_range: "plain_char c \<Longrightarrow> host_char_ok c \<and> \<not> is_ctl_byte c"
  by (auto simp: plain_char_def host_char_ok_def is_ctl_byte_def char_class_defs)

lemma plain_char_neq:
  "\<not> plain_char (CHR ''%'')" "\<not> plain_char (CHR '':'')" "\<not> plain_char (CHR ''/'')"
  "\<not> plain_char (CHR ''?'')" "\<not> plain_char (CHR ''#'')" "\<not> plain_char (CHR ''['')"
  "\<not> plain_char (CHR '']'')" "\<not> plain_char (CHR ''@'')"
  by (simp_all add: plain_char_def char_class_defs)

lemma plain_char_notin:
  "list_all plain_char s \<Longrightarrow> \<not> plain_char c \<Longrightarrow> c \<notin> set s"
  by (auto simp: list_all_iff)

lemma is_digit_plain: "is_digit c \<Longrightarrow> plain_char c"
  by (simp add: plain_char_def)

lemma cut_last_none: "sep \<notin> set s \<Longrightarrow> cut_last sep s = None"
  by (simp add: cut_last_def cut_none)

lemma cut_last_append: "sep \<notin> set b \<Longrightarrow> cut_last sep (a @ sep # b) = Some (a, b)"
  using cut_append [of sep "rev b" "rev a"] by (simp add: cut_last_def)

lemma unescape_plain:
  "(\<And>c. c \<in> set s \<Longrightarrow> c \<noteq> CHR ''%'') \<Longrightarrow>
     (m = EncodeHost \<or> m = EncodeZone \<Longrightarrow> (\<And>c. c \<in> set s \<Longrightarrow> host_char_ok c)) \<Longrightarrow> unescape m s = Inr s"
  by (induction m s rule: unescape.induct) auto

lemma colon_ok: "host_char_ok (CHR '':'')" "\<not> is_ctl_byte (CHR '':'')" "\<not> is_ctl_byte (CHR ''/'')"
  by (simp_all add: host_char_ok_def is_ctl_byte_def)

lemma port_chars: "validOptionalPort p \<Longrightarrow> c \<in> set p \<Longrightarrow> c = CHR '':'' \<or> is_digit c"
  by (cases p) (auto simp: validOptionalPort_def list_all_iff)

lemma plain_host_parses:
  assumes h: "list_all plain_char h" and p: "validOptionalPort p"
  shows "parseHost scheme (h @ p) = Inr (h @ p)"
proof -
  have chars: "c = CHR '':'' \<or> plain_char c" if "c \<in> set (h @ p)" for c
    using that h port_chars [OF p] is_digit_plain by (auto simp: list_all_iff)
  have "CHR ''['' \<notin> set (h @ p)" using chars plain_char_neq(6) by fastforce
  moreover have "unescape EncodeHost (h @ p) = Inr (h @ p)"
    using chars plain_char_range plain_char_neq(1) colon_ok by (intro unescape_plain) fastforce+
  moreover have "cut (CHR '':'') (h @ p) = (h, if p = [] then [] else tl p, p \<noteq> [])"
  proof (cases p)
    case Nil
    then show ?thesis using h plain_char_neq(2) by (simp add: cut_none plain_char_notin)
  next
    case (Cons c cs)
    with p show ?thesis using h plain_char_neq(2)
      by (auto simp: cut_append plain_char_notin validOptionalPort_def)
  qed
  moreover have "validOptionalPort (if p = [] then [] else CHR '':'' # tl p)"
    using p by (auto simp: validOptionalPort_def)
  moreover have "cut_last (CHR '':'') (h @ p) = Some (h, tl p)" if "p \<noteq> []"
  proof -
    have "CHR '':'' \<notin> set (tl p)"
      using p that by (auto simp: validOptionalPort_def list_all_iff is_digit_def)
    moreover have "h @ p = h @ CHR '':'' # tl p"
      using p that by (cases p) (auto simp: validOptionalPort_def)
    ultimately show ?thesis by (metis cut_last_append)
  qed
  ultimately show ?thesis
    by (cases "p = []") (auto simp: parseHost_def cut_last_none Let_def)
qed

lemma plain_path_chars: "plain_path p \<Longrightarrow> c \<in> set p \<Longrightarrow> plain_char c \<or> c = CHR ''/''"
  by (auto simp: plain_path_def list_all_iff)

lemma getScheme_alpha:
  "list_all is_alpha sch \<Longrightarrow> acc \<noteq> [] \<or> sch \<noteq> [] \<Longrightarrow>
     getScheme raw acc (sch @ CHR '':'' # rest) = Inr (acc @ sch, rest)"
proof (induction sch arbitrary: acc)
  case Nil
  then show ?case by (simp add: char_class_defs)
next
  case (Cons c cs)
  then show ?case by simp
qed

lemma url_Parse_plain:
  assumes sch: "sch \<in> {''http'', ''https''}" and h: "list_all plain_char h"
    and p: "validOptionalPort p" and path: "plain_path path"
  shows "url_Parse (sch @ ''://'' @ h @ p @ path) = Inr \<lparr>url_scheme = sch, url_host = h @ p\<rparr>"
proof -
  let ?rest = "''//'' @ h @ p @ path"
  let ?raw = "sch @ CHR '':'' # ?rest"
  have chars: "c = CHR '':'' \<or> c = CHR ''/'' \<or> plain_char c" if "c \<in> set (h @ p @ path)" for c
    using that h port_chars [OF p] is_digit_plain plain_path_chars [OF path] by (auto simp: list_all_iff)
  have alpha: "list_all is_alpha sch" "sch \<noteq> []"
    using sch by (auto simp: char_class_defs)
  have raw_chars: "c = CHR '':'' \<or> c = CHR ''/'' \<or> plain_char c" if "c \<in> set ?raw" for c
    using that chars [of c] alpha(1) by (auto simp: list_all_iff plain_char_def)
  have nofrag: "CHR ''#'' \<notin> set ?raw"
    using raw_chars [of "CHR ''#''"] plain_char_neq(5) by auto
  have "CHR ''?'' \<notin> set ?raw"
    using raw_chars [of "CHR ''?''"] plain_char_neq(4) by auto
  then have noquery: "CHR ''?'' \<notin> set ?rest" by simp
  have "\<not> is_ctl_byte c" if "c \<in> set ?raw" for c
    using raw_chars [OF that] plain_char_range [of c] colon_ok(2,3) by auto
  then have noctl: "\<not> list_ex is_ctl_byte ?raw"
    unfolding list_ex_iff by blast
  have lower: "map to_lower sch = sch"
    using sch by (auto simp: to_lower_def char_class_defs)
  have authority: "cut (CHR ''/'') (h @ p @ path) = (h @ p, tl path, path \<noteq> [])"
  proof -
    have no: "CHR ''/'' \<notin> set (h @ p)"
      using h port_chars [OF p, of "CHR ''/''"] plain_char_neq(3) by (auto simp: list_all_iff is_digit_def)
    show ?thesis
    proof (cases path)
      case Nil
      with no show ?thesis by (simp add: cut_none)
    next
      case (Cons c cs)
      with path have "path = CHR ''/'' # cs" by (simp add: plain_path_def)
      with cut_append [OF no, of cs] show ?thesis by simp
    qed
  qed
  have noat: "CHR ''@'' \<notin> set (h @ p)"
    using h port_chars [OF p, of "CHR ''@''"] plain_char_neq(8) by (auto simp: list_all_iff is_digit_def)
  have escaped: "unescape EncodePath path = Inr path"
    using plain_path_chars [OF path] plain_char_neq(1) by (intro unescape_plain) fastforce+
  have pathtl: "(if path \<noteq> [] then CHR ''/'' # tl path else []) = path"
    using path by (cases path) (auto simp: plain_path_def)
  define rest where "rest = ?rest"
  define raw where "raw = ?raw"
  have rest: "take (Suc 0) rest = ''/''" "take 2 rest = ''//''" "drop 2 rest = h @ p @ path"
    "cut (CHR ''?'') rest = (rest, [], False)"
    using cut_none [OF noquery] by (simp_all add: rest_def)
  have raw: "\<not> list_ex is_ctl_byte raw" "raw \<noteq> ''*''" "getScheme raw [] raw = Inr (sch, rest)"
    using noctl alpha getScheme_alpha [of sch "[]" raw rest]
    by (auto simp: raw_def rest_def Cons_eq_append_conv char_class_defs)
  have parsed: "parse_no_fragment raw = Inr \<lparr>url_scheme = sch, url_host = h @ p\<rparr>"
    unfolding parse_no_fragment_def
    by (simp add: raw rest lower alpha authority Let_def parseAuthority_def cut_last_none [OF noat]
        plain_host_parses [OF h p] path_checked_def pathtl escaped)
  have "sch @ ''://'' @ h @ p @ path = raw" and "cut (CHR ''#'') raw = (raw, [], False)"
    using cut_none [OF nofrag] by (simp_all add: raw_def)
  then show ?thesis
    by (simp add: url_Parse_def Let_def parsed)
qed

lemma url_Hostname_plain:
  assumes h: "list_all plain_char h" and p: "validOptionalPort p"
  shows "url_Hostname \<lparr>url_scheme = s, url_host = h @ p\<rparr> = h"
proof -
  have bracket: "\<not> (take 1 h = ''['' \<and> last h = CHR '']'')"
    using h plain_char_neq(6) by (cases h) (auto simp: list_all_iff)
  show ?thesis
  proof (cases "p = []")
    case True
    with h plain_char_neq(2) bracket show ?thesis
      by (auto simp: url_Hostname_def cut_last_none plain_char_notin)
  next
    case False
    have no: "CHR '':'' \<notin> set (tl p)"
      using p False by (auto simp: validOptionalPort_def list_all_iff is_digit_def)
    have eq: "p = CHR '':'' # tl p"
      using p False by (cases p) (auto simp: validOptionalPort_def)
    have "cut_last (CHR '':'') (h @ CHR '':'' # tl p) = Some (h, tl p)"
      by (rule cut_last_append [OF no])
    with p eq bracket show ?thesis by (auto simp: url_Hostname_def)
  qed
qed

section \<open>Dotted quads\<close>

lemma nat_digits_is_digit: "list_all is_digit (nat_digits n)"
  using nat_digits_chars by (auto simp: list_all_iff is_digit_def dest!: nat_digits_chars)

lemma nat_digits_nonempty [simp]: "nat_digits n \<noteq> []"
  by (simp add: nat_digits.simps [of n])

lemma digit_char_zero_iff: "d < 10 \<Longrightarrow> digit_char d = CHR ''0'' \<longleftrightarrow> d = 0"
proof -
  assume "d < 10"
  then have "d \<in> {0, 1, 2, 3, 4, 5, 6, 7, 8, 9}" by auto
  then show ?thesis by (auto simp: digit_char_def)
qed

lemma nat_digits_leading: "1 < length (nat_digits n) \<Longrightarrow> hd (nat_digits n) \<noteq> CHR ''0''"
proof (induction n rule: nat_digits.induct)
  case (1 n)
  show ?case
  proof (cases "n < 100")
    case True
    have "digit_char (n div 10) \<noteq> CHR ''0''" if "10 \<le> n"
      using that True by (simp add: digit_char_zero_iff)
    with True 1 show ?thesis
      by (auto simp: nat_digits.simps [of n] nat_digits.simps [of "n div 10"] split: if_splits)
  next
    case False
    then have "1 < length (nat_digits (n div 10))"
      by (simp add: nat_digits.simps [of "n div 10"])
    with 1 False show ?thesis
      by (simp add: nat_digits.simps [of n])
  qed
qed

lemma ipv4_field_digits: "n \<le> 255 \<Longrightarrow> ipv4_field (nat_digits n) = Some n"
  using nat_digits_leading [of n] nat_digits_is_digit [of n]
  by (auto simp: ipv4_field_def Let_def)

lemma split_on_none: "sep \<notin> set s \<Longrightarrow> split_on sep s = [s]"
  by (induction s) auto

lemma split_on_append: "sep \<notin> set a \<Longrightarrow> split_on sep (a @ sep # b) = a # split_on sep b"
  by (induction a) auto

definition dotted_quad :: "nat \<Rightarrow> nat \<Rightarrow> nat \<Rightarrow> nat \<Rightarrow> string" where
  "dotted_quad a b c d =
     nat_digits a @ ''.'' @ nat_digits b @ ''.'' @ nat_digits c @ ''.'' @ nat_digits d"

lemma nat_digits_no_dot [simp]: "CHR ''.'' \<notin> set (nat_digits n)"
  by (rule nat_digits_no_char) simp

lemma ParseIP_dotted_quad:
  assumes "a \<le> 255" "b \<le> 255" "c \<le> 255" "d \<le> 255"
  shows "ParseIP (dotted_quad a b c d) = Some (v4_in_v6 [a, b, c, d])"
proof -
  have "split_on (CHR ''.'') (dotted_quad a b c d) = [nat_digits a, nat_digits b, nat_digits c, nat_digits d]"
    by (simp add: dotted_quad_def split_on_append split_on_none)
  with assms have v4: "parse_ipv4 (dotted_quad a b c d) = Some [a, b, c, d]"
    by (simp add: parse_ipv4_def ipv4_field_digits)
  have "List.find (\<lambda>c. c \<in> set ''.:%'') (ds @ CHR ''.'' # rest) = Some (CHR ''.'')"
    if "list_all is_digit ds" for ds rest
    using that by (induction ds) (auto simp: is_digit_def)
  with nat_digits_is_digit have "List.find (\<lambda>c. c \<in> set ''.:%'') (dotted_quad a b c d) = Some (CHR ''.'')"
    by (simp add: dotted_quad_def)
  with v4 show ?thesis by (simp add: ParseIP_def ParseAddr_def)
qed

lemma dotted_quad_plain: "list_all plain_char (dotted_quad a b c d)"
  using nat_digits_is_digit is_digit_plain
  by (auto simp: dotted_quad_def list_all_iff plain_char_def)

lemma IsLoopback_quad: "IsLoopback (v4_in_v6 [a, b, c, d]) \<longleftrightarrow> a = 127"
  by (simp add: IsLoopback_def To4_def v4_in_v6_def numeral_eq_Suc)

end
