(* ===== verification/SleepClient.thy ===== *)
theory SleepClient
  imports GoNet
begin

text \<open>
  The sleep REST client of \<open>internal/client/sleep\<close>: endpoint validation with its protection
  against loopback targets, and the GET request that puts a server to sleep. The HTTP transport
  is a parameter; an error is named by the sentinel it wraps.
\<close>

datatype sleep_error =
    ErrEmptyEndpoint
  | ErrInvalidEndpoint
  | ErrSSRFAttempt
  | ErrInvalidTimeout
  | ErrNilLogger
  | ErrNetworkError
  | ErrSleepRequestFailed

record sleep_client_config =
  scc_endpoint :: string
  scc_timeout :: duration
  scc_authToken :: string

definition NewClientConfig :: "string \<Rightarrow> sleep_client_config" where
  "NewClientConfig endpoint =
     \<lparr>scc_endpoint = endpoint, scc_timeout = 10 * second, scc_authToken = ''''\<rparr>"

record sleep_client =
  sc_endpoint :: string
  sc_authToken :: string
  sc_timeout :: duration

section \<open>Validation\<close>

definition isLoopbackOrLocalhost :: "string \<Rightarrow> bool" where
  "isLoopbackOrLocalhost host \<longleftrightarrow>
     (if equal_fold host ''localhost'' then True
      else (case ParseIP host of
              None \<Rightarrow> False
            | Some ip \<Rightarrow> IsLoopback ip \<or> IsUnspecified ip))"

definition validateEndpoint :: "string \<Rightarrow> sleep_error option" where
  "validateEndpoint endpoint =
     (case url_Parse endpoint of
        Inl _ \<Rightarrow> Some ErrInvalidEndpoint
      | Inr parsed \<Rightarrow>
          (let scheme = map to_lower (url_scheme parsed) in
           if scheme \<noteq> ''http'' \<and> scheme \<noteq> ''https'' then Some ErrInvalidEndpoint
           else if isLoopbackOrLocalhost (url_Hostname parsed) then Some ErrSSRFAttempt
           else None))"

definition validateConfig :: "sleep_client_config \<Rightarrow> bool \<Rightarrow> sleep_error option" where
  "validateConfig config hasLogger =
     (if scc_endpoint config = '''' then Some ErrEmptyEndpoint
      else
        (case validateEndpoint (scc_endpoint config) of
           Some err \<Rightarrow> Some err
         | None \<Rightarrow>
             if scc_timeout config \<le> 0 then Some ErrInvalidTimeout
             else if \<not> hasLogger then Some ErrNilLogger
             else None))"

definition sleep_NewClient :: "sleep_client_config \<Rightarrow> bool \<Rightarrow> sleep_error + sleep_client" where
  "sleep_NewClient config hasLogger =
     (case validateConfig config hasLogger of
        Some err \<Rightarrow> Inl err
      | None \<Rightarrow>
          Inr \<lparr>sc_endpoint = scc_endpoint config, sc_authToken = scc_authToken config,
               sc_timeout = scc_timeout config\<rparr>)"

section \<open>The request\<close>

record http_request =
  req_method :: string
  req_url :: string
  req_headers :: "(string \<times> string) list"

text \<open>
  \<open>transport\<close> is the HTTP client: it answers with an error or a status code and changes the
  world. Building the request fails when the URL does not parse.
\<close>

definition sleep_request :: "sleep_client \<Rightarrow> http_request" where
  "sleep_request c =
     \<lparr>req_method = ''GET'', req_url = sc_endpoint c,
      req_headers =
        (if sc_authToken c \<noteq> '''' then [(''Authorization'', ''Basic '' @ sc_authToken c)] else [])\<rparr>"

definition client_Sleep ::
  "(http_request \<Rightarrow> 'w \<Rightarrow> (string + int) \<times> 'w) \<Rightarrow> sleep_client \<Rightarrow> 'w \<Rightarrow> sleep_error option \<times> 'w" where
  "client_Sleep transport c w =
     (case url_Parse (sc_endpoint c) of
        Inl _ \<Rightarrow> (Some ErrNetworkError, w)
      | Inr _ \<Rightarrow>
          (case transport (sleep_request c) w of
             (Inl _, w') \<Rightarrow> (Some ErrNetworkError, w')
           | (Inr status, w') \<Rightarrow>
               if status < 200 \<or> 300 \<le> status then (Some ErrSleepRequestFailed, w')
               else (None, w')))"

section \<open>Lemmas\<close>

lemma validateEndpoint_plain:
  "sch \<in> {''http'', ''https''} \<Longrightarrow> list_all plain_char h \<Longrightarrow> validOptionalPort p \<Longrightarrow> plain_path path \<Longrightarrow>
     validateEndpoint (sch @ ''://'' @ h @ p @ path)
       = (if isLoopbackOrLocalhost h then Some ErrSSRFAttempt else None)"
  using url_Parse_plain [of sch h p path] url_Hostname_plain [of h p sch]
  by (auto simp: validateEndpoint_def Let_def to_lower_def char_class_defs)

lemma sleep_NewClient_valid:
  "sleep_NewClient cfg lg = Inr c \<Longrightarrow>
     validateEndpoint (sc_endpoint c) = None \<and> 0 < sc_timeout c \<and> sc_endpoint c = scc_endpoint cfg"
  by (auto simp: sleep_NewClient_def validateConfig_def split: option.splits if_splits)

lemma sleep_NewClient_request_builds:
  "sleep_NewClient cfg lg = Inr c \<Longrightarrow> \<exists>u. url_Parse (sc_endpoint c) = Inr u"
  using sleep_NewClient_valid [of cfg lg c] by (auto simp: validateEndpoint_def split: sum.splits)

section \<open>Properties\<close>

text \<open>No client can be built for a dotted-quad loopback endpoint: for every address 127.b.c.d,
  every port and every plain path, over http and https, with any timeout, token and logger,
  construction fails with the SSRF error.\<close>

theorem sleep_client_rejects_loopback:
  assumes "b \<le> 255" "c \<le> 255" "d \<le> 255" and "sch \<in> {''http'', ''https''}"
    and "validOptionalPort p" and "plain_path path"
  shows "sleep_NewClient \<lparr>scc_endpoint = sch @ ''://'' @ dotted_quad 127 b c d @ p @ path,
             scc_timeout = tmo, scc_authToken = tok\<rparr> hasLogger = Inl ErrSSRFAttempt"
proof -
  have "isLoopbackOrLocalhost (dotted_quad 127 b c d)"
    using ParseIP_dotted_quad [of 127 b c d] assms(1-3)
    by (simp add: isLoopbackOrLocalhost_def IsLoopback_quad)
  then have "validateEndpoint (sch @ ''://'' @ dotted_quad 127 b c d @ p @ path) = Some ErrSSRFAttempt"
    using validateEndpoint_plain [OF assms(4) dotted_quad_plain assms(5,6)] by simp
  moreover have "sch @ ''://'' @ dotted_quad 127 b c d @ p @ path \<noteq> ''''"
    by simp
  ultimately show ?thesis
    by (simp add: sleep_NewClient_def validateConfig_def)
qed

theorem sleep_client_rejects_loopback_witness:
  "sleep_NewClient \<lparr>scc_endpoint = ''http://'' @ dotted_quad 127 8 9 10 @ '':80'' @ ''/sleep'',
       scc_timeout = 5, scc_authToken = ''''\<rparr> True = Inl ErrSSRFAttempt"
  using sleep_client_rejects_loopback [of 8 9 10 "''http''" "'':80''" "''/sleep''" 5 "''''" True]
  by (simp add: validOptionalPort_def plain_path_def plain_char_def char_class_defs)

text \<open>The protection is a check of the literal host name only: the fully qualified spelling of
  localhost (with its trailing dot) and the shortened address 127.1 pass it, and a client for
  them is built.\<close>

theorem sleep_client_loopback_bypass:
  "h \<in> {''localhost.'', ''127.1''} \<Longrightarrow>
     sleep_NewClient \<lparr>scc_endpoint = ''http://'' @ h @ ''/sleep'', scc_timeout = 1, scc_authToken = ''''\<rparr> True
       = Inr \<lparr>sc_endpoint = ''http://'' @ h @ ''/sleep'', sc_authToken = '''', sc_timeout = 1\<rparr>"
proof -
  assume h: "h \<in> {''localhost.'', ''127.1''}"
  have plain: "list_all plain_char h"
    using h by (auto simp: plain_char_def char_class_defs)
  have "\<not> isLoopbackOrLocalhost h"
    using h by (auto simp: isLoopbackOrLocalhost_def ParseIP_def ParseAddr_def parse_ipv4_def
        to_lower_def char_class_defs)
  then have "validateEndpoint (''http://'' @ h @ ''/sleep'') = None"
    using validateEndpoint_plain [OF _ plain, of "''http''" "''''" "''/sleep''"]
    by (simp add: validOptionalPort_def plain_path_def plain_char_def char_class_defs)
  then show ?thesis
    by (simp add: sleep_NewClient_def validateConfig_def)
qed

theorem sleep_client_loopback_bypass_witness:
  "sleep_NewClient \<lparr>scc_endpoint = ''http://localhost./sleep'', scc_timeout = 1, scc_authToken = ''''\<rparr> True
     = Inr \<lparr>sc_endpoint = ''http://localhost./sleep'', sc_authToken = '''', sc_timeout = 1\<rparr>"
  using sleep_client_loopback_bypass [of "''localhost.''"] by simp

end
