(* ===== verification/SleepCoordinator.thy ===== *)
theory SleepCoordinator
  imports Channel
begin

text \<open>
  The sleep coordinator of \<open>internal/proxy/sleep_coordinator.go\<close>: the goroutine that consumes
  sleep triggers and calls the sleep sender for each, and its Start/Stop life cycle. The sender
  (the interface \<open>SleepSender\<close>) is an argument that returns an error or nothing and changes the
  world.
\<close>

datatype sleep_coordinator_error =
    ErrSleepCoordinatorMissingTriggers
  | ErrSleepCoordinatorMissingSender
  | ErrSleepCoordinatorMissingLogger
  | ErrSleepCoordinatorAlreadyRunning
  | ErrSleepCoordinatorNotRunning

text \<open>\<open>sco_loops\<close> are the loop goroutines that have not exited; a cycle number stands for the
  cancel function and the done channel of one Start.\<close>

record sleep_coordinator =
  sco_running :: bool
  sco_cycle :: nat
  sco_loops :: "nat list"

definition NewSleepCoordinator :: "bool \<Rightarrow> bool \<Rightarrow> bool \<Rightarrow> sleep_coordinator_error + sleep_coordinator" where
  "NewSleepCoordinator hasTriggers hasSender hasLogger =
     (if \<not> hasTriggers then Inl ErrSleepCoordinatorMissingTriggers
      else if \<not> hasSender then Inl ErrSleepCoordinatorMissingSender
      else if \<not> hasLogger then Inl ErrSleepCoordinatorMissingLogger
      else Inr \<lparr>sco_running = False, sco_cycle = 0, sco_loops = []\<rparr>)"

definition SleepCoordinator_Start ::
  "sleep_coordinator \<Rightarrow> sleep_coordinator_error option \<times> sleep_coordinator" where
  "SleepCoordinator_Start c =
     (if sco_running c then (Some ErrSleepCoordinatorAlreadyRunning, c)
      else (None, c\<lparr>sco_running := True, sco_cycle := Suc (sco_cycle c),
                    sco_loops := Suc (sco_cycle c) # sco_loops c\<rparr>))"

definition SleepCoordinator_Stop ::
  "sleep_coordinator \<Rightarrow> sleep_coordinator_error option \<times> sleep_coordinator" where
  "SleepCoordinator_Stop c =
     (if \<not> sco_running c then (Some ErrSleepCoordinatorNotRunning, c)
      else (None, c\<lparr>sco_running := False, sco_loops := removeAll (sco_cycle c) (sco_loops c)\<rparr>))"

interpretation sleep_cycle: lifecycle sco_running SleepCoordinator_Start SleepCoordinator_Stop
  by unfold_locales (auto simp: SleepCoordinator_Start_def SleepCoordinator_Stop_def)

section \<open>The loop\<close>

text \<open>\<open>handleTrigger\<close> logs an error of the sender and carries on.\<close>

definition handleTrigger :: "(string \<Rightarrow> 'w \<Rightarrow> 'e option \<times> 'w) \<Rightarrow> string \<Rightarrow> 'w \<Rightarrow> 'w" where
  "handleTrigger sender routeID w =
     (case sender routeID w of (Some err, w') \<Rightarrow> w' | (None, w') \<Rightarrow> w')"

text \<open>One outcome of the loop's \<open>select\<close>, and the loop over the outcomes; the flag tells whether
  the goroutine has exited.\<close>

datatype loop_event = LoopCtxDone | LoopTrigger string | LoopTriggersClosed

fun sleep_runLoop :: "(string \<Rightarrow> 'w \<Rightarrow> 'e option \<times> 'w) \<Rightarrow> loop_event list \<Rightarrow> 'w \<Rightarrow> 'w \<times> bool" where
  "sleep_runLoop sender [] w = (w, False)"
| "sleep_runLoop sender (LoopCtxDone # evs) w = (w, True)"
| "sleep_runLoop sender (LoopTriggersClosed # evs) w = (w, True)"
| "sleep_runLoop sender (LoopTrigger routeID # evs) w =
     sleep_runLoop sender evs (handleTrigger sender routeID w)"

section \<open>Lemmas\<close>

fun is_trigger :: "loop_event \<Rightarrow> bool" where
  "is_trigger (LoopTrigger _) = True"
| "is_trigger _ = False"

fun trigger_id :: "loop_event \<Rightarrow> string" where
  "trigger_id (LoopTrigger r) = r"
| "trigger_id _ = ''''"

definition handled :: "loop_event list \<Rightarrow> string list" where
  "handled evs = map trigger_id (takeWhile is_trigger evs)"

lemma sleep_runLoop_eq:
  "sleep_runLoop sender evs w =
     (fold (\<lambda>r w. snd (sender r w)) (handled evs) w, \<not> list_all is_trigger evs)"
proof (induction sender evs w rule: sleep_runLoop.induct)
  case (4 sender routeID evs w)
  then show ?case
    by (auto simp: handled_def handleTrigger_def split: prod.splits option.splits)
qed (simp_all add: handled_def)

section \<open>Properties\<close>

text \<open>The loop calls the sender exactly once for every trigger it receives before it exits, in
  order and whatever the sender returns: an error neither stops the loop nor skips a trigger.\<close>

theorem sleep_loop_handles_every_trigger:
  "sleep_runLoop (\<lambda>r (calls, env). (fst (sender r env), (calls @ [r], snd (sender r env)))) evs ([], env)
     = ((handled evs, fold (\<lambda>r w. snd (sender r w)) (handled evs) env), \<not> list_all is_trigger evs)"
proof -
  have "fold (\<lambda>r w. snd (case w of (calls, env) \<Rightarrow> (fst (sender r env), (calls @ [r], snd (sender r env))))) rs (cs, env)
      = (cs @ rs, fold (\<lambda>r w. snd (sender r w)) rs env)" for rs cs env
    by (induction rs arbitrary: cs env) auto
  then show ?thesis by (simp add: sleep_runLoop_eq)
qed

end
