(* ===== verification/WakeCoordinator.thy ===== *)
theory WakeCoordinator
  imports HealthStore Metrics
begin

text \<open>
  \<open>internal/proxy/wake_coordinator.go\<close>: the middleware that wakes a server before a request is
  forwarded. The critical sections of the code are functions on the coordinator; the requests,
  the \<open>performWake\<close> goroutines and the callers of \<open>Close\<close> are threads of a transition system
  whose steps are those functions, interleaved in any order. An \<open>inflightWake\<close> object is an
  entry of a list that plays the part of the heap: its address is its index.
\<close>

section \<open>Construction\<close>

datatype wake_sentinel =
    ErrMissingServerID
  | ErrMissingMachineID
  | ErrInvalidWakeTimeout
  | ErrMissingDownstream
  | ErrMissingWoLSender
  | ErrMissingHealthStore
  | ErrMissingLogger
  | ErrWakeTimeout
  | ContextCanceled
  | ContextDeadlineExceeded

fun wake_sentinel_text :: "wake_sentinel \<Rightarrow> string" where
  "wake_sentinel_text ErrMissingServerID = ''server ID must not be empty''"
| "wake_sentinel_text ErrMissingMachineID = ''machine ID must not be empty''"
| "wake_sentinel_text ErrInvalidWakeTimeout = ''wake timeout must be positive''"
| "wake_sentinel_text ErrMissingDownstream = ''downstream handler must not be nil''"
| "wake_sentinel_text ErrMissingWoLSender = ''WoL sender must not be nil''"
| "wake_sentinel_text ErrMissingHealthStore = ''health store must not be nil''"
| "wake_sentinel_text ErrMissingLogger = ''logger must not be nil''"
| "wake_sentinel_text ErrWakeTimeout = ''server did not become healthy within wake timeout''"
| "wake_sentinel_text ContextCanceled = ''context canceled''"
| "wake_sentinel_text ContextDeadlineExceeded = ''context deadline exceeded''"

type_synonym wake_error = "wake_sentinel go_error"

definition defaultPollInterval :: duration where
  "defaultPollInterval = 500 * millisecond"

record wake_coordinator_config =
  wcc_ServerID :: string
  wcc_MachineID :: string
  wcc_WakeTimeout :: duration
  wcc_Debounce :: duration
  wcc_PollInterval :: duration

record inflightWake =
  iw_done :: bool
  iw_err :: "wake_error option"

record wake_coordinator =
  wc_serverID :: string
  wc_machineID :: string
  wc_wakeTimeout :: duration
  wc_debounce :: duration
  wc_pollInterval :: duration
  wc_metrics :: registry
  wc_done :: bool
  wc_wg :: nat
  wc_lastWoLAt :: time
  wc_wakeInFlight :: "nat option"
  wc_heap :: "inflightWake list"

text \<open>The collaborators are interfaces or pointers; only whether they are nil matters here.\<close>

definition validateWakeCoordinatorConfig ::
  "wake_coordinator_config \<Rightarrow> 'd option \<Rightarrow> 'w option \<Rightarrow> 's option \<Rightarrow> 'l option \<Rightarrow> wake_error option" where
  "validateWakeCoordinatorConfig cfg downstream wolSender store log =
     (if wcc_ServerID cfg = [] then Some (Sentinel ErrMissingServerID)
      else if wcc_MachineID cfg = [] then Some (Sentinel ErrMissingMachineID)
      else if wcc_WakeTimeout cfg \<le> 0 then Some (Sentinel ErrInvalidWakeTimeout)
      else if downstream = None then Some (Sentinel ErrMissingDownstream)
      else if wolSender = None then Some (Sentinel ErrMissingWoLSender)
      else if store = None then Some (Sentinel ErrMissingHealthStore)
      else if log = None then Some (Sentinel ErrMissingLogger)
      else None)"

definition NewWakeCoordinator ::
  "wake_coordinator_config \<Rightarrow> 'd option \<Rightarrow> 'w option \<Rightarrow> 's option \<Rightarrow> 'l option \<Rightarrow> registry \<Rightarrow>
     wake_error + wake_coordinator" where
  "NewWakeCoordinator cfg downstream wolSender store log m =
     (case validateWakeCoordinatorConfig cfg downstream wolSender store log of
        Some e \<Rightarrow> Inl e
      | None \<Rightarrow>
          Inr \<lparr>wc_serverID = wcc_ServerID cfg, wc_machineID = wcc_MachineID cfg,
               wc_wakeTimeout = wcc_WakeTimeout cfg, wc_debounce = wcc_Debounce cfg,
               wc_pollInterval =
                 (if wcc_PollInterval cfg \<le> 0 then defaultPollInterval else wcc_PollInterval cfg),
               wc_metrics = m, wc_done = False, wc_wg = 0, wc_lastWoLAt = 0,
               wc_wakeInFlight = None, wc_heap = []\<rparr>)"

section \<open>The critical sections\<close>

text \<open>\<open>found && status.Healthy\<close>, the test of \<open>ServeHTTP\<close> and of the poll loop.\<close>

definition observes_healthy :: "wake_coordinator \<Rightarrow> in_memory_store \<Rightarrow> bool" where
  "observes_healthy c store =
     (case store_Get store (wc_serverID c) of (status, found) \<Rightarrow> found \<and> st_healthy status)"

text \<open>
  What \<open>ensureWake\<close> decides while it holds the mutex: wait for the wake in flight, poll only, or
  start a wake. \<open>tSince\<close> and \<open>tNow\<close> are its two readings of the clock.
\<close>

datatype wake_decision = JoinWake nat | PollOnly | StartWake nat

definition ensureWake ::
  "time \<Rightarrow> time \<Rightarrow> wake_coordinator \<Rightarrow> wake_decision \<times> wake_coordinator" where
  "ensureWake tSince tNow c =
     (case wc_wakeInFlight c of
        Some wake \<Rightarrow> (JoinWake wake, c)
      | None \<Rightarrow>
          if wc_debounce c > 0 \<and> time_sub tSince (wc_lastWoLAt c) < wc_debounce c
          then (PollOnly, c)
          else let wake = length (wc_heap c) in
            (StartWake wake,
             c\<lparr>wc_heap := wc_heap c @ [\<lparr>iw_done = False, iw_err = None\<rparr>],
               wc_wakeInFlight := Some wake,
               wc_lastWoLAt := tNow\<rparr>))"

text \<open>The cases of the \<open>select\<close> statement of the poll loop, and what each of them returns.\<close>

datatype poll_event = PollCtxDone wake_sentinel | PollClosed | PollTick

datatype poll_result = PollAgain | PollReturn "wake_error option"

fun poll_select :: "wake_coordinator \<Rightarrow> in_memory_store \<Rightarrow> poll_event \<Rightarrow> poll_result" where
  "poll_select c store (PollCtxDone e) =
     PollReturn (Some (Errorf (wake_sentinel_text ErrWakeTimeout @ '': '' @ wake_sentinel_text e)
       [Sentinel ErrWakeTimeout, Sentinel e]))"
| "poll_select c store PollClosed =
     PollReturn (Some (Errorf (wake_sentinel_text ErrWakeTimeout @ '': coordinator closed'')
       [Sentinel ErrWakeTimeout]))"
| "poll_select c store PollTick =
     (if observes_healthy c store then PollReturn None else PollAgain)"

text \<open>
  The whole loop, over the events it selects and the store at each of them: None when it is
  still polling after these events.
\<close>

fun pollUntilHealthyWithContext ::
  "wake_coordinator \<Rightarrow> (poll_event \<times> in_memory_store) list \<Rightarrow> wake_error option option" where
  "pollUntilHealthyWithContext c [] = None"
| "pollUntilHealthyWithContext c ((ev, store) # evs) =
     (case poll_select c store ev of
        PollReturn r \<Rightarrow> Some r
      | PollAgain \<Rightarrow> pollUntilHealthyWithContext c evs)"

datatype wait_event = WaitDone | WaitCtx wake_sentinel

fun waitForWake :: "inflightWake \<Rightarrow> wait_event \<Rightarrow> wake_error option" where
  "waitForWake wake WaitDone = iw_err wake"
| "waitForWake wake (WaitCtx e) =
     Some (Errorf (''wake interrupted: '' @ wake_sentinel_text e) [Sentinel e])"

definition performWake_record :: "wake_error option \<Rightarrow> wake_coordinator \<Rightarrow> wake_coordinator" where
  "performWake_record err c =
     c\<lparr>wc_metrics :=
         (let m = RecordWakeAttempt (wc_serverID c) (err = None) (wc_metrics c)
          in if err = None then SetServerAwake (wc_serverID c) True m else m)\<rparr>"

definition performWake_close :: "nat \<Rightarrow> wake_error option \<Rightarrow> wake_coordinator \<Rightarrow> wake_coordinator" where
  "performWake_close wake err c = c\<lparr>wc_heap := (wc_heap c)[wake := \<lparr>iw_done = True, iw_err = err\<rparr>]\<rparr>"

definition performWake_clear :: "wake_coordinator \<Rightarrow> wake_coordinator" where
  "performWake_clear c = c\<lparr>wc_wakeInFlight := None\<rparr>"

definition WakeCoordinator_Close_signal :: "wake_coordinator \<Rightarrow> wake_coordinator" where
  "WakeCoordinator_Close_signal c = c\<lparr>wc_done := True\<rparr>"

end
