(* ===== verification/WakeSystem.thy ===== *)
theory WakeSystem
  imports WakeCoordinator
begin

text \<open>
  The wake coordinator as a transition system: any number of requests in \<open>ServeHTTP\<close>, the
  \<open>performWake\<close> goroutines they spawn, callers of \<open>Close\<close>, the health manager writing to the
  store, clients giving up, and time. A thread's program counter says where it is; one step is one
  critical section or one channel operation of the code.
\<close>

section \<open>Threads and state\<close>

text \<open>A request in \<open>ServeHTTP\<close>; \<open>RPoll\<close> holds the deadline of its poll context.\<close>

datatype request_pc =
    RNew
  | REnsure
  | RSpawn nat
  | RWait nat
  | RPoll time
  | RForwarded
  | RRejected

text \<open>A \<open>performWake\<close> goroutine; \<open>WSend\<close> and \<open>WPoll\<close> hold the deadline of its context.\<close>

datatype worker_pc =
    WNone
  | WStart
  | WSend time
  | WPoll time
  | WRecord "wake_error option"
  | WClose "wake_error option"
  | WClear
  | WExit
  | WGone

datatype closer_pc = CNew | CWait | CReturned

datatype wake_actor = OfRequest nat | OfWake nat

datatype wake_event =
    Started nat time
  | SentWoL nat string
  | SawHealthy wake_actor
  | Waits nat nat
  | Forwarded nat
  | Rejected nat wake_error

record wake_system =
  wk_c :: wake_coordinator
  wk_store :: in_memory_store
  wk_now :: time
  wk_ctx :: "nat \<Rightarrow> wake_sentinel option"
  wk_reqs :: "nat \<Rightarrow> request_pc"
  wk_workers :: "nat \<Rightarrow> worker_pc"
  wk_closers :: "nat \<Rightarrow> closer_pc"
  wk_log :: "wake_event list"

definition wake_boot :: "wake_coordinator \<Rightarrow> in_memory_store \<Rightarrow> time \<Rightarrow> wake_system" where
  "wake_boot c store t =
     \<lparr>wk_c = c, wk_store = store, wk_now = t, wk_ctx = (\<lambda>_. None), wk_reqs = (\<lambda>_. RNew),
      wk_workers = (\<lambda>_. WNone), wk_closers = (\<lambda>_. CNew), wk_log = []\<rparr>"

definition set_req :: "nat \<Rightarrow> request_pc \<Rightarrow> wake_system \<Rightarrow> wake_system" where
  "set_req r pc s = s\<lparr>wk_reqs := (wk_reqs s)(r := pc)\<rparr>"

definition set_worker :: "nat \<Rightarrow> worker_pc \<Rightarrow> wake_system \<Rightarrow> wake_system" where
  "set_worker w pc s = s\<lparr>wk_workers := (wk_workers s)(w := pc)\<rparr>"

definition log_event :: "wake_event list \<Rightarrow> wake_system \<Rightarrow> wake_system" where
  "log_event es s = s\<lparr>wk_log := wk_log s @ es\<rparr>"

text \<open>The end of \<open>ServeHTTP\<close>: forward the request, or reply 503.\<close>

definition respond :: "nat \<Rightarrow> wake_error option \<Rightarrow> wake_system \<Rightarrow> wake_system" where
  "respond r res s =
     (case res of
        None \<Rightarrow> log_event [Forwarded r] (set_req r RForwarded s)
      | Some e \<Rightarrow> log_event [Rejected r e] (set_req r RRejected s))"

section \<open>Steps\<close>

text \<open>\<open>ServeHTTP\<close> up to the call of \<open>ensureWake\<close>.\<close>

definition ServeHTTP_check :: "nat \<Rightarrow> wake_system \<Rightarrow> wake_system option" where
  "ServeHTTP_check r s =
     (if wk_reqs s r = RNew then
        (if observes_healthy (wk_c s) (wk_store s)
         then Some (respond r None (log_event [SawHealthy (OfRequest r)] s))
         else Some (set_req r REnsure s))
      else None)"

definition ensureWake_step :: "nat \<Rightarrow> time \<Rightarrow> time \<Rightarrow> wake_system \<Rightarrow> wake_system option" where
  "ensureWake_step r tSince tNow s =
     (if wk_reqs s r = REnsure \<and> wk_now s \<le> tSince \<and> tSince \<le> tNow then
        (case ensureWake tSince tNow (wk_c s) of
           (JoinWake w, c) \<Rightarrow> Some (log_event [Waits r w] (set_req r (RWait w) (s\<lparr>wk_c := c, wk_now := tNow\<rparr>)))
         | (PollOnly, c) \<Rightarrow>
             Some (set_req r (RPoll (tNow + wc_wakeTimeout c)) (s\<lparr>wk_c := c, wk_now := tNow\<rparr>))
         | (StartWake w, c) \<Rightarrow>
             Some (log_event [Started w tNow] (set_req r (RSpawn w) (s\<lparr>wk_c := c, wk_now := tNow\<rparr>))))
      else None)"

text \<open>\<open>c.wg.Add(1); go c.performWake(wake)\<close>, after the mutex has been released.\<close>

definition spawn_step :: "nat \<Rightarrow> wake_system \<Rightarrow> wake_system option" where
  "spawn_step r s =
     (case wk_reqs s r of
        RSpawn w \<Rightarrow>
          Some (log_event [Waits r w] (set_req r (RWait w) (set_worker w WStart
            (s\<lparr>wk_c := (wk_c s)\<lparr>wc_wg := wc_wg (wk_c s) + 1\<rparr>\<rparr>))))
      | _ \<Rightarrow> None)"

definition waitForWake_step :: "nat \<Rightarrow> wait_event \<Rightarrow> wake_system \<Rightarrow> wake_system option" where
  "waitForWake_step r ev s =
     (case wk_reqs s r of
        RWait w \<Rightarrow>
          (if (case ev of WaitDone \<Rightarrow> iw_done (wc_heap (wk_c s) ! w) | WaitCtx e \<Rightarrow> wk_ctx s r = Some e)
           then Some (respond r (waitForWake (wc_heap (wk_c s) ! w) ev) s)
           else None)
      | _ \<Rightarrow> None)"

text \<open>When a case of the poll loop's \<open>select\<close> can be taken; the ticker fires at any time.\<close>

definition poll_ready ::
  "wake_system \<Rightarrow> wake_sentinel option \<Rightarrow> time \<Rightarrow> poll_event \<Rightarrow> bool" where
  "poll_ready s parent deadline ev =
     (case ev of
        PollCtxDone e \<Rightarrow> parent = Some e \<or> (e = ContextDeadlineExceeded \<and> deadline \<le> wk_now s)
      | PollClosed \<Rightarrow> wc_done (wk_c s)
      | PollTick \<Rightarrow> True)"

definition pollUntilHealthy_step :: "nat \<Rightarrow> poll_event \<Rightarrow> wake_system \<Rightarrow> wake_system option" where
  "pollUntilHealthy_step r ev s =
     (case wk_reqs s r of
        RPoll deadline \<Rightarrow>
          (if poll_ready s (wk_ctx s r) deadline ev then
             (case poll_select (wk_c s) (wk_store s) ev of
                PollAgain \<Rightarrow> Some s
              | PollReturn None \<Rightarrow> Some (respond r None (log_event [SawHealthy (OfRequest r)] s))
              | PollReturn (Some e) \<Rightarrow> Some (respond r (Some e) s))
           else None)
      | _ \<Rightarrow> None)"

text \<open>
  The steps of \<open>performWake\<close> in order: make the context, send the Wake-on-LAN command (its error
  is only logged), poll, record metrics, set the result and close \<open>wake.done\<close>, clear
  \<open>wakeInFlight\<close> under the mutex, and the deferred \<open>wg.Done\<close>.
\<close>

definition performWake_step :: "nat \<Rightarrow> poll_event \<Rightarrow> wake_system \<Rightarrow> wake_system option" where
  "performWake_step w ev s =
     (case wk_workers s w of
        WNone \<Rightarrow> None
      | WStart \<Rightarrow> Some (set_worker w (WSend (wk_now s + wc_wakeTimeout (wk_c s))) s)
      | WSend deadline \<Rightarrow>
          Some (log_event [SentWoL w (wc_machineID (wk_c s))] (set_worker w (WPoll deadline) s))
      | WPoll deadline \<Rightarrow>
          (if poll_ready s None deadline ev then
             (case poll_select (wk_c s) (wk_store s) ev of
                PollAgain \<Rightarrow> Some s
              | PollReturn None \<Rightarrow> Some (log_event [SawHealthy (OfWake w)] (set_worker w (WRecord None) s))
              | PollReturn (Some e) \<Rightarrow> Some (set_worker w (WRecord (Some e)) s))
           else None)
      | WRecord err \<Rightarrow>
          Some (set_worker w (WClose err) (s\<lparr>wk_c := performWake_record err (wk_c s)\<rparr>))
      | WClose err \<Rightarrow>
          Some (set_worker w WClear (s\<lparr>wk_c := performWake_close w err (wk_c s)\<rparr>))
      | WClear \<Rightarrow> Some (set_worker w WExit (s\<lparr>wk_c := performWake_clear (wk_c s)\<rparr>))
      | WExit \<Rightarrow>
          Some (set_worker w WGone (s\<lparr>wk_c := (wk_c s)\<lparr>wc_wg := wc_wg (wk_c s) - 1\<rparr>\<rparr>))
      | WGone \<Rightarrow> None)"

text \<open>\<open>Close\<close>: close the channel once, then wait for the wait group to reach zero.\<close>

definition Close_step :: "nat \<Rightarrow> wake_system \<Rightarrow> wake_system option" where
  "Close_step k s =
     (case wk_closers s k of
        CNew \<Rightarrow> Some (s\<lparr>wk_c := WakeCoordinator_Close_signal (wk_c s),
                         wk_closers := (wk_closers s)(k := CWait)\<rparr>)
      | CWait \<Rightarrow> (if wc_wg (wk_c s) = 0 then Some (s\<lparr>wk_closers := (wk_closers s)(k := CReturned)\<rparr>)
                   else None)
      | CReturned \<Rightarrow> None)"

datatype wake_action =
    AServe nat
  | AEnsure nat time time
  | ASpawn nat
  | AWait nat wait_event
  | APoll nat poll_event
  | AWork nat poll_event
  | AClose nat
  | ACancel nat wake_sentinel
  | AHealth string server_health_status
  | AClock time

fun wake_exec :: "wake_action \<Rightarrow> wake_system \<Rightarrow> wake_system option" where
  "wake_exec (AServe r) s = ServeHTTP_check r s"
| "wake_exec (AEnsure r t u) s = ensureWake_step r t u s"
| "wake_exec (ASpawn r) s = spawn_step r s"
| "wake_exec (AWait r ev) s = waitForWake_step r ev s"
| "wake_exec (APoll r ev) s = pollUntilHealthy_step r ev s"
| "wake_exec (AWork w ev) s = performWake_step w ev s"
| "wake_exec (AClose k) s = Close_step k s"
| "wake_exec (ACancel r e) s =
     (if wk_ctx s r = None then Some (s\<lparr>wk_ctx := (wk_ctx s)(r := Some e)\<rparr>) else None)"
| "wake_exec (AHealth k st) s = Some (s\<lparr>wk_store := store_Update (wk_store s) k st\<rparr>)"
| "wake_exec (AClock t) s = (if wk_now s \<le> t then Some (s\<lparr>wk_now := t\<rparr>) else None)"

inductive wake_step :: "wake_system \<Rightarrow> wake_system \<Rightarrow> bool" where
  "wake_exec a s = Some t \<Longrightarrow> wake_step s t"

inductive_cases wake_stepE: "wake_step s t"

fun wake_run :: "wake_action list \<Rightarrow> wake_system \<Rightarrow> wake_system option" where
  "wake_run [] s = Some s"
| "wake_run (a # as) s = (case wake_exec a s of None \<Rightarrow> None | Some t \<Rightarrow> wake_run as t)"

lemma wake_run_steps: "wake_run as s = Some t \<Longrightarrow> wake_step\<^sup>*\<^sup>* s t"
proof (induction as arbitrary: s)
  case Nil
  then show ?case by simp
next
  case (Cons a as)
  then show ?case
    by (auto split: option.splits intro: converse_rtranclp_into_rtranclp wake_step.intros)
qed

section \<open>The step relation by rules\<close>

lemma set_req_sel [simp]:
  "wk_c (set_req r pc s) = wk_c s" "wk_store (set_req r pc s) = wk_store s"
  "wk_now (set_req r pc s) = wk_now s" "wk_ctx (set_req r pc s) = wk_ctx s"
  "wk_reqs (set_req r pc s) = (wk_reqs s)(r := pc)" "wk_workers (set_req r pc s) = wk_workers s"
  "wk_closers (set_req r pc s) = wk_closers s" "wk_log (set_req r pc s) = wk_log s"
  by (simp_all add: set_req_def)

lemma set_worker_sel [simp]:
  "wk_c (set_worker w pc' s) = wk_c s" "wk_store (set_worker w pc' s) = wk_store s"
  "wk_now (set_worker w pc' s) = wk_now s" "wk_ctx (set_worker w pc' s) = wk_ctx s"
  "wk_reqs (set_worker w pc' s) = wk_reqs s" "wk_workers (set_worker w pc' s) = (wk_workers s)(w := pc')"
  "wk_closers (set_worker w pc' s) = wk_closers s" "wk_log (set_worker w pc' s) = wk_log s"
  by (simp_all add: set_worker_def)

lemma log_event_sel [simp]:
  "wk_c (log_event es s) = wk_c s" "wk_store (log_event es s) = wk_store s"
  "wk_now (log_event es s) = wk_now s" "wk_ctx (log_event es s) = wk_ctx s"
  "wk_reqs (log_event es s) = wk_reqs s" "wk_workers (log_event es s) = wk_workers s"
  "wk_closers (log_event es s) = wk_closers s" "wk_log (log_event es s) = wk_log s @ es"
  by (simp_all add: log_event_def)

definition final_pc :: "wake_error option \<Rightarrow> request_pc" where
  "final_pc res = (if res = None then RForwarded else RRejected)"

definition final_event :: "nat \<Rightarrow> wake_error option \<Rightarrow> wake_event" where
  "final_event r res = (case res of None \<Rightarrow> Forwarded r | Some e \<Rightarrow> Rejected r e)"

lemma respond_sel [simp]:
  "wk_c (respond r res s) = wk_c s" "wk_store (respond r res s) = wk_store s"
  "wk_now (respond r res s) = wk_now s" "wk_ctx (respond r res s) = wk_ctx s"
  "wk_reqs (respond r res s) = (wk_reqs s)(r := final_pc res)"
  "wk_workers (respond r res s) = wk_workers s"
  "wk_closers (respond r res s) = wk_closers s"
  "wk_log (respond r res s) = wk_log s @ [final_event r res]"
  by (cases res; simp add: respond_def final_pc_def final_event_def)+

lemma final_pc_simps [simp]: "final_pc res \<noteq> RSpawn w" "final_pc res \<noteq> RWait w" "final_pc res \<noteq> RPoll d"
  "RSpawn w \<noteq> final_pc res" "RWait w \<noteq> final_pc res"
  by (auto simp: final_pc_def)

text \<open>The branches of the step functions, one rule each.\<close>

inductive wake_rule :: "wake_system \<Rightarrow> wake_system \<Rightarrow> bool" where
  serve_awake: "wk_reqs s r = RNew \<Longrightarrow> observes_healthy (wk_c s) (wk_store s) \<Longrightarrow>
    wake_rule s (respond r None (log_event [SawHealthy (OfRequest r)] s))"
| serve_asleep: "wk_reqs s r = RNew \<Longrightarrow> wake_rule s (set_req r REnsure s)"
| join: "wk_reqs s r = REnsure \<Longrightarrow> wc_wakeInFlight (wk_c s) = Some w \<Longrightarrow> wk_now s \<le> u \<Longrightarrow>
    wake_rule s (log_event [Waits r w] (set_req r (RWait w) (s\<lparr>wk_now := u\<rparr>)))"
| poll_only: "wk_reqs s r = REnsure \<Longrightarrow> wc_wakeInFlight (wk_c s) = None \<Longrightarrow> wk_now s \<le> u \<Longrightarrow>
    wake_rule s (set_req r (RPoll d) (s\<lparr>wk_now := u\<rparr>))"
| start_wake: "wk_reqs s r = REnsure \<Longrightarrow> wc_wakeInFlight (wk_c s) = None \<Longrightarrow>
    wk_now s \<le> v \<Longrightarrow> v \<le> u \<Longrightarrow>
    wc_debounce (wk_c s) > 0 \<longrightarrow> wc_debounce (wk_c s) \<le> time_sub v (wc_lastWoLAt (wk_c s)) \<Longrightarrow>
    w = length (wc_heap (wk_c s)) \<Longrightarrow>
    wake_rule s (log_event [Started w u] (set_req r (RSpawn w)
      (s\<lparr>wk_c := (wk_c s)\<lparr>wc_heap := wc_heap (wk_c s) @ [\<lparr>iw_done = False, iw_err = None\<rparr>],
          wc_wakeInFlight := Some w, wc_lastWoLAt := u\<rparr>, wk_now := u\<rparr>)))"
| spawn: "wk_reqs s r = RSpawn w \<Longrightarrow>
    wake_rule s (log_event [Waits r w] (set_req r (RWait w) (set_worker w WStart
      (s\<lparr>wk_c := (wk_c s)\<lparr>wc_wg := Suc (wc_wg (wk_c s))\<rparr>\<rparr>))))"
| wait_done: "wk_reqs s r = RWait w \<Longrightarrow> iw_done (wc_heap (wk_c s) ! w) \<Longrightarrow>
    wake_rule s (respond r (iw_err (wc_heap (wk_c s) ! w)) s)"
| wait_ctx: "wk_reqs s r = RWait w \<Longrightarrow> wk_ctx s r = Some x \<Longrightarrow> errors_is e x \<Longrightarrow>
    wake_rule s (respond r (Some e) s)"
| poll_awake: "wk_reqs s r = RPoll d \<Longrightarrow> observes_healthy (wk_c s) (wk_store s) \<Longrightarrow>
    wake_rule s (respond r None (log_event [SawHealthy (OfRequest r)] s))"
| poll_error: "wk_reqs s r = RPoll d \<Longrightarrow> errors_is e ErrWakeTimeout \<Longrightarrow>
    wake_rule s (respond r (Some e) s)"
| again: "wake_rule s s"
| work_begin: "wk_workers s w = WStart \<Longrightarrow> wake_rule s (set_worker w (WSend d) s)"
| work_send: "wk_workers s w = WSend d \<Longrightarrow>
    wake_rule s (log_event [SentWoL w (wc_machineID (wk_c s))] (set_worker w (WPoll d) s))"
| work_awake: "wk_workers s w = WPoll d \<Longrightarrow> observes_healthy (wk_c s) (wk_store s) \<Longrightarrow>
    wake_rule s (log_event [SawHealthy (OfWake w)] (set_worker w (WRecord None) s))"
| work_error: "wk_workers s w = WPoll d \<Longrightarrow> errors_is e ErrWakeTimeout \<Longrightarrow>
    wake_rule s (set_worker w (WRecord (Some e)) s)"
| work_record: "wk_workers s w = WRecord err \<Longrightarrow>
    wake_rule s (set_worker w (WClose err) (s\<lparr>wk_c := performWake_record err (wk_c s)\<rparr>))"
| work_close: "wk_workers s w = WClose err \<Longrightarrow>
    wake_rule s (set_worker w WClear (s\<lparr>wk_c := performWake_close w err (wk_c s)\<rparr>))"
| work_clear: "wk_workers s w = WClear \<Longrightarrow>
    wake_rule s (set_worker w WExit (s\<lparr>wk_c := performWake_clear (wk_c s)\<rparr>))"
| work_exit: "wk_workers s w = WExit \<Longrightarrow>
    wake_rule s (set_worker w WGone (s\<lparr>wk_c := (wk_c s)\<lparr>wc_wg := wc_wg (wk_c s) - Suc 0\<rparr>\<rparr>))"
| close_signal: "wk_closers s k = CNew \<Longrightarrow>
    wake_rule s (s\<lparr>wk_c := WakeCoordinator_Close_signal (wk_c s), wk_closers := (wk_closers s)(k := CWait)\<rparr>)"
| close_return: "wk_closers s k = CWait \<Longrightarrow> wc_wg (wk_c s) = 0 \<Longrightarrow>
    wake_rule s (s\<lparr>wk_closers := (wk_closers s)(k := CReturned)\<rparr>)"
| cancel: "wk_ctx s r = None \<Longrightarrow> wake_rule s (s\<lparr>wk_ctx := (wk_ctx s)(r := Some x)\<rparr>)"
| health: "wake_rule s (s\<lparr>wk_store := st\<rparr>)"
| clock: "wk_now s \<le> u \<Longrightarrow> wake_rule s (s\<lparr>wk_now := u\<rparr>)"

lemma poll_select_cases:
  "poll_select c store ev = PollAgain \<or>
   (poll_select c store ev = PollReturn None \<and> observes_healthy c store) \<or>
   (\<exists>e. poll_select c store ev = PollReturn (Some e) \<and> errors_is e ErrWakeTimeout)"
  by (cases ev) auto

lemma ensureWake_rule:
  assumes "ensureWake_step r a b s = Some t"
  shows "wake_rule s t"
proof -
  have req: "wk_reqs s r = REnsure" "wk_now s \<le> a" "a \<le> b"
    using assms by (auto simp: ensureWake_step_def split: if_splits)
  show ?thesis
  proof (cases "wc_wakeInFlight (wk_c s)")
    case (Some w)
    then have "t = log_event [Waits r w] (set_req r (RWait w) (s\<lparr>wk_now := b\<rparr>))"
      using assms req by (simp add: ensureWake_step_def ensureWake_def)
    with Some req show ?thesis by (simp add: join)
  next
    case None
    show ?thesis
    proof (cases "wc_debounce (wk_c s) > 0 \<and> time_sub a (wc_lastWoLAt (wk_c s)) < wc_debounce (wk_c s)")
      case True
      then have "t = set_req r (RPoll (b + wc_wakeTimeout (wk_c s))) (s\<lparr>wk_now := b\<rparr>)"
        using assms req None by (simp add: ensureWake_step_def ensureWake_def)
      with None req show ?thesis by (simp add: poll_only)
    next
      case False
      then show ?thesis
        using assms req None start_wake [of s r a b "length (wc_heap (wk_c s))"]
        by (auto simp: ensureWake_step_def ensureWake_def Let_def)
    qed
  qed
qed

lemma waitForWake_rule: "waitForWake_step r ev s = Some t \<Longrightarrow> wake_rule s t"
  using wait_done [of s r] wait_ctx [of s r]
  by (cases "wk_reqs s r"; cases ev) (auto simp: waitForWake_step_def split: if_splits)

lemma pollUntilHealthy_rule: "pollUntilHealthy_step r ev s = Some t \<Longrightarrow> wake_rule s t"
  using poll_awake [of s r] poll_error [of s r] again [of s]
    poll_select_cases [of "wk_c s" "wk_store s" ev]
  by (cases "wk_reqs s r") (auto simp: pollUntilHealthy_step_def split: if_splits)

lemma performWake_rule: "performWake_step w ev s = Some t \<Longrightarrow> wake_rule s t"
proof (cases "wk_workers s w")
  case (WPoll d)
  assume "performWake_step w ev s = Some t"
  then show ?thesis
    using work_awake [of s w] work_error [of s w] again [of s] WPoll
      poll_select_cases [of "wk_c s" "wk_store s" ev]
    by (auto simp: performWake_step_def split: if_splits)
qed (auto simp: performWake_step_def intro: wake_rule.intros)

lemma Close_rule: "Close_step k s = Some t \<Longrightarrow> wake_rule s t"
  using close_signal [of s k] close_return [of s k]
  by (cases "wk_closers s k") (auto simp: Close_step_def split: if_splits)

lemma exec_rule: "wake_exec a s = Some t \<Longrightarrow> wake_rule s t"
proof (cases a)
  case (AServe r)
  assume "wake_exec a s = Some t"
  with AServe show ?thesis
    by (auto simp: ServeHTTP_check_def split: if_splits intro: serve_awake serve_asleep)
next
  case (ASpawn r)
  assume "wake_exec a s = Some t"
  with ASpawn show ?thesis
    by (auto simp: spawn_step_def split: request_pc.splits intro: spawn)
next
  case (AClock u)
  assume "wake_exec a s = Some t"
  with AClock show ?thesis
    by (auto split: if_splits intro: clock)
next
  case (ACancel r x)
  assume "wake_exec a s = Some t"
  with ACancel show ?thesis
    by (auto split: if_splits intro: cancel)
qed (auto intro: ensureWake_rule waitForWake_rule pollUntilHealthy_rule performWake_rule Close_rule health)

lemma step_rule: "wake_step s t \<Longrightarrow> wake_rule s t"
  by (erule wake_stepE) (rule exec_rule)

end
