(* ===== verification/WakeSafety.thy ===== *)
theory WakeSafety
  imports WakeSystem
begin

text \<open>
  Invariants of the wake system and the properties they give: concurrent requests share one wake,
  wakes keep the debounce distance, a request is forwarded only after a healthy observation and
  rejected only for a timeout, a closed coordinator or its own context, no request is stuck, and
  what \<open>Close\<close> does and does not wait for.
\<close>

section \<open>At most one wake at a time\<close>

definition finished :: "worker_pc \<Rightarrow> bool" where
  "finished pc \<longleftrightarrow> pc = WExit \<or> pc = WGone"

definition published :: "worker_pc \<Rightarrow> bool" where
  "published pc \<longleftrightarrow> pc = WClear \<or> finished pc"

lemma finished_simps [simp]:
  "finished WExit" "finished WGone" "\<not> finished WNone" "\<not> finished WStart" "\<not> finished (WSend d)"
  "\<not> finished (WPoll d)" "\<not> finished (WRecord err)" "\<not> finished (WClose err)" "\<not> finished WClear"
  by (simp_all add: finished_def)

lemma published_simps [simp]:
  "published WExit" "published WGone" "\<not> published WNone" "\<not> published WStart" "\<not> published (WSend d)"
  "\<not> published (WPoll d)" "\<not> published (WRecord err)" "\<not> published (WClose err)" "published WClear"
  by (simp_all add: published_def)

lemma perform_sel [simp]:
  "wc_heap (performWake_record err c) = wc_heap c"
  "wc_wakeInFlight (performWake_record err c) = wc_wakeInFlight c"
  "wc_wg (performWake_record err c) = wc_wg c"
  "wc_lastWoLAt (performWake_record err c) = wc_lastWoLAt c"
  "wc_debounce (performWake_record err c) = wc_debounce c"
  "wc_done (performWake_record err c) = wc_done c"
  "wc_heap (performWake_close w err c) = (wc_heap c)[w := \<lparr>iw_done = True, iw_err = err\<rparr>]"
  "wc_wakeInFlight (performWake_close w err c) = wc_wakeInFlight c"
  "wc_wg (performWake_close w err c) = wc_wg c"
  "wc_lastWoLAt (performWake_close w err c) = wc_lastWoLAt c"
  "wc_debounce (performWake_close w err c) = wc_debounce c"
  "wc_done (performWake_close w err c) = wc_done c"
  "wc_heap (performWake_clear c) = wc_heap c"
  "wc_wakeInFlight (performWake_clear c) = None"
  "wc_wg (performWake_clear c) = wc_wg c"
  "wc_lastWoLAt (performWake_clear c) = wc_lastWoLAt c"
  "wc_debounce (performWake_clear c) = wc_debounce c"
  "wc_done (performWake_clear c) = wc_done c"
  "wc_heap (WakeCoordinator_Close_signal c) = wc_heap c"
  "wc_wakeInFlight (WakeCoordinator_Close_signal c) = wc_wakeInFlight c"
  "wc_wg (WakeCoordinator_Close_signal c) = wc_wg c"
  "wc_lastWoLAt (WakeCoordinator_Close_signal c) = wc_lastWoLAt c"
  "wc_debounce (WakeCoordinator_Close_signal c) = wc_debounce c"
  "wc_done (WakeCoordinator_Close_signal c)"
  by (simp_all add: performWake_record_def performWake_close_def performWake_clear_def
      WakeCoordinator_Close_signal_def)

definition core_inv :: "wake_system \<Rightarrow> bool" where
  "core_inv s \<longleftrightarrow>
     (\<forall>w. wk_workers s w \<noteq> WNone \<longrightarrow> w < length (wc_heap (wk_c s))) \<and>
     (\<forall>r w. wk_reqs s r = RSpawn w \<longrightarrow>
        wc_wakeInFlight (wk_c s) = Some w \<and> wk_workers s w = WNone \<and>
        (\<forall>r'. wk_reqs s r' = RSpawn w \<longrightarrow> r' = r)) \<and>
     (\<forall>w. w < length (wc_heap (wk_c s)) \<longrightarrow> wc_wakeInFlight (wk_c s) \<noteq> Some w \<longrightarrow>
        finished (wk_workers s w)) \<and>
     (\<forall>w. wc_wakeInFlight (wk_c s) = Some w \<longrightarrow>
        w < length (wc_heap (wk_c s)) \<and> \<not> finished (wk_workers s w) \<and>
        (wk_workers s w = WNone \<longrightarrow> (\<exists>r. wk_reqs s r = RSpawn w))) \<and>
     (\<forall>w. w < length (wc_heap (wk_c s)) \<longrightarrow>
        iw_done (wc_heap (wk_c s) ! w) = published (wk_workers s w))"

lemma core_invD:
  assumes "core_inv s"
  shows "wk_workers s w \<noteq> WNone \<Longrightarrow> w < length (wc_heap (wk_c s))"
    and "wk_reqs s r = RSpawn w \<Longrightarrow> wc_wakeInFlight (wk_c s) = Some w"
    and "wk_reqs s r = RSpawn w \<Longrightarrow> wk_workers s w = WNone"
    and "wk_reqs s r = RSpawn w \<Longrightarrow> wk_reqs s r' = RSpawn w \<Longrightarrow> r' = r"
    and "w < length (wc_heap (wk_c s)) \<Longrightarrow> \<not> finished (wk_workers s w) \<Longrightarrow> wc_wakeInFlight (wk_c s) = Some w"
    and "wc_wakeInFlight (wk_c s) = Some w \<Longrightarrow> w < length (wc_heap (wk_c s))"
    and "wc_wakeInFlight (wk_c s) = Some w \<Longrightarrow> \<not> finished (wk_workers s w)"
    and "wc_wakeInFlight (wk_c s) = Some w \<Longrightarrow> wk_workers s w = WNone \<Longrightarrow> \<exists>r. wk_reqs s r = RSpawn w"
    and "w < length (wc_heap (wk_c s)) \<Longrightarrow> iw_done (wc_heap (wk_c s) ! w) = published (wk_workers s w)"
  using assms unfolding core_inv_def by blast+

lemma core_frame:
  assumes "core_inv s" and "wk_workers t = wk_workers s" and "wc_heap (wk_c t) = wc_heap (wk_c s)"
    and "wc_wakeInFlight (wk_c t) = wc_wakeInFlight (wk_c s)"
    and "\<And>r w. wk_reqs t r = RSpawn w \<longleftrightarrow> wk_reqs s r = RSpawn w"
  shows "core_inv t"
  using assms(1) unfolding core_inv_def assms(2-5) .

lemma core_request:
  assumes "core_inv s" and "wk_workers t = wk_workers s" and "wc_heap (wk_c t) = wc_heap (wk_c s)"
    and "wc_wakeInFlight (wk_c t) = wc_wakeInFlight (wk_c s)"
    and "wk_reqs t = (wk_reqs s)(r := pc)" and "\<And>w. pc \<noteq> RSpawn w" and "\<And>w. wk_reqs s r \<noteq> RSpawn w"
  shows "core_inv t"
  by (rule core_frame [OF assms(1-4)]) (use assms(5-7) in auto)

lemma core_worker:
  assumes inv: "core_inv s" and eqs: "wk_reqs t = wk_reqs s" "wk_workers t = (wk_workers s)(w := pc)"
    "wc_heap (wk_c t) = wc_heap (wk_c s)" "wc_wakeInFlight (wk_c t) = wc_wakeInFlight (wk_c s)"
    and pc: "wk_workers s w \<noteq> WNone" "pc \<noteq> WNone" "finished pc = finished (wk_workers s w)"
    "published pc = published (wk_workers s w)"
  shows "core_inv t"
proof -
  have "wk_reqs s r \<noteq> RSpawn w" for r
    using core_invD(3) [OF inv] pc(1) by auto
  with inv pc show ?thesis
    unfolding core_inv_def eqs by simp
qed

lemma core_step:
  assumes inv: "core_inv s" and step: "wake_rule s t"
  shows "core_inv t"
  using step
proof (cases rule: wake_rule.cases)
  case (start_wake r v u w)
  define n where "n = length (wc_heap (wk_c s))"
  have fin: "k < n \<Longrightarrow> finished (wk_workers s k)" for k
    using inv start_wake(3) by (auto simp: core_inv_def n_def)
  have old: "wk_workers s k \<noteq> WNone \<Longrightarrow> k < n" for k
    using core_invD(1) [OF inv] by (simp add: n_def)
  then have new: "wk_workers s n = WNone" by fastforce
  have nospawn: "wk_reqs s k \<noteq> RSpawn k'" for k k'
    using core_invD(2) [OF inv] start_wake(3) by fastforce
  have eqs: "wk_workers t = wk_workers s" "wk_reqs t = (wk_reqs s)(r := RSpawn n)"
    "wc_heap (wk_c t) = wc_heap (wk_c s) @ [\<lparr>iw_done = False, iw_err = None\<rparr>]"
    "wc_wakeInFlight (wk_c t) = Some n"
    using start_wake by (simp_all add: n_def)
  have len: "length (wc_heap (wk_c s)) = n" by (simp add: n_def)
  show ?thesis
    unfolding core_inv_def eqs
  proof (intro conjI allI impI)
    fix k
    assume "k < length (wc_heap (wk_c s) @ [\<lparr>iw_done = False, iw_err = None\<rparr>])"
    then show "iw_done ((wc_heap (wk_c s) @ [\<lparr>iw_done = False, iw_err = None\<rparr>]) ! k) = published (wk_workers s k)"
      using core_invD(9) [OF inv, of k] new
      by (cases "k < n") (auto simp: nth_append len less_Suc_eq)
  next
    fix k
    assume "k < length (wc_heap (wk_c s) @ [\<lparr>iw_done = False, iw_err = None\<rparr>])" "Some n \<noteq> Some k"
    then show "finished (wk_workers s k)" using fin by (simp add: len less_Suc_eq)
  qed (use old new nospawn len in \<open>auto simp: less_Suc_eq split: if_splits\<close>)
next
  case (spawn r w)
  have eqs: "wk_workers t = (wk_workers s)(w := WStart)" "wk_reqs t = (wk_reqs s)(r := RWait w)"
    "wc_heap (wk_c t) = wc_heap (wk_c s)" "wc_wakeInFlight (wk_c t) = Some w"
    using spawn core_invD(2) [OF inv, of r w] by simp_all
  have nospawn: "k \<noteq> r \<Longrightarrow> wk_reqs s k \<noteq> RSpawn w'" for k w'
    using core_invD(2) [OF inv, of k w'] core_invD(2) [OF inv, of r w] core_invD(4) [OF inv, of k w' r]
      core_invD(4) [OF inv, of r w k] spawn
    by auto
  have w: "w < length (wc_heap (wk_c s))" "wc_wakeInFlight (wk_c s) = Some w"
    "wk_workers s w = WNone"
    using core_invD(2) [OF inv, of r w] core_invD(3) [OF inv, of r w] core_invD(6) [OF inv, of w] spawn
    by simp_all
  show ?thesis
    unfolding core_inv_def eqs
  proof (intro conjI allI impI)
    fix k assume "k < length (wc_heap (wk_c s))"
    then show "iw_done (wc_heap (wk_c s) ! k) = published (((wk_workers s)(w := WStart)) k)"
      using core_invD(9) [OF inv, of k] w by simp
  next
    fix k assume "k < length (wc_heap (wk_c s))" "Some w \<noteq> Some k"
    then show "finished (((wk_workers s)(w := WStart)) k)"
      using core_invD(5) [OF inv, of k] w by auto
  next
    fix k assume "((wk_workers s)(w := WStart)) k \<noteq> WNone"
    then show "k < length (wc_heap (wk_c s))"
      using core_invD(1) [OF inv, of k] w by (cases "k = w") auto
  qed (use nospawn w in \<open>auto split: if_splits\<close>)
next
  case (work_close w err)
  then have w: "wc_wakeInFlight (wk_c s) = Some w"
    using core_invD(1,5) [OF inv, of w] by simp
  have "wk_reqs s k \<noteq> RSpawn k'" for k k'
    using core_invD(2,3) [OF inv, of k k'] work_close w by auto
  then show ?thesis
    using inv work_close w unfolding core_inv_def by (simp add: nth_list_update)
next
  case (work_clear w)
  then have w: "wc_wakeInFlight (wk_c s) = Some w"
    using core_invD(1,5) [OF inv, of w] by simp
  have nospawn: "wk_reqs s k \<noteq> RSpawn k'" for k k'
    using core_invD(2,3) [OF inv, of k k'] work_clear w by auto
  have "k < length (wc_heap (wk_c s)) \<Longrightarrow> k \<noteq> w \<Longrightarrow> finished (wk_workers s k)" for k
    using core_invD(5) [OF inv, of k] w by auto
  then show ?thesis
    using core_invD(1,9) [OF inv] nospawn work_clear unfolding core_inv_def by simp
qed (auto intro: core_frame [OF inv] core_worker [OF inv] core_request [OF inv])

lemma core_boot: "wc_wakeInFlight c = None \<Longrightarrow> wc_heap c = [] \<Longrightarrow> core_inv (wake_boot c store t)"
  by (simp add: core_inv_def wake_boot_def)

section \<open>The wait group\<close>

text \<open>Goroutines that have been added to the wait group and not yet left it.\<close>

definition tracked :: "wake_system \<Rightarrow> nat set" where
  "tracked s = {w. wk_workers s w \<noteq> WNone \<and> wk_workers s w \<noteq> WGone}"

definition wg_inv :: "wake_system \<Rightarrow> bool" where
  "wg_inv s \<longleftrightarrow> finite (tracked s) \<and> wc_wg (wk_c s) = card (tracked s)"

lemma wg_same:
  "wg_inv s \<Longrightarrow> wk_workers t = wk_workers s \<Longrightarrow> wc_wg (wk_c t) = wc_wg (wk_c s) \<Longrightarrow> wg_inv t"
  by (simp add: wg_inv_def tracked_def)

lemma wg_worker:
  assumes "wg_inv s" and "wk_workers t = (wk_workers s)(w := pc)" and "wc_wg (wk_c t) = wc_wg (wk_c s)"
    and "pc \<noteq> WNone" and "pc \<noteq> WGone" and "wk_workers s w \<noteq> WNone" and "wk_workers s w \<noteq> WGone"
  shows "wg_inv t"
proof -
  have "tracked t = tracked s" using assms by (auto simp: tracked_def split: if_splits)
  with assms show ?thesis by (simp add: wg_inv_def)
qed

lemma wg_step:
  assumes core: "core_inv s" and inv: "wg_inv s" and step: "wake_rule s t"
  shows "wg_inv t"
  using step
proof (cases rule: wake_rule.cases)
  case (spawn r w)
  then have "tracked t = insert w (tracked s)" "w \<notin> tracked s"
    using core_invD(3) [OF core, of r w] by (auto simp: tracked_def split: if_splits)
  then show ?thesis
    using inv spawn by (simp add: wg_inv_def)
next
  case (work_exit w)
  then have "tracked t = tracked s - {w}" "w \<in> tracked s"
    by (auto simp: tracked_def split: if_splits)
  then show ?thesis
    using inv work_exit by (simp add: wg_inv_def)
qed (auto intro: wg_same [OF inv] wg_worker [OF inv])

section \<open>The log\<close>

definition saw :: "wake_system \<Rightarrow> wake_actor \<Rightarrow> bool" where
  "saw s a \<longleftrightarrow> SawHealthy a \<in> set (wk_log s)"

definition released_by_wake :: "wake_system \<Rightarrow> nat \<Rightarrow> bool" where
  "released_by_wake s r \<longleftrightarrow> (\<exists>w < length (wc_heap (wk_c s)). Waits r w \<in> set (wk_log s) \<and> saw s (OfWake w))"

definition rejection_ok :: "wake_system \<Rightarrow> nat \<Rightarrow> wake_error \<Rightarrow> bool" where
  "rejection_ok s r e \<longleftrightarrow>
     errors_is e ErrWakeTimeout \<or> (\<exists>x. wk_ctx s r = Some x \<and> errors_is e x)"

text \<open>A result that a wake holds or has published is backed by what the wake observed.\<close>

definition backed :: "wake_system \<Rightarrow> nat \<Rightarrow> wake_error option \<Rightarrow> bool" where
  "backed s w res \<longleftrightarrow> (case res of None \<Rightarrow> saw s (OfWake w) | Some e \<Rightarrow> errors_is e ErrWakeTimeout)"

definition result_inv :: "wake_system \<Rightarrow> bool" where
  "result_inv s \<longleftrightarrow>
     (\<forall>w err. wk_workers s w = WRecord err \<or> wk_workers s w = WClose err \<longrightarrow> backed s w err) \<and>
     (\<forall>w. published (wk_workers s w) \<longrightarrow> backed s w (iw_err (wc_heap (wk_c s) ! w)))"

definition log_inv :: "wake_system \<Rightarrow> bool" where
  "log_inv s \<longleftrightarrow>
     (\<forall>r w. wk_reqs s r = RWait w \<longrightarrow> w < length (wc_heap (wk_c s)) \<and> Waits r w \<in> set (wk_log s)) \<and>
     (\<forall>r. Forwarded r \<in> set (wk_log s) \<longrightarrow> saw s (OfRequest r) \<or> released_by_wake s r) \<and>
     (\<forall>r e. Rejected r e \<in> set (wk_log s) \<longrightarrow> rejection_ok s r e)"

text \<open>Steps only extend the log and the heap, and a request's context is done for good.\<close>

lemma rule_mono:
  assumes "wake_rule s t"
  shows "\<exists>es. wk_log t = wk_log s @ es" and "length (wc_heap (wk_c s)) \<le> length (wc_heap (wk_c t))"
    and "wk_ctx s r = Some x \<Longrightarrow> wk_ctx t r = Some x"
    and "wc_machineID (wk_c t) = wc_machineID (wk_c s)" and "wc_debounce (wk_c t) = wc_debounce (wk_c s)"
    and "wk_now s \<le> wk_now t"
  using assms
  by (cases rule: wake_rule.cases; auto simp: performWake_record_def performWake_close_def
      performWake_clear_def WakeCoordinator_Close_signal_def)+

lemma mono_log: "wake_rule s t \<Longrightarrow> e \<in> set (wk_log s) \<Longrightarrow> e \<in> set (wk_log t)"
  using rule_mono(1) by fastforce

lemma backed_mono: "wake_rule s t \<Longrightarrow> backed s w res \<Longrightarrow> backed t w res"
  using mono_log by (auto simp: backed_def saw_def split: option.splits)

lemma released_mono: "wake_rule s t \<Longrightarrow> released_by_wake s r \<Longrightarrow> released_by_wake t r"
  using mono_log rule_mono(2) [of s t] unfolding released_by_wake_def saw_def
  by (meson order_less_le_trans)

lemma rejection_mono: "wake_rule s t \<Longrightarrow> rejection_ok s r e \<Longrightarrow> rejection_ok t r e"
  using rule_mono(3) [of s t r] by (auto simp: rejection_ok_def)

text \<open>What a step adds to the log or changes at a worker, classified.\<close>

lemma heap_result:
  assumes core: "core_inv s" and step: "wake_rule s t" and "published (wk_workers s w)"
  shows "published (wk_workers t w)" "iw_err (wc_heap (wk_c t) ! w) = iw_err (wc_heap (wk_c s) ! w)"
proof -
  have w: "w < length (wc_heap (wk_c s))"
    using core_invD(1) [OF core, of w] assms(3) by (auto simp: published_def finished_def)
  have nospawn: "wk_reqs s r \<noteq> RSpawn w" for r
    using core_invD(3) [OF core, of r w] assms(3) by auto
  show "published (wk_workers t w)"
    using step assms(3) nospawn by (cases rule: wake_rule.cases) auto
  show "iw_err (wc_heap (wk_c t) ! w) = iw_err (wc_heap (wk_c s) ! w)"
    using step
  proof (cases rule: wake_rule.cases)
    case (work_close w' err)
    then have "w' \<noteq> w" using assms(3) by auto
    with work_close show ?thesis by simp
  qed (use w in \<open>auto simp: nth_append\<close>)
qed

lemma result_step:
  assumes core: "core_inv s" and inv: "result_inv s" and step: "wake_rule s t"
  shows "result_inv t"
proof -
  have pend: "backed s w err" if "wk_workers s w = WRecord err \<or> wk_workers s w = WClose err" for w err
    using inv that unfolding result_inv_def by blast
  have pub: "backed s w (iw_err (wc_heap (wk_c s) ! w))" if "published (wk_workers s w)" for w
    using inv that unfolding result_inv_def by blast
  have "backed t w err" if w: "wk_workers t w = WRecord err \<or> wk_workers t w = WClose err" for w err
  proof (cases "wk_workers s w = WRecord err \<or> wk_workers s w = WClose err")
    case True
    then show ?thesis by (rule backed_mono [OF step pend])
  next
    case False
    with step w show ?thesis
      by (cases rule: wake_rule.cases) (auto simp: backed_def saw_def split: if_splits)
  qed
  moreover have "backed t w (iw_err (wc_heap (wk_c t) ! w))" if w: "published (wk_workers t w)" for w
  proof (cases "published (wk_workers s w)")
    case True
    with heap_result [OF core step True] backed_mono [OF step pub [OF True]] show ?thesis by simp
  next
    case False
    from step w False obtain err where e: "wk_workers s w = WClose err"
        "t = set_worker w WClear (s\<lparr>wk_c := performWake_close w err (wk_c s)\<rparr>)"
      by (cases rule: wake_rule.cases) (auto split: if_splits)
    then have "iw_err (wc_heap (wk_c t) ! w) = err"
      using core_invD(1) [OF core, of w] by simp
    with backed_mono [OF step pend [of w err]] e show ?thesis by simp
  qed
  ultimately show ?thesis unfolding result_inv_def by blast
qed

lemma iw_err_backed:
  assumes "core_inv s" and "result_inv s" and "w < length (wc_heap (wk_c s))"
    and "iw_done (wc_heap (wk_c s) ! w)"
  shows "backed s w (iw_err (wc_heap (wk_c s) ! w))"
  using core_invD(9) [OF assms(1,3)] assms(2,4) by (simp add: result_inv_def)

lemma log_step:
  assumes core: "core_inv s" and res: "result_inv s" and inv: "log_inv s" and step: "wake_rule s t"
  shows "log_inv t"
proof -
  have waits: "wk_reqs s r = RWait w \<Longrightarrow> w < length (wc_heap (wk_c s)) \<and> Waits r w \<in> set (wk_log s)"
    and fwd: "Forwarded r \<in> set (wk_log s) \<Longrightarrow> saw s (OfRequest r) \<or> released_by_wake s r"
    and rej: "Rejected r e \<in> set (wk_log s) \<Longrightarrow> rejection_ok s r e" for r w e
    using inv by (simp_all add: log_inv_def)
  have spawned: "wk_reqs s r = RSpawn w \<Longrightarrow> w < length (wc_heap (wk_c s))" for r w
    using core_invD(2,6) [OF core] by metis
  have inflight: "wc_wakeInFlight (wk_c s) = Some w \<Longrightarrow> w < length (wc_heap (wk_c s))" for w
    by (rule core_invD(6) [OF core])
  have "w < length (wc_heap (wk_c t)) \<and> Waits r w \<in> set (wk_log t)" if r: "wk_reqs t r = RWait w" for r w
  proof (cases "wk_reqs s r = RWait w")
    case True
    then show ?thesis using waits [of r w] mono_log [OF step] rule_mono(2) [OF step] by fastforce
  next
    case False
    with step r show ?thesis
      by (cases rule: wake_rule.cases) (auto split: if_splits dest: spawned inflight)
  qed
  moreover have "saw t (OfRequest r) \<or> released_by_wake t r" if r: "Forwarded r \<in> set (wk_log t)" for r
  proof (cases "Forwarded r \<in> set (wk_log s)")
    case True
    then show ?thesis using fwd [of r] mono_log [OF step] released_mono [OF step] by (auto simp: saw_def)
  next
    case False
    from step r False show ?thesis
    proof (cases rule: wake_rule.cases)
      case (wait_done r' w)
      then have "r' = r" "iw_err (wc_heap (wk_c s) ! w) = None"
        using r False by (auto simp: final_event_def split: option.splits)
      moreover from this have "saw s (OfWake w)"
        using iw_err_backed [OF core res, of w] waits [of r w] wait_done by (simp add: backed_def)
      ultimately have "released_by_wake s r"
        using waits [of r w] wait_done by (auto simp: released_by_wake_def)
      then show ?thesis using released_mono [OF step] by blast
    qed (auto simp: saw_def final_event_def)
  qed
  moreover have "rejection_ok t r e" if r: "Rejected r e \<in> set (wk_log t)" for r e
  proof (cases "Rejected r e \<in> set (wk_log s)")
    case True
    then show ?thesis using rej rejection_mono [OF step] by blast
  next
    case False
    from step r False show ?thesis
    proof (cases rule: wake_rule.cases)
      case (wait_done r' w)
      then have "r' = r" "iw_err (wc_heap (wk_c s) ! w) = Some e"
        using r False by (auto simp: final_event_def split: option.splits)
      then have "errors_is e ErrWakeTimeout"
        using iw_err_backed [OF core res, of w] waits [of r w] wait_done by (simp add: backed_def)
      then show ?thesis by (simp add: rejection_ok_def)
    qed (auto simp: rejection_ok_def final_event_def)
  qed
  ultimately show ?thesis unfolding log_inv_def by blast
qed

section \<open>Wake-on-LAN commands and the debounce interval\<close>

text \<open>The commands sent for one wake, and the times at which wakes were started.\<close>

definition sends :: "nat \<Rightarrow> wake_event list \<Rightarrow> nat" where
  "sends w l = length (filter (\<lambda>e. case e of SentWoL w' m \<Rightarrow> w' = w | _ \<Rightarrow> False) l)"

fun start_times :: "wake_event list \<Rightarrow> time list" where
  "start_times [] = []"
| "start_times (Started w t # es) = t # start_times es"
| "start_times (e # es) = start_times es"

fun at_least_apart :: "duration \<Rightarrow> time list \<Rightarrow> bool" where
  "at_least_apart d (t # u # ts) = (t + d \<le> u \<and> at_least_apart d (u # ts))"
| "at_least_apart d ts = True"

lemma start_times_append [simp]: "start_times (l @ k) = start_times l @ start_times k"
  by (induction l rule: start_times.induct) auto

lemma at_least_apart_snoc: "at_least_apart d (ts @ [t]) \<longleftrightarrow> at_least_apart d ts \<and> (ts \<noteq> [] \<longrightarrow> last ts + d \<le> t)"
  by (induction d ts rule: at_least_apart.induct) auto

lemma sends_append [simp]: "sends w (l @ k) = sends w l + sends w k"
  by (simp add: sends_def)

lemma sends_simps [simp]:
  "sends w [] = 0" "sends w (SentWoL w' m # l) = (if w' = w then 1 else 0) + sends w l"
  "sends w (Started w' t # l) = sends w l" "sends w (SawHealthy a # l) = sends w l"
  "sends w (Waits r w' # l) = sends w l" "sends w (final_event r res # l) = sends w l"
  by (auto simp: sends_def final_event_def split: option.splits)

definition unsent :: "worker_pc \<Rightarrow> bool" where
  "unsent pc \<longleftrightarrow> (case pc of WNone \<Rightarrow> True | WStart \<Rightarrow> True | WSend d \<Rightarrow> True | _ \<Rightarrow> False)"

definition send_inv :: "wake_system \<Rightarrow> bool" where
  "send_inv s \<longleftrightarrow>
     (\<forall>w. sends w (wk_log s) = (if unsent (wk_workers s w) then 0 else 1)) \<and>
     (\<forall>w m. SentWoL w m \<in> set (wk_log s) \<longrightarrow> m = wc_machineID (wk_c s)) \<and>
     length (start_times (wk_log s)) = length (wc_heap (wk_c s))"

lemma send_step:
  assumes core: "core_inv s" and inv: "send_inv s" and step: "wake_rule s t"
  shows "send_inv t"
proof -
  have "sends w (wk_log t) = (if unsent (wk_workers t w) then 0 else 1)" for w
  proof -
    have "sends w (wk_log s) = (if unsent (wk_workers s w) then 0 else 1)"
      using inv by (simp add: send_inv_def)
    with step show ?thesis
      using core_invD(3) [OF core, of _ w]
      by (cases rule: wake_rule.cases) (auto simp: unsent_def split: if_splits)
  qed
  moreover have "m = wc_machineID (wk_c t)" if "SentWoL w m \<in> set (wk_log t)" for w m
  proof -
    have "SentWoL w m \<in> set (wk_log s) \<Longrightarrow> m = wc_machineID (wk_c s)"
      using inv by (simp add: send_inv_def)
    with step that have "m = wc_machineID (wk_c s)"
      by (cases rule: wake_rule.cases) (auto simp: final_event_def split: option.splits)
    with rule_mono(4) [OF step] show ?thesis by simp
  qed
  moreover have "length (start_times (wk_log t)) = length (wc_heap (wk_c t))"
    using step inv by (cases rule: wake_rule.cases) (auto simp: send_inv_def final_event_def split: option.splits)
  ultimately show ?thesis by (simp add: send_inv_def)
qed

definition debounce_inv :: "wake_system \<Rightarrow> bool" where
  "debounce_inv s \<longleftrightarrow>
     (0 < wc_debounce (wk_c s) \<and> wc_debounce (wk_c s) \<le> max_int64 \<longrightarrow>
       at_least_apart (wc_debounce (wk_c s)) (start_times (wk_log s))) \<and>
     (start_times (wk_log s) \<noteq> [] \<longrightarrow> last (start_times (wk_log s)) = wc_lastWoLAt (wk_c s))"

lemma debounce_frame:
  "debounce_inv s \<Longrightarrow> start_times (wk_log t) = start_times (wk_log s) \<Longrightarrow>
   wc_debounce (wk_c t) = wc_debounce (wk_c s) \<Longrightarrow> wc_lastWoLAt (wk_c t) = wc_lastWoLAt (wk_c s) \<Longrightarrow> debounce_inv t"
  by (simp add: debounce_inv_def)

lemma start_times_final [simp]: "start_times (final_event r res # l) = start_times l"
  by (simp add: final_event_def split: option.splits)

lemma debounce_step:
  assumes inv: "debounce_inv s" and step: "wake_rule s t"
  shows "debounce_inv t"
  using step
proof (cases rule: wake_rule.cases)
  case (start_wake r v u w)
  let ?d = "wc_debounce (wk_c s)"
  have st: "start_times (wk_log t) = start_times (wk_log s) @ [u]"
    "wc_debounce (wk_c t) = ?d" "wc_lastWoLAt (wk_c t) = u"
    using start_wake by simp_all
  have "wc_lastWoLAt (wk_c s) + ?d \<le> u" if "0 < ?d" "?d \<le> max_int64"
  proof -
    have "?d \<le> time_sub v (wc_lastWoLAt (wk_c s))" using start_wake that by simp
    then have "wc_lastWoLAt (wk_c s) + ?d \<le> v"
      using time_sub_ge_iff [of ?d v "wc_lastWoLAt (wk_c s)"] that by (simp add: min_int64_def)
    with start_wake show ?thesis by simp
  qed
  with inv show ?thesis by (auto simp: debounce_inv_def st at_least_apart_snoc)
qed (auto intro: debounce_frame [OF inv])

section \<open>Reachable states\<close>

definition fresh_coordinator :: "wake_coordinator \<Rightarrow> bool" where
  "fresh_coordinator c \<longleftrightarrow>
     wc_heap c = [] \<and> wc_wakeInFlight c = None \<and> wc_wg c = 0 \<and> \<not> wc_done c \<and> wc_lastWoLAt c = 0"

definition wake_init :: "wake_system \<Rightarrow> bool" where
  "wake_init s \<longleftrightarrow> fresh_coordinator (wk_c s) \<and> s = wake_boot (wk_c s) (wk_store s) (wk_now s)"

definition wake_inv :: "wake_system \<Rightarrow> bool" where
  "wake_inv s \<longleftrightarrow> core_inv s \<and> wg_inv s \<and> result_inv s \<and> log_inv s \<and> send_inv s \<and> debounce_inv s"

lemma NewWakeCoordinator_fresh:
  "NewWakeCoordinator cfg ds ws hs lg m = Inr c \<Longrightarrow> fresh_coordinator c"
  by (auto simp: NewWakeCoordinator_def fresh_coordinator_def split: option.splits)

lemma NewWakeCoordinator_config:
  "NewWakeCoordinator cfg ds ws hs lg m = Inr c \<Longrightarrow>
     wc_debounce c = wcc_Debounce cfg \<and> wc_machineID c = wcc_MachineID cfg \<and>
     wc_serverID c = wcc_ServerID cfg \<and> wc_wakeTimeout c = wcc_WakeTimeout cfg"
  by (auto simp: NewWakeCoordinator_def split: option.splits)

lemma boot_inv:
  assumes "fresh_coordinator c"
  shows "wake_inv (wake_boot c store t)"
proof -
  have "tracked (wake_boot c store t) = {}" by (simp add: tracked_def wake_boot_def)
  then have "wg_inv (wake_boot c store t)"
    using assms by (simp add: wg_inv_def fresh_coordinator_def) (simp add: wake_boot_def)
  moreover have "core_inv (wake_boot c store t)"
    by (rule core_boot) (use assms in \<open>simp_all add: fresh_coordinator_def\<close>)
  ultimately show ?thesis
    using assms
    by (simp add: wake_inv_def result_inv_def log_inv_def send_inv_def debounce_inv_def wake_boot_def
        fresh_coordinator_def unsent_def)
qed

lemma wake_inv_step: "wake_inv s \<Longrightarrow> wake_step s t \<Longrightarrow> wake_inv t"
  using core_step wg_step result_step log_step send_step debounce_step step_rule
  unfolding wake_inv_def by blast

interpretation wakes: invariant_system wake_init wake_step wake_inv
proof
  fix s assume "wake_init s"
  then show "wake_inv s" unfolding wake_init_def using boot_inv by metis
qed (rule wake_inv_step)

lemma reachable_wake_inv:
  assumes "NewWakeCoordinator cfg ds ws hs lg m = Inr c" and "wake_step\<^sup>*\<^sup>* (wake_boot c store t0) s"
  shows "wake_inv s"
  using wakes.steps_inv [OF assms(2)] boot_inv [OF NewWakeCoordinator_fresh [OF assms(1)]] by blast

lemma steps_static:
  "wake_step\<^sup>*\<^sup>* s t \<Longrightarrow> wc_debounce (wk_c t) = wc_debounce (wk_c s) \<and> wc_machineID (wk_c t) = wc_machineID (wk_c s)"
  by (induction rule: rtranclp_induct) (auto simp: rule_mono(4,5) [OF step_rule])

section \<open>No request is stuck\<close>

text \<open>From any reachable state a wake in progress can run to the point where its result is out.\<close>

fun work_left :: "worker_pc \<Rightarrow> nat" where
  "work_left WStart = 5"
| "work_left (WSend d) = 4"
| "work_left (WPoll d) = 3"
| "work_left (WRecord err) = 2"
| "work_left (WClose err) = 1"
| "work_left pc = 0"

lemma work_progress:
  assumes "wk_workers s w \<noteq> WNone" and "\<not> published (wk_workers s w)"
  shows "\<exists>t. wake_step\<^sup>*\<^sup>* s t \<and> wk_reqs t = wk_reqs s \<and> wk_workers t w \<noteq> WNone \<and>
    work_left (wk_workers t w) < work_left (wk_workers s w)"
proof (cases "wk_workers s w")
  case (WPoll d)
  define u where "u = s\<lparr>wk_now := max d (wk_now s)\<rparr>"
  have "wake_step s u"
    by (rule wake_step.intros [of "AClock (max d (wk_now s))"]) (simp add: u_def)
  moreover obtain e where e:
      "poll_select (wk_c u) (wk_store u) (PollCtxDone ContextDeadlineExceeded) = PollReturn (Some e)"
    by simp
  have "performWake_step w (PollCtxDone ContextDeadlineExceeded) u
      = Some (set_worker w (WRecord (Some e)) u)"
    using WPoll e by (simp add: u_def performWake_step_def poll_ready_def del: poll_select.simps)
  then have "wake_step u (set_worker w (WRecord (Some e)) u)"
    using wake_step.intros [of "AWork w (PollCtxDone ContextDeadlineExceeded)" u] by simp
  ultimately have "wake_step\<^sup>*\<^sup>* s (set_worker w (WRecord (Some e)) u)" by simp
  moreover have "wk_reqs u = wk_reqs s" by (simp add: u_def)
  ultimately show ?thesis
    using WPoll by (intro exI [of _ "set_worker w (WRecord (Some e)) u"]) simp
next
  case WStart
  then show ?thesis
    using wake_step.intros [of "AWork w PollTick" s]
    by (intro exI [of _ "the (performWake_step w PollTick s)"]) (auto simp: performWake_step_def)
next
  case (WSend d)
  then show ?thesis
    using wake_step.intros [of "AWork w PollTick" s]
    by (intro exI [of _ "the (performWake_step w PollTick s)"]) (auto simp: performWake_step_def)
next
  case (WRecord err)
  then show ?thesis
    using wake_step.intros [of "AWork w PollTick" s]
    by (intro exI [of _ "the (performWake_step w PollTick s)"]) (auto simp: performWake_step_def)
next
  case (WClose err)
  then show ?thesis
    using wake_step.intros [of "AWork w PollTick" s]
    by (intro exI [of _ "the (performWake_step w PollTick s)"]) (auto simp: performWake_step_def)
qed (use assms in auto)

lemma work_publishes:
  "wk_workers s w \<noteq> WNone \<Longrightarrow> \<exists>t. wake_step\<^sup>*\<^sup>* s t \<and> wk_reqs t = wk_reqs s \<and> published (wk_workers t w)"
proof (induction "work_left (wk_workers s w)" arbitrary: s rule: less_induct)
  case less
  show ?case
  proof (cases "published (wk_workers s w)")
    case True
    then show ?thesis by blast
  next
    case False
    from work_progress [OF less.prems False] obtain t where t: "wake_step\<^sup>*\<^sup>* s t"
        "wk_reqs t = wk_reqs s" "wk_workers t w \<noteq> WNone"
        "work_left (wk_workers t w) < work_left (wk_workers s w)" by blast
    from less.hyps [OF t(4,3)] t(1,2) show ?thesis by (metis rtranclp_trans)
  qed
qed

definition answered :: "wake_system \<Rightarrow> nat \<Rightarrow> bool" where
  "answered s r \<longleftrightarrow> wk_reqs s r = RForwarded \<or> wk_reqs s r = RRejected"

lemma waiting_answered:
  assumes inv: "wake_inv s" and r: "wk_reqs s r = RWait w" and pub: "published (wk_workers s w)"
  shows "\<exists>t. wake_step s t \<and> answered t r"
proof -
  have "w < length (wc_heap (wk_c s))"
    using inv r by (simp add: wake_inv_def log_inv_def)
  then have "iw_done (wc_heap (wk_c s) ! w)"
    using inv pub core_invD(9) by (auto simp: wake_inv_def)
  then have "waitForWake_step r WaitDone s = Some (respond r (iw_err (wc_heap (wk_c s) ! w)) s)"
    using r by (simp add: waitForWake_step_def)
  then have "wake_step s (respond r (iw_err (wc_heap (wk_c s) ! w)) s)"
    using wake_step.intros [of "AWait r WaitDone" s] by simp
  then show ?thesis
    by (intro exI [of _ "respond r (iw_err (wc_heap (wk_c s) ! w)) s"])
      (simp add: answered_def final_pc_def)
qed

definition can_answer :: "wake_system \<Rightarrow> nat \<Rightarrow> bool" where
  "can_answer s r \<longleftrightarrow> (\<exists>t. wake_step\<^sup>*\<^sup>* s t \<and> answered t r)"

lemma can_answer_step: "wake_step s t \<Longrightarrow> can_answer t r \<Longrightarrow> can_answer s r"
  unfolding can_answer_def by (meson converse_rtranclp_into_rtranclp)

lemma can_answer_steps: "wake_step\<^sup>*\<^sup>* s t \<Longrightarrow> can_answer t r \<Longrightarrow> can_answer s r"
  unfolding can_answer_def by (meson rtranclp_trans)

lemma answer_published:
  assumes inv: "wake_inv s" and r: "wk_reqs s r = RWait w" and w: "wk_workers s w \<noteq> WNone"
  shows "can_answer s r"
proof -
  obtain t where t: "wake_step\<^sup>*\<^sup>* s t" "wk_reqs t = wk_reqs s" "published (wk_workers t w)"
    using work_publishes [of s w] w by blast
  have "wake_inv t" using wakes.steps_inv [OF t(1) inv] .
  then obtain u where "wake_step t u" "answered u r"
    using waiting_answered [of t r w] t(2,3) r by auto
  then have "can_answer t r" unfolding can_answer_def by blast
  with t(1) show ?thesis by (rule can_answer_steps)
qed

lemma spawn_exec:
  assumes "wk_reqs s r = RSpawn w"
  shows "\<exists>t. wake_step s t \<and> wk_reqs t = (wk_reqs s)(r := RWait w) \<and> wk_workers t w = WStart"
proof -
  have "wake_step s (the (spawn_step r s))"
    using wake_step.intros [of "ASpawn r" s] assms by (simp add: spawn_step_def)
  with assms show ?thesis by (intro exI [of _ "the (spawn_step r s)"]) (simp add: spawn_step_def)
qed

lemma answer_waiting:
  assumes inv: "wake_inv s" and r: "wk_reqs s r = RWait w"
  shows "can_answer s r"
proof (cases "wk_workers s w = WNone")
  case False
  with inv r show ?thesis by (rule answer_published)
next
  case True
  have core: "core_inv s" and w: "w < length (wc_heap (wk_c s))"
    using inv r by (simp_all add: wake_inv_def log_inv_def)
  have "wc_wakeInFlight (wk_c s) = Some w"
    using core_invD(5) [OF core w] True by simp
  then obtain q where q: "wk_reqs s q = RSpawn w"
    using core_invD(8) [OF core _ True] by blast
  then obtain t where t: "wake_step s t" "wk_reqs t = (wk_reqs s)(q := RWait w)" "wk_workers t w = WStart"
    using spawn_exec by blast
  have "can_answer t r"
    by (rule answer_published [of t r w]) (use t r q wake_inv_step [OF inv t(1)] in auto)
  with t(1) show ?thesis by (rule can_answer_step)
qed

lemma answer_polling:
  assumes r: "wk_reqs s r = RPoll d"
  shows "can_answer s r"
proof -
  define u where "u = s\<lparr>wk_now := max d (wk_now s)\<rparr>"
  have su: "wake_step s u"
    by (rule wake_step.intros [of "AClock (max d (wk_now s))"]) (simp add: u_def)
  obtain e where e:
      "poll_select (wk_c u) (wk_store u) (PollCtxDone ContextDeadlineExceeded) = PollReturn (Some e)"
    by simp
  have "pollUntilHealthy_step r (PollCtxDone ContextDeadlineExceeded) u = Some (respond r (Some e) u)"
    using r e by (simp add: u_def pollUntilHealthy_step_def poll_ready_def del: poll_select.simps)
  then have "wake_step u (respond r (Some e) u)"
    using wake_step.intros [of "APoll r (PollCtxDone ContextDeadlineExceeded)" u] by simp
  then have "can_answer u r"
    unfolding can_answer_def
    by (intro exI [of _ "respond r (Some e) u"]) (simp add: answered_def final_pc_def)
  with su show ?thesis by (rule can_answer_step)
qed

lemma answer_ensuring:
  assumes inv: "wake_inv s" and r: "wk_reqs s r = REnsure"
  shows "can_answer s r"
proof -
  obtain dec c where "ensureWake (wk_now s) (wk_now s) (wk_c s) = (dec, c)" by fastforce
  with r have "\<exists>t. ensureWake_step r (wk_now s) (wk_now s) s = Some t \<and>
      ((\<exists>w. wk_reqs t r = RWait w) \<or> (\<exists>w. wk_reqs t r = RSpawn w) \<or> (\<exists>d. wk_reqs t r = RPoll d))"
    by (cases dec) (simp_all add: ensureWake_step_def)
  then obtain t where t: "ensureWake_step r (wk_now s) (wk_now s) s = Some t"
      "(\<exists>w. wk_reqs t r = RWait w) \<or> (\<exists>w. wk_reqs t r = RSpawn w) \<or> (\<exists>d. wk_reqs t r = RPoll d)"
    by blast
  from t(1) have st: "wake_step s t" using wake_step.intros [of "AEnsure r (wk_now s) (wk_now s)" s] by simp
  have inv': "wake_inv t" by (rule wake_inv_step [OF inv st])
  have "can_answer t r" if q: "wk_reqs t r = RSpawn w" for w
  proof -
    obtain u where u: "wake_step t u" "wk_reqs u = (wk_reqs t)(r := RWait w)"
      using spawn_exec [OF q] by blast
    have "can_answer u r" by (rule answer_waiting [of u r w]) (use u wake_inv_step [OF inv' u(1)] in auto)
    with u(1) show ?thesis by (rule can_answer_step)
  qed
  with t(2) have "can_answer t r" using answer_waiting [OF inv'] answer_polling by blast
  with st show ?thesis by (rule can_answer_step)
qed

lemma answer_always:
  assumes inv: "wake_inv s"
  shows "can_answer s r"
proof (cases "wk_reqs s r")
  case RNew
  obtain t where t: "ServeHTTP_check r s = Some t" "answered t r \<or> wk_reqs t r = REnsure"
    using RNew by (cases "observes_healthy (wk_c s) (wk_store s)")
      (auto simp: ServeHTTP_check_def answered_def final_pc_def)
  then have st: "wake_step s t" using wake_step.intros [of "AServe r" s] by simp
  from t(2) answer_ensuring [OF wake_inv_step [OF inv st]] have "can_answer t r"
    unfolding can_answer_def by blast
  with st show ?thesis by (rule can_answer_step)
next
  case (RSpawn w)
  then obtain u where u: "wake_step s u" "wk_reqs u = (wk_reqs s)(r := RWait w)"
    using spawn_exec by blast
  have "can_answer u r" by (rule answer_waiting [of u r w]) (use u wake_inv_step [OF inv u(1)] in auto)
  with u(1) show ?thesis by (rule can_answer_step)
qed (use inv answer_ensuring answer_waiting answer_polling in
  \<open>auto simp: can_answer_def answered_def\<close>)

section \<open>The poll loop\<close>

definition unhealthy_tick :: "wake_coordinator \<Rightarrow> poll_event \<times> in_memory_store \<Rightarrow> bool" where
  "unhealthy_tick c p \<longleftrightarrow> fst p = PollTick \<and> \<not> observes_healthy c (snd p)"

lemma poll_select_again_iff: "poll_select c st ev = PollAgain \<longleftrightarrow> unhealthy_tick c (ev, st)"
  by (cases ev) (auto simp: unhealthy_tick_def)

lemma poll_loop_dropWhile:
  "pollUntilHealthyWithContext c evs =
     (case dropWhile (unhealthy_tick c) evs of
        [] \<Rightarrow> None
      | p # _ \<Rightarrow> (case poll_select c (snd p) (fst p) of PollReturn r \<Rightarrow> Some r | PollAgain \<Rightarrow> None))"
proof (induction evs)
  case Nil
  then show ?case by simp
next
  case (Cons p evs)
  then show ?case
    using poll_select_again_iff [of c "snd p" "fst p"]
    by (cases p) (auto split: poll_result.split)
qed

section \<open>A run\<close>

definition example_config :: wake_coordinator_config where
  "example_config = \<lparr>wcc_ServerID = ''homeserver'', wcc_MachineID = ''box'', wcc_WakeTimeout = minute,
     wcc_Debounce = 5 * second, wcc_PollInterval = 0\<rparr>"

definition example_coordinator :: wake_coordinator where
  "example_coordinator = \<lparr>wc_serverID = ''homeserver'', wc_machineID = ''box'', wc_wakeTimeout = minute,
     wc_debounce = 5 * second, wc_pollInterval = defaultPollInterval, wc_metrics = Some [],
     wc_done = False, wc_wg = 0, wc_lastWoLAt = 0, wc_wakeInFlight = None, wc_heap = []\<rparr>"

lemma example_new:
  "NewWakeCoordinator example_config (Some ()) (Some ()) (Some ()) (Some ()) (Some []) = Inr example_coordinator"
  by (simp add: NewWakeCoordinator_def validateWakeCoordinatorConfig_def example_config_def
      example_coordinator_def go_time)

definition example_boot :: wake_system where
  "example_boot = wake_boot example_coordinator NewInMemoryHealthStore (1000 * minute)"

text \<open>Two requests find the server asleep; one starts the wake, the other joins it; a third, after
  a second sleep, starts the next wake.\<close>

definition example_schedule :: "wake_action list" where
  "example_schedule =
     [AServe 0, AServe 1, AEnsure 0 (1000 * minute) (1000 * minute),
      AEnsure 1 (1000 * minute + second) (1000 * minute + second), ASpawn 0,
      AWork 0 PollTick, AWork 0 PollTick, AWork 0 PollTick,
      AHealth ''homeserver'' (zero_status\<lparr>st_healthy := True\<rparr>),
      AWork 0 PollTick, AWork 0 PollTick, AWork 0 PollTick, AWait 1 WaitDone, AWait 0 WaitDone,
      AWork 0 PollTick, AWork 0 PollTick,
      AHealth ''homeserver'' zero_status, AServe 2, AClock (1010 * minute),
      AEnsure 2 (1010 * minute) (1010 * minute), ASpawn 2]"

lemma example_run:
  "map_option (\<lambda>s. (wk_log s, wk_reqs s 2)) (wake_run example_schedule example_boot) =
     Some ([Started 0 60000000000000, Waits 1 0, Waits 0 0, SentWoL 0 ''box'', SawHealthy (OfWake 0),
            Forwarded 1, Forwarded 0, Started 1 60600000000000, Waits 2 1], RWait 1)"
  by code_simp

lemma example_reached:
  "\<exists>s. wake_step\<^sup>*\<^sup>* (wake_boot example_coordinator NewInMemoryHealthStore (1000 * minute)) s \<and>
     wk_log s = [Started 0 60000000000000, Waits 1 0, Waits 0 0, SentWoL 0 ''box'',
       SawHealthy (OfWake 0), Forwarded 1, Forwarded 0, Started 1 60600000000000, Waits 2 1] \<and>
     wk_reqs s 2 = RWait 1"
  using example_run wake_run_steps [of example_schedule example_boot]
  by (auto simp: map_option_case example_boot_def split: option.splits)

section \<open>Properties\<close>

text \<open>A wake that has been started and whose slot has not been given back.\<close>

definition in_progress :: "wake_system \<Rightarrow> nat \<Rightarrow> bool" where
  "in_progress s w \<longleftrightarrow> w < length (wc_heap (wk_c s)) \<and> \<not> finished (wk_workers s w)"









text \<open>C40. When \<open>Close\<close> returns, every wake goroutine added to the wait group has left it, so a wake
  is still in flight only if a request stands between releasing the mutex and \<open>wg.Add\<close>.\<close>

theorem close_waits_for_wakes:
  assumes "NewWakeCoordinator cfg ds ws hs lg m = Inr c"
    and "wake_step\<^sup>*\<^sup>* (wake_boot c store t0) s"
    and "wk_closers s k = CWait" and "Close_step k s = Some t"
  shows "(wk_workers t w = WNone \<or> wk_workers t w = WGone) \<and>
    (wc_wakeInFlight (wk_c t) = Some w \<longrightarrow> (\<exists>r. wk_reqs t r = RSpawn w))"
proof -
  have core: "core_inv s" and wg: "wg_inv s"
    using reachable_wake_inv [OF assms(1,2)] by (simp_all add: wake_inv_def)
  have t: "wc_wg (wk_c s) = 0" "wk_workers t = wk_workers s" "wk_c t = wk_c s" "wk_reqs t = wk_reqs s"
    using assms(3,4) by (auto simp: Close_step_def split: if_splits)
  have "tracked s = {}" using wg t(1) unfolding wg_inv_def by (metis card_0_eq)
  then have none: "wk_workers s w = WNone \<or> wk_workers s w = WGone"
    by (auto simp: tracked_def)
  moreover have "\<exists>r. wk_reqs s r = RSpawn w" if "wc_wakeInFlight (wk_c s) = Some w"
    using none core_invD(7,8) [OF core that] by auto
  ultimately show ?thesis by (simp add: t)
qed

theorem close_waits_for_wakes_witness:
  "\<exists>t. Close_step 0 (the (wake_run [AClose 0] example_boot)) = Some t \<and>
     (wk_workers t 0 = WNone \<or> wk_workers t 0 = WGone)"
proof -
  let ?s = "the (wake_run [AClose 0] example_boot)"
  have s: "wake_run [AClose 0] example_boot = Some ?s" "wk_closers ?s 0 = CWait" "wc_wg (wk_c ?s) = 0"
    by (simp_all add: example_boot_def wake_boot_def Close_step_def example_coordinator_def)
  then obtain t where t: "Close_step 0 ?s = Some t" by (simp add: Close_step_def)
  with close_waits_for_wakes [OF example_new _ s(2) t]
    wake_run_steps [OF s(1)] show ?thesis by (auto simp: example_boot_def)
qed

definition close_race_schedule :: "wake_action list" where
  "close_race_schedule =
     [AServe 0, AEnsure 0 (1000 * minute) (1000 * minute), AClose 0, AClose 0]"

text \<open>Close is not a barrier: a request that has decided to start a wake adds its goroutine to
  the wait group only after releasing the mutex, so a Wake-on-LAN command can still be sent after
  \<open>Close\<close> has returned.\<close>

theorem close_can_return_before_a_wake:
  "map_option (\<lambda>s. (wk_closers s 0, wk_log s)) (wake_run close_race_schedule example_boot)
     = Some (CReturned, [Started 0 (1000 * minute)]) \<and>
   map_option (\<lambda>s. (wk_closers s 0, wk_workers s 0, wk_log s))
       (wake_run (close_race_schedule @ [ASpawn 0, AWork 0 PollTick, AWork 0 PollTick]) example_boot)
     = Some (CReturned, WPoll (1001 * minute),
         [Started 0 (1000 * minute), Waits 0 0, SentWoL 0 ''box''])"
  by code_simp

text \<open>The poll loop returns nil exactly when the first event that is not a tick with an
  unhealthy server is a tick with a healthy one; every error it returns is \<open>ErrWakeTimeout\<close>, and
  it returns one exactly when that first event is the end of the context or the closing of the
  coordinator.\<close>

theorem poll_loop_result:
  "pollUntilHealthyWithContext c evs =
     (case dropWhile (unhealthy_tick c) evs of
        [] \<Rightarrow> None
      | p # _ \<Rightarrow> (case fst p of
            PollTick \<Rightarrow> Some None
          | PollClosed \<Rightarrow> Some (Some (Errorf
              ''server did not become healthy within wake timeout: coordinator closed''
              [Sentinel ErrWakeTimeout]))
          | PollCtxDone e \<Rightarrow> Some (Some (Errorf
              (''server did not become healthy within wake timeout: '' @ wake_sentinel_text e)
              [Sentinel ErrWakeTimeout, Sentinel e]))))"
proof (cases "dropWhile (unhealthy_tick c) evs")
  case Nil
  show ?thesis unfolding poll_loop_dropWhile Nil by simp
next
  case (Cons p ps)
  then have "\<not> unhealthy_tick c p"
    using hd_dropWhile [of "unhealthy_tick c" evs] by simp
  then have "fst p = PollTick \<Longrightarrow> observes_healthy c (snd p)" by (simp add: unhealthy_tick_def)
  with Cons show ?thesis
    by (cases "fst p") (simp_all add: poll_loop_dropWhile)
qed

text \<open>A coordinator is built exactly from a configuration with a server ID, a machine ID and a
  positive wake timeout and from collaborators that are not nil; its poll interval is then
  positive, so \<open>time.NewTicker\<close> cannot panic.\<close>

theorem NewWakeCoordinator_validates:
  "(case NewWakeCoordinator cfg ds ws hs lg m of
      Inr c \<Rightarrow> wcc_ServerID cfg \<noteq> [] \<and> wcc_MachineID cfg \<noteq> [] \<and> 0 < wcc_WakeTimeout cfg \<and>
        ds \<noteq> None \<and> ws \<noteq> None \<and> hs \<noteq> None \<and> lg \<noteq> None \<and>
        0 < wc_pollInterval c \<and> 0 < wc_wakeTimeout c \<and> fresh_coordinator c
    | Inl e \<Rightarrow> errors_is e ErrMissingServerID \<and> wcc_ServerID cfg = [] \<or>
        errors_is e ErrMissingMachineID \<and> wcc_MachineID cfg = [] \<or>
        errors_is e ErrInvalidWakeTimeout \<and> wcc_WakeTimeout cfg \<le> 0 \<or>
        errors_is e ErrMissingDownstream \<and> ds = None \<or>
        errors_is e ErrMissingWoLSender \<and> ws = None \<or>
        errors_is e ErrMissingHealthStore \<and> hs = None \<or>
        errors_is e ErrMissingLogger \<and> lg = None)"
  by (auto simp: NewWakeCoordinator_def validateWakeCoordinatorConfig_def fresh_coordinator_def
      defaultPollInterval_def go_time)

end
