(* ===== verification/HealthCheck.thy ===== *)
theory HealthCheck
  imports HealthStore SleepClient Metrics
begin

text \<open>
  Health checks of one server: the HTTP checker of \<open>internal/health/health.go\<close> with its redirect
  limit, and \<open>ServerHealthChecker\<close> of \<open>internal/health/server_health_checker.go\<close>, which writes the
  result to the health store. A round trip of the HTTP transport and the clock are parameters;
  following redirects is \<open>http.Client\<close>'s loop around the checker's \<open>CheckRedirect\<close>.
\<close>

section \<open>Errors\<close>

datatype health_sentinel =
    ErrHealthCheckFailed
  | ErrHealthCheckNetworkError
  | ErrHealthCheckURLMissing
  | ErrHealthCheckTooManyRedirects
  | DeadlineExceeded
  | Canceled

type_synonym health_error = "health_sentinel go_error"

fun health_sentinel_text :: "health_sentinel \<Rightarrow> string" where
  "health_sentinel_text ErrHealthCheckFailed = ''health check failed: unhealthy status code''"
| "health_sentinel_text ErrHealthCheckNetworkError = ''health check failed: network error''"
| "health_sentinel_text ErrHealthCheckURLMissing = ''health check URL is missing''"
| "health_sentinel_text ErrHealthCheckTooManyRedirects = ''health check failed: too many redirects''"
| "health_sentinel_text DeadlineExceeded = ''context deadline exceeded''"
| "health_sentinel_text Canceled = ''context canceled''"

definition health_text :: "health_error \<Rightarrow> string" where
  "health_text = error_text health_sentinel_text"

section \<open>The HTTP checker\<close>

record health_checker =
  hk_endpoint :: string
  hk_timeout :: duration
  hk_authToken :: string

definition NewHealthChecker :: "string \<Rightarrow> duration \<Rightarrow> string \<Rightarrow> health_checker" where
  "NewHealthChecker endpoint timeout authToken =
     \<lparr>hk_endpoint = endpoint, hk_timeout = timeout, hk_authToken = authToken\<rparr>"

definition defaultMaxRedirects :: nat where "defaultMaxRedirects = 3"

text \<open>\<open>CheckRedirect\<close>; \<open>via\<close> counts the requests made already.\<close>

definition CheckRedirect :: "nat \<Rightarrow> health_error option" where
  "CheckRedirect via = (if via > defaultMaxRedirects then Some (Sentinel ErrHealthCheckTooManyRedirects) else None)"

text \<open>
  \<open>Client.Do\<close>: \<open>hop r url\<close> sends the request to a URL and answers with an error, or a status and the
  redirect target if the status is a redirect.
\<close>

type_synonym 'w transport = "http_request \<Rightarrow> string \<Rightarrow> 'w \<Rightarrow> (health_error + int \<times> string option) \<times> 'w"

function client_Do :: "'w transport \<Rightarrow> http_request \<Rightarrow> nat \<Rightarrow> string \<Rightarrow> 'w \<Rightarrow> (health_error + int) \<times> 'w" where
  "client_Do hop r via url w =
     (case hop r url w of
        (Inl e, w) \<Rightarrow> (Inl (Errorf (''Get '' @ url @ '': '' @ health_text e) [e]), w)
      | (Inr (status, None), w) \<Rightarrow> (Inr status, w)
      | (Inr (status, Some loc), w) \<Rightarrow>
          if Suc via > defaultMaxRedirects
          then (Inl (Errorf (''Get '' @ loc @ '': '' @ health_text (Sentinel ErrHealthCheckTooManyRedirects))
                  [Sentinel ErrHealthCheckTooManyRedirects]), w)
          else client_Do hop r (Suc via) loc w)"
  by pat_completeness auto

termination
  by (relation "measure (\<lambda>(hop, r, via, url, w). Suc defaultMaxRedirects - via)") (auto simp: defaultMaxRedirects_def)

declare client_Do.simps [simp del]

definition health_request :: "health_checker \<Rightarrow> http_request" where
  "health_request h =
     \<lparr>req_method = ''GET'', req_url = hk_endpoint h,
      req_headers = (if hk_authToken h \<noteq> [] then [(''Authorization'', ''Basic '' @ hk_authToken h)] else [])\<rparr>"

definition executeHealthRequest :: "'w transport \<Rightarrow> health_checker \<Rightarrow> 'w \<Rightarrow> (health_error + int) \<times> 'w" where
  "executeHealthRequest hop h w =
     (case url_Parse (hk_endpoint h) of
        Inl e \<Rightarrow> (Inl (Errorf (health_sentinel_text ErrHealthCheckNetworkError @ '': failed to create request for '' @
                   hk_endpoint h) [Sentinel ErrHealthCheckNetworkError]), w)
      | Inr _ \<Rightarrow>
          (case client_Do hop (health_request h) 0 (hk_endpoint h) w of
             (Inl e, w) \<Rightarrow> (Inl (Errorf (health_sentinel_text ErrHealthCheckNetworkError @ '': '' @ hk_endpoint h @ '': '' @
                   health_text e) [Sentinel ErrHealthCheckNetworkError]), w)
           | (Inr status, w) \<Rightarrow> (Inr status, w)))"

definition validateStatusCode :: "health_checker \<Rightarrow> int \<Rightarrow> health_error option" where
  "validateStatusCode h status =
     (if status < 200 \<or> status \<ge> 400
      then Some (Errorf (health_sentinel_text ErrHealthCheckFailed @ '': '' @ hk_endpoint h @ '' returned status '' @ itoa status)
                  [Sentinel ErrHealthCheckFailed])
      else None)"

definition CheckHealth :: "'w transport \<Rightarrow> health_checker \<Rightarrow> 'w \<Rightarrow> health_error option \<times> 'w" where
  "CheckHealth hop h w =
     (if hk_endpoint h = [] then (Some (Sentinel ErrHealthCheckURLMissing), w)
      else (case executeHealthRequest hop h w of
          (Inl err, w) \<Rightarrow> (Some err, w)
        | (Inr status, w) \<Rightarrow> (validateStatusCode h status, w)))"

section \<open>The checker of a server\<close>

record server_health_checker =
  shc_serverID :: string
  shc_checker :: health_checker
  shc_metrics :: bool

text \<open>What the checker shares with the rest of the program: the outside world, the store, the metrics.\<close>

record 'w health_world =
  hw_world :: 'w
  hw_store :: in_memory_store
  hw_metrics :: registry

text \<open>\<open>shc_metrics\<close>: the metrics pointer is not nil. The constructor panics (None) on an empty identifier;
  its other pointer arguments are not nil here.\<close>

definition NewServerHealthChecker :: "string \<Rightarrow> health_checker \<Rightarrow> bool \<Rightarrow> server_health_checker option" where
  "NewServerHealthChecker serverID checker m =
     (if serverID = [] then None else Some \<lparr>shc_serverID = serverID, shc_checker = checker, shc_metrics = m\<rparr>)"

definition getFailureReason :: "health_error option \<Rightarrow> string" where
  "getFailureReason err =
     (case err of
        None \<Rightarrow> ''unknown''
      | Some e \<Rightarrow>
          if errors_is e DeadlineExceeded then ''timeout''
          else if errors_is e ErrHealthCheckNetworkError then ''network_error''
          else if errors_is e ErrHealthCheckFailed then ''unhealthy_status''
          else if errors_is e ErrHealthCheckURLMissing then ''missing_url''
          else if errors_is e ErrHealthCheckTooManyRedirects then ''too_many_redirects''
          else ''unknown'')"

definition recordHealthCheckFailure :: "server_health_checker \<Rightarrow> health_error \<Rightarrow> 'w health_world \<Rightarrow> 'w health_world" where
  "recordHealthCheckFailure s err hw =
     (if \<not> shc_metrics s then hw
      else hw\<lparr>hw_metrics := RecordHealthCheckFailure (shc_serverID s) (getFailureReason (Some err)) (hw_metrics hw)\<rparr>)"

definition Check ::
  "'w transport \<Rightarrow> time \<Rightarrow> server_health_checker \<Rightarrow> 'w health_world
     \<Rightarrow> (server_health_status \<times> health_error option) \<times> 'w health_world" where
  "Check hop now s hw =
     (let (err, w) = CheckHealth hop (shc_checker s) (hw_world hw);
          hw = hw\<lparr>hw_world := w\<rparr>;
          status = \<lparr>st_serverID = shc_serverID s, st_healthy = (err = None), st_lastCheckedAt = now, st_lastError = []\<rparr>;
          (status, hw) = (case err of
              Some e \<Rightarrow> (status\<lparr>st_lastError := health_text e\<rparr>, recordHealthCheckFailure s e hw)
            | None \<Rightarrow> (status, hw));
          hw = hw\<lparr>hw_store := store_Update (hw_store hw) (shc_serverID s) status\<rparr>
      in ((status, err), hw))"

section \<open>Redirects\<close>

text \<open>A transport that also lists the URLs it was sent to.\<close>

definition listing :: "'w transport \<Rightarrow> ('w \<times> string list) transport" where
  "listing hop r url = (\<lambda>(w, urls). (case hop r url w of (a, w') \<Rightarrow> (a, (w', urls @ [url]))))"

lemma listing_apply: "hop r url w = (a, w') \<Longrightarrow> listing hop r url (w, urls) = (a, (w', urls @ [url]))"
  by (simp add: listing_def)

lemma client_Do_listing:
  "\<exists>us. client_Do (listing hop) r via url (w, urls) =
        (fst (client_Do hop r via url w), (snd (client_Do hop r via url w), urls @ us)) \<and>
     us \<noteq> [] \<and> hd us = url \<and> (via \<le> defaultMaxRedirects \<longrightarrow> via + length us \<le> Suc defaultMaxRedirects)"
proof (induction hop r via url w arbitrary: urls rule: client_Do.induct)
  case (1 hop r via url w)
  obtain a w' where a: "hop r url w = (a, w')" by fastforce
  show ?case
  proof (cases a)
    case (Inl e)
    with a show ?thesis
      by (intro exI [of _ "[url]"])
        (simp add: client_Do.simps [of "listing hop" r via] client_Do.simps [of hop r via] listing_apply)
  next
    case (Inr sl)
    then obtain status loc where sl: "a = Inr (status, loc)" by (cases sl) auto
    show ?thesis
    proof (cases "loc = None \<or> Suc via > defaultMaxRedirects")
      case True
      with a sl show ?thesis
        by (intro exI [of _ "[url]"], cases loc)
          (auto simp: client_Do.simps [of "listing hop" r via] client_Do.simps [of hop r via] listing_apply)
    next
      case False
      then obtain l where l: "loc = Some l" "\<not> Suc via > defaultMaxRedirects" by auto
      have IH: "\<exists>us. client_Do (listing hop) r (Suc via) l (w', urls @ [url]) =
          (fst (client_Do hop r (Suc via) l w'), (snd (client_Do hop r (Suc via) l w'), (urls @ [url]) @ us)) \<and>
          us \<noteq> [] \<and> hd us = l \<and> (Suc via \<le> defaultMaxRedirects \<longrightarrow> Suc via + length us \<le> Suc defaultMaxRedirects)"
        by (rule 1) (use a sl l in auto)
      then obtain us where us: "client_Do (listing hop) r (Suc via) l (w', urls @ [url]) =
          (fst (client_Do hop r (Suc via) l w'), (snd (client_Do hop r (Suc via) l w'), urls @ url # us))"
        "Suc via \<le> defaultMaxRedirects \<longrightarrow> Suc via + length us \<le> Suc defaultMaxRedirects" by auto
      with a sl l show ?thesis
        by (intro exI [of _ "url # us"])
          (simp add: client_Do.simps [of "listing hop" r via] client_Do.simps [of hop r via] listing_apply)
    qed
  qed
qed

section \<open>Outcomes\<close>

lemma CheckHealth_error_kind:
  "fst (CheckHealth hop h w) = Some e \<Longrightarrow>
     (hk_endpoint h = [] \<longrightarrow> e = Sentinel ErrHealthCheckURLMissing) \<and>
     (hk_endpoint h \<noteq> [] \<longrightarrow> (\<exists>m. e = Errorf m [Sentinel ErrHealthCheckNetworkError] \<or> e = Errorf m [Sentinel ErrHealthCheckFailed]))"
  by (auto simp: CheckHealth_def executeHealthRequest_def validateStatusCode_def
      split: if_splits sum.splits prod.splits)

lemma CheckHealth_reason:
  "fst (CheckHealth hop h w) = Some e \<Longrightarrow>
     getFailureReason (Some e) \<in> {''network_error'', ''unhealthy_status'', ''missing_url''}"
  using CheckHealth_error_kind [of hop h w e] by (cases "hk_endpoint h = []") (auto simp: getFailureReason_def)

lemma health_text_nonempty: "fst (CheckHealth hop h w) = Some e \<Longrightarrow> health_text e \<noteq> []"
  by (auto simp: CheckHealth_def executeHealthRequest_def validateStatusCode_def health_text_def
      split: if_splits sum.splits prod.splits)

lemma Check_fields:
  "fst (fst (Check hop now s hw)) = \<lparr>st_serverID = shc_serverID s,
      st_healthy = (fst (CheckHealth hop (shc_checker s) (hw_world hw)) = None), st_lastCheckedAt = now,
      st_lastError = (case fst (CheckHealth hop (shc_checker s) (hw_world hw)) of None \<Rightarrow> [] | Some e \<Rightarrow> health_text e)\<rparr>"
  "snd (fst (Check hop now s hw)) = fst (CheckHealth hop (shc_checker s) (hw_world hw))"
  "hw_store (snd (Check hop now s hw)) = store_Update (hw_store hw) (shc_serverID s) (fst (fst (Check hop now s hw)))"
  "hw_metrics (snd (Check hop now s hw)) = (case fst (CheckHealth hop (shc_checker s) (hw_world hw)) of
      None \<Rightarrow> hw_metrics hw
    | Some e \<Rightarrow> if shc_metrics s then RecordHealthCheckFailure (shc_serverID s) (getFailureReason (Some e)) (hw_metrics hw)
        else hw_metrics hw)"
  by (cases "CheckHealth hop (shc_checker s) (hw_world hw)";
      cases "fst (CheckHealth hop (shc_checker s) (hw_world hw))";
      simp add: Check_def Let_def recordHealthCheckFailure_def)+

section \<open>Properties\<close>

text \<open>C18. One check of a server writes exactly its own status to the store: healthy without error text
  if the answer, after redirects, has a status from 200 to 399, unhealthy with the error text
  otherwise; other servers keep theirs, and one failure is counted exactly when the check
  failed and a registry is set.\<close>
theorem Check_updates_status:
  "(let r = Check hop now s hw; st = fst (fst r) in
     store_Get (hw_store (snd r)) k = (if k = shc_serverID s then (st, True) else store_Get (hw_store hw) k) \<and>
     st_lastCheckedAt st = now \<and> st_serverID st = shc_serverID s \<and>
     (st_healthy st \<longleftrightarrow> snd (fst r) = None) \<and> (st_lastError st = [] \<longleftrightarrow> st_healthy st) \<and>
     (st_healthy st \<longleftrightarrow> hk_endpoint (shc_checker s) \<noteq> [] \<and>
        (case fst (executeHealthRequest hop (shc_checker s) (hw_world hw)) of
           Inl _ \<Rightarrow> False | Inr status \<Rightarrow> 200 \<le> status \<and> status < 400)) \<and>
     hw_metrics (snd r) = (if shc_metrics s \<and> \<not> st_healthy st
        then RecordHealthCheckFailure (shc_serverID s) (getFailureReason (snd (fst r))) (hw_metrics hw) else hw_metrics hw))"
proof -
  have healthy: "fst (CheckHealth hop (shc_checker s) (hw_world hw)) = None \<longleftrightarrow> hk_endpoint (shc_checker s) \<noteq> [] \<and>
      (case fst (executeHealthRequest hop (shc_checker s) (hw_world hw)) of
         Inl _ \<Rightarrow> False | Inr status \<Rightarrow> 200 \<le> status \<and> status < 400)"
    by (auto simp: CheckHealth_def validateStatusCode_def split: prod.split sum.split)
  show ?thesis
    using health_text_nonempty [of hop "shc_checker s" "hw_world hw"]
    by (cases "fst (CheckHealth hop (shc_checker s) (hw_world hw))")
      (simp_all add: Check_fields ims.get_update healthy [symmetric])
qed


text \<open>The failure reasons timeout and too_many_redirects never reach the metrics: CheckHealth keeps only
  the text of the transport's error, so a check that fails because its deadline passed, or because of
  too many redirects, is counted as a network error.\<close>
theorem timeout_is_counted_as_network_error:
  assumes "hk_endpoint h \<noteq> []" and "url_Parse (hk_endpoint h) = Inr u"
    and "fst (client_Do hop (health_request h) 0 (hk_endpoint h) w) = Inl e"
  shows "getFailureReason (fst (CheckHealth hop h w)) = ''network_error'' \<and>
    (errors_is e DeadlineExceeded \<longrightarrow> getFailureReason (Some e) = ''timeout'')"
  using assms by (auto simp: CheckHealth_def executeHealthRequest_def getFailureReason_def split: prod.splits)

lemma timeout_is_counted_as_network_error_witness:
  "getFailureReason (fst (CheckHealth (\<lambda>r u w. (Inl (Sentinel DeadlineExceeded), w)) (NewHealthChecker ''http://h'' 1 []) ())) =
     ''network_error''"
proof -
  let ?hop = "\<lambda>r u w. (Inl (Sentinel DeadlineExceeded), w) :: (health_error + int \<times> string option) \<times> unit"
  let ?h = "NewHealthChecker ''http://h'' 1 []"
  have u: "url_Parse (hk_endpoint ?h) = Inr \<lparr>url_scheme = ''http'', url_host = ''h''\<rparr>" by code_simp
  have n: "hk_endpoint ?h \<noteq> []" by (simp add: NewHealthChecker_def)
  have "\<exists>e. fst (client_Do ?hop (health_request ?h) 0 (hk_endpoint ?h) ()) = Inl e"
    by (simp add: client_Do.simps [of ?hop "health_request ?h" 0])
  then obtain e where "fst (client_Do ?hop (health_request ?h) 0 (hk_endpoint ?h) ()) = Inl e" ..
  from timeout_is_counted_as_network_error [OF n u this] show ?thesis ..
qed

end
