(* ===== verification/WakeService.thy ===== *)
theory WakeService
  imports WakeSafety HealthCheck
begin

text \<open>
  From a health check to the answer of a request: the checker of \<open>internal/health\<close> writes its result to
  the store, and the wake coordinator of \<open>internal/proxy/wake_coordinator.go\<close> reads it. The theorem says
  how soon after a successful check the requests that wait for the server are forwarded.
\<close>

section \<open>Wakes that can still succeed\<close>

text \<open>The wake \<open>w\<close> has met an error, published or not.\<close>

definition wake_failed :: "wake_system \<Rightarrow> nat \<Rightarrow> bool" where
  "wake_failed s w \<longleftrightarrow>
     (if published (wk_workers s w) then iw_err (wc_heap (wk_c s) ! w) \<noteq> None
      else (case wk_workers s w of WRecord err \<Rightarrow> err \<noteq> None | WClose err \<Rightarrow> err \<noteq> None | _ \<Rightarrow> False))"

text \<open>The request has not been rejected, and the wake it waits for or would join has not failed.\<close>

definition hopeful :: "wake_system \<Rightarrow> nat \<Rightarrow> bool" where
  "hopeful s r \<longleftrightarrow>
     (case wk_reqs s r of
        RWait w \<Rightarrow> \<not> wake_failed s w
      | REnsure \<Rightarrow> (case wc_wakeInFlight (wk_c s) of None \<Rightarrow> True | Some w \<Rightarrow> \<not> wake_failed s w)
      | RRejected \<Rightarrow> False
      | _ \<Rightarrow> True)"

lemma hopeful_store: "hopeful (s\<lparr>wk_store := st\<rparr>) r = hopeful s r"
proof -
  have "wake_failed (s\<lparr>wk_store := st\<rparr>) = wake_failed s" by (simp add: fun_eq_iff wake_failed_def)
  then show ?thesis by (simp add: hopeful_def cong: request_pc.case_cong option.case_cong)
qed

text \<open>The steps of the coordinator's own threads, as opposed to the clock, the clients, the health
  manager and the callers of Close.\<close>

fun coordinator_action :: "wake_action \<Rightarrow> bool" where
  "coordinator_action (AServe r) \<longleftrightarrow> True"
| "coordinator_action (AEnsure r t u) \<longleftrightarrow> True"
| "coordinator_action (ASpawn r) \<longleftrightarrow> True"
| "coordinator_action (AWait r ev) \<longleftrightarrow> True"
| "coordinator_action (APoll r ev) \<longleftrightarrow> True"
| "coordinator_action (AWork w ev) \<longleftrightarrow> True"
| "coordinator_action _ \<longleftrightarrow> False"

definition forwards_within :: "nat \<Rightarrow> wake_system \<Rightarrow> nat \<Rightarrow> bool" where
  "forwards_within k s r \<longleftrightarrow> (\<exists>as t. length as \<le> k \<and> list_all coordinator_action as \<and> wake_run as s = Some t \<and>
     wk_reqs t r = RForwarded)"

lemma forwards_mono: "forwards_within k s r \<Longrightarrow> k \<le> k' \<Longrightarrow> forwards_within k' s r"
  unfolding forwards_within_def using le_trans by blast

lemma forwards_now: "wk_reqs s r = RForwarded \<Longrightarrow> forwards_within 0 s r"
  unfolding forwards_within_def by (intro exI [of _ "[]"] exI [of _ s]) simp

lemma forwards_step:
  assumes "wake_exec a s = Some t" and "coordinator_action a" and "forwards_within k t r"
  shows "forwards_within (Suc k) s r"
proof -
  from assms(3) obtain as u where "length as \<le> k" "list_all coordinator_action as" "wake_run as t = Some u"
    "wk_reqs u r = RForwarded" by (auto simp: forwards_within_def)
  with assms(1,2) show ?thesis
    unfolding forwards_within_def by (intro exI [of _ "a # as"] exI [of _ u]) simp
qed

abbreviation seen_healthy :: "wake_system \<Rightarrow> bool" where
  "seen_healthy s \<equiv> observes_healthy (wk_c s) (wk_store s)"

section \<open>A wake runs to its end\<close>

lemma wake_exec_inv: "wake_inv s \<Longrightarrow> wake_exec a s = Some t \<Longrightarrow> wake_inv t"
  by (rule wake_inv_step) (auto intro: wake_step.intros)

lemma work_succeeds:
  assumes "wk_workers s w \<noteq> WNone" and "\<not> published (wk_workers s w)" and "\<not> wake_failed s w" and "seen_healthy s"
    and "w < length (wc_heap (wk_c s))"
  shows "\<exists>t. wake_exec (AWork w PollTick) s = Some t \<and> wk_reqs t = wk_reqs s \<and> wk_workers t w \<noteq> WNone \<and>
    Suc (work_left (wk_workers t w)) = work_left (wk_workers s w) \<and> \<not> wake_failed t w \<and> seen_healthy t \<and>
    length (wc_heap (wk_c t)) = length (wc_heap (wk_c s))"
  using assms
  by (cases "wk_workers s w")
    (auto simp: performWake_step_def poll_ready_def wake_failed_def observes_healthy_def performWake_record_def
       performWake_close_def)

lemma waiting_forwards:
  "wake_inv s \<Longrightarrow> wk_reqs s r = RWait w \<Longrightarrow> wk_workers s w \<noteq> WNone \<Longrightarrow> \<not> wake_failed s w \<Longrightarrow> seen_healthy s \<Longrightarrow>
     forwards_within (Suc (work_left (wk_workers s w))) s r"
proof (induction "work_left (wk_workers s w)" arbitrary: s)
  case 0
  have w: "w < length (wc_heap (wk_c s))" using 0 by (simp add: wake_inv_def log_inv_def)
  have pub: "published (wk_workers s w)" using 0 by (cases "wk_workers s w") simp_all
  with w 0 have "iw_done (wc_heap (wk_c s) ! w)" "iw_err (wc_heap (wk_c s) ! w) = None"
    using core_invD(9) by (auto simp: wake_inv_def wake_failed_def)
  then have "wake_exec (AWait r WaitDone) s = Some (respond r None s)"
    using 0 by (simp add: waitForWake_step_def)
  from forwards_step [OF this, of 0 r] forwards_now [of "respond r None s" r]
  have "forwards_within (Suc 0) s r" by (simp add: final_pc_def)
  then show ?case by (rule forwards_mono) simp
next
  case (Suc n)
  have w: "w < length (wc_heap (wk_c s))" using Suc.prems by (simp add: wake_inv_def log_inv_def)
  have "\<not> published (wk_workers s w)" using Suc.hyps(2) by (cases "wk_workers s w") auto
  from work_succeeds [OF Suc.prems(3) this Suc.prems(4,5) w] obtain t where t: "wake_exec (AWork w PollTick) s = Some t"
    "wk_reqs t = wk_reqs s" "wk_workers t w \<noteq> WNone" "Suc (work_left (wk_workers t w)) = work_left (wk_workers s w)"
    "\<not> wake_failed t w" "seen_healthy t" by blast
  have "forwards_within (Suc (work_left (wk_workers t w))) t r"
    by (rule Suc.hyps(1)) (use t Suc wake_exec_inv [OF Suc.prems(1) t(1)] in auto)
  from forwards_step [OF t(1) _ this] t(4) show ?case by simp
qed

lemma spawned_forwards:
  assumes inv: "wake_inv s" and q: "wk_reqs s q = RSpawn w" and r: "r = q \<or> wk_reqs s r = RWait w" and h: "seen_healthy s"
  shows "forwards_within 7 s r"
proof -
  obtain t where t: "wake_exec (ASpawn q) s = Some t" and reqs: "wk_reqs t = (wk_reqs s)(q := RWait w)"
      and w: "wk_workers t w = WStart" and c: "wc_serverID (wk_c t) = wc_serverID (wk_c s)" "wk_store t = wk_store s"
    using q by (simp add: spawn_step_def)
  have "forwards_within (Suc (work_left (wk_workers t w))) t r"
    by (rule waiting_forwards [OF wake_exec_inv [OF inv t]])
      (use r reqs w h c in \<open>auto simp: wake_failed_def observes_healthy_def\<close>)
  from forwards_step [OF t _ this] w show ?thesis by (simp add: eval_nat_numeral)
qed

lemma waiting_forwards':
  assumes inv: "wake_inv s" and r: "wk_reqs s r = RWait w" and ok: "\<not> wake_failed s w" and h: "seen_healthy s"
  shows "forwards_within 7 s r"
proof (cases "wk_workers s w = WNone")
  case False
  have "work_left (wk_workers s w) \<le> 5" by (cases "wk_workers s w") simp_all
  with waiting_forwards [OF inv r False ok h] show ?thesis by (elim forwards_mono) simp
next
  case True
  have core: "core_inv s" and w: "w < length (wc_heap (wk_c s))"
    using inv r by (simp_all add: wake_inv_def log_inv_def)
  have "wc_wakeInFlight (wk_c s) = Some w" using core_invD(5) [OF core w] True by simp
  then obtain q where q: "wk_reqs s q = RSpawn w" using core_invD(8) [OF core _ True] by blast
  with spawned_forwards [OF inv q _ h] r show ?thesis by blast
qed

lemma polling_forwards:
  assumes "wk_reqs s r = RPoll d" and "seen_healthy s"
  shows "forwards_within 1 s r"
proof -
  have "wake_exec (APoll r PollTick) s = Some (respond r None (log_event [SawHealthy (OfRequest r)] s))"
    using assms by (simp add: pollUntilHealthy_step_def poll_ready_def)
  from forwards_step [OF this _ forwards_now] show ?thesis by (simp add: final_pc_def)
qed

lemma ensuring_forwards:
  assumes inv: "wake_inv s" and r: "wk_reqs s r = REnsure" and ok: "hopeful s r" and h: "seen_healthy s"
  shows "forwards_within 8 s r"
proof -
  let ?a = "AEnsure r (wk_now s) (wk_now s)"
  obtain dec c where dec: "ensureWake (wk_now s) (wk_now s) (wk_c s) = (dec, c)" by fastforce
  then have c: "wc_serverID c = wc_serverID (wk_c s)"
    by (auto simp: ensureWake_def Let_def split: option.splits if_splits)
  obtain t where t: "wake_exec ?a s = Some t" using r dec by (cases dec) (simp_all add: ensureWake_step_def)
  have inv': "wake_inv t" by (rule wake_exec_inv [OF inv t])
  have "forwards_within 7 t r"
  proof (cases dec)
    case (JoinWake w)
    with dec have fl: "wc_wakeInFlight (wk_c s) = Some w" "c = wk_c s"
      by (auto simp: ensureWake_def Let_def split: option.splits if_splits)
    with t r dec JoinWake have st: "t = log_event [Waits r w] (set_req r (RWait w) s)"
      by (simp add: ensureWake_step_def)
    show ?thesis
      by (rule waiting_forwards' [OF inv', of r w]) (use st ok r fl h in \<open>auto simp: hopeful_def wake_failed_def\<close>)
  next
    case PollOnly
    with t r dec have "wk_reqs t r = RPoll (wk_now s + wc_wakeTimeout c)" "wk_c t = c" "wk_store t = wk_store s"
      by (auto simp: ensureWake_step_def)
    with polling_forwards [of t r] h c have "forwards_within 1 t r" by (simp add: observes_healthy_def)
    then show ?thesis by (rule forwards_mono) simp
  next
    case (StartWake w)
    with t r dec have "wk_reqs t r = RSpawn w" "wk_c t = c" "wk_store t = wk_store s"
      by (auto simp: ensureWake_step_def)
    with spawned_forwards [OF inv', of r w r] h c show ?thesis by (simp add: observes_healthy_def)
  qed
  from forwards_step [OF t _ this] show ?thesis by (simp add: eval_nat_numeral)
qed

lemma healthy_forwards:
  assumes inv: "wake_inv s" and ok: "hopeful s r" and h: "seen_healthy s"
  shows "forwards_within 8 s r"
proof (cases "wk_reqs s r")
  case RNew
  then have "wake_exec (AServe r) s = Some (respond r None (log_event [SawHealthy (OfRequest r)] s))"
    using h by (simp add: ServeHTTP_check_def)
  from forwards_step [OF this _ forwards_now] have "forwards_within 1 s r" by (simp add: final_pc_def)
  then show ?thesis by (rule forwards_mono) simp
next
  case REnsure
  from ensuring_forwards [OF inv this ok h] show ?thesis .
next
  case (RSpawn w)
  from spawned_forwards [OF inv this _ h] have "forwards_within 7 s r" by blast
  then show ?thesis by (rule forwards_mono) simp
next
  case (RWait w)
  with ok have "\<not> wake_failed s w" by (simp add: hopeful_def)
  from waiting_forwards' [OF inv RWait this h] show ?thesis by (rule forwards_mono) simp
next
  case (RPoll d)
  from polling_forwards [OF this h] show ?thesis by (rule forwards_mono) simp
next
  case RForwarded
  from forwards_now [OF this] show ?thesis by (rule forwards_mono) simp
next
  case RRejected
  with ok show ?thesis by (simp add: hopeful_def)
qed

section \<open>Example\<close>

definition ok_transport :: "unit transport" where
  "ok_transport r url w = (Inr (200, None), w)"

definition homeserver_checker :: server_health_checker where
  "homeserver_checker = \<lparr>shc_serverID = ''homeserver'',
     shc_checker = \<lparr>hk_endpoint = ''http://homeserver/health'', hk_timeout = second, hk_authToken = []\<rparr>, shc_metrics = False\<rparr>"

text \<open>Two requests wait for a wake whose command has been sent.\<close>

definition waiting_schedule :: "wake_action list" where
  "waiting_schedule =
     [AServe 0, AServe 1, AEnsure 0 (1000 * minute) (1000 * minute), AEnsure 1 (1000 * minute) (1000 * minute), ASpawn 0,
      AWork 0 PollTick, AWork 0 PollTick]"

section \<open>Properties\<close>



end
