(* ===== verification/RouteManager.thy ===== *)
theory RouteManager
  imports Reload WakeCoordinator
begin

text \<open>
  \<open>internal/proxy/route_manager.go\<close>: the manager of the HTTP listeners, one per route, and hot
  reload. Listeners are shared by \<open>m.routes\<close> and \<open>m.routeMap\<close>; they live in a list that plays
  the part of the heap. The network is a table of bound ports together with the answers of the
  operating system. Here each listener goroutine runs until it serves or has failed before the
  next call of the manager; its interleavings with Stop are the subject of the theory Listener.
  Route ports are positive, which validation of the configuration guarantees.
\<close>

section \<open>Errors, states and data\<close>

datatype route_manager_sentinel =
    ErrAlreadyRunning
  | ErrNotRunning
  | ErrShutdownTimeout
  | ErrConfigManagerMissing
  | ErrLoggerMissing
  | ErrMiddlewareMissing
  | ErrHealthStoreMissing
  | ErrReloadFailed
  | ErrRouteStopFailed
  | ErrRouteStartFailed

fun rm_sentinel_text :: "route_manager_sentinel \<Rightarrow> string" where
  "rm_sentinel_text ErrAlreadyRunning = ''route manager is already running''"
| "rm_sentinel_text ErrNotRunning = ''route manager is not running''"
| "rm_sentinel_text ErrShutdownTimeout = ''shutdown timeout: some listeners did not stop in time''"
| "rm_sentinel_text ErrConfigManagerMissing = ''config manager cannot be nil''"
| "rm_sentinel_text ErrLoggerMissing = ''logger cannot be nil''"
| "rm_sentinel_text ErrMiddlewareMissing = ''middleware cannot be nil''"
| "rm_sentinel_text ErrHealthStoreMissing = ''health store cannot be nil''"
| "rm_sentinel_text ErrReloadFailed = ''config reload failed''"
| "rm_sentinel_text ErrRouteStopFailed = ''failed to stop route''"
| "rm_sentinel_text ErrRouteStartFailed = ''failed to start route''"

type_synonym rm_error = "route_manager_sentinel go_error"

datatype listener_state =
    StateInitial | StateStarting | StateRunning | StateStopping | StateStopped | StateFailed

fun listenerState_String :: "listener_state \<Rightarrow> string" where
  "listenerState_String StateInitial = ''initial''"
| "listenerState_String StateStarting = ''starting''"
| "listenerState_String StateRunning = ''running''"
| "listenerState_String StateStopping = ''stopping''"
| "listenerState_String StateStopped = ''stopped''"
| "listenerState_String StateFailed = ''failed''"

definition defaultShutdownTimeout :: duration where "defaultShutdownTimeout = 30 * second"
definition defaultWakeTimeout :: duration where "defaultWakeTimeout = 30 * second"
definition defaultWakeDebounce :: duration where "defaultWakeDebounce = 5 * second"

text \<open>
  \<open>'t\<close> is the type of activity recorders, \<open>'w\<close> that of Wake-on-LAN senders. The handler of a
  listener is the middleware around a wake coordinator, if there is one, around the proxy.
\<close>

record 't route_listener =
  rl_route :: route
  rl_state :: listener_state
  rl_startErr :: "string option"
  rl_wake :: "wake_coordinator option"
  rl_activity :: "('t \<times> string) option"

record ('t, 'w) route_manager =
  rm_wakeOptions :: "'w option option"
  rm_idleTracker :: "'t option"
  rm_metrics :: registry
  rm_heap :: "'t route_listener list"
  rm_routes :: "nat list"
  rm_routeMap :: "string \<rightharpoonup> nat"
  rm_running :: bool
  rm_wg :: nat
  rm_shutdownTimeout :: duration
  rm_bound :: "int \<rightharpoonup> nat"

record route_info =
  ri_Name :: string
  ri_Port :: int
  ri_Upstream :: string
  ri_Server :: string
  ri_State :: string

text \<open>
  The answers of the system: why a port that no listener of ours holds cannot be bound, the error
  of \<open>http.Server.Shutdown\<close> for a listener, and whether a listener misses the five seconds
  \<open>startRoute\<close> waits for it.
\<close>

record net_env =
  ne_refuse :: "int \<Rightarrow> string option"
  ne_shutdown :: "nat \<Rightarrow> string option"
  ne_slow :: "nat \<Rightarrow> bool"

definition rl_at :: "('t, 'w) route_manager \<Rightarrow> nat \<Rightarrow> 't route_listener" where
  "rl_at m i = rm_heap m ! i"

definition upd_rl ::
  "nat \<Rightarrow> ('t route_listener \<Rightarrow> 't route_listener) \<Rightarrow> ('t, 'w) route_manager \<Rightarrow> ('t, 'w) route_manager" where
  "upd_rl i f m = m\<lparr>rm_heap := (rm_heap m)[i := f (rm_heap m ! i)]\<rparr>"

section \<open>Construction and options\<close>

definition validateDependencies :: "bool \<Rightarrow> bool \<Rightarrow> bool \<Rightarrow> bool \<Rightarrow> rm_error option" where
  "validateDependencies hasConfigMgr hasLog hasMw hasStore =
     (if \<not> hasConfigMgr then Some (Sentinel ErrConfigManagerMissing)
      else if \<not> hasLog then Some (Sentinel ErrLoggerMissing)
      else if \<not> hasMw then Some (Sentinel ErrMiddlewareMissing)
      else if \<not> hasStore then Some (Sentinel ErrHealthStoreMissing)
      else None)"

definition NewRouteManager :: "bool \<Rightarrow> bool \<Rightarrow> bool \<Rightarrow> bool \<Rightarrow> rm_error + ('t, 'w) route_manager" where
  "NewRouteManager hasConfigMgr hasLog hasMw hasStore =
     (case validateDependencies hasConfigMgr hasLog hasMw hasStore of
        Some e \<Rightarrow> Inl e
      | None \<Rightarrow>
          Inr \<lparr>rm_wakeOptions = None, rm_idleTracker = None, rm_metrics = None, rm_heap = [],
               rm_routes = [], rm_routeMap = Map.empty, rm_running = False, rm_wg = 0,
               rm_shutdownTimeout = defaultShutdownTimeout, rm_bound = Map.empty\<rparr>)"

definition SetWakeOptions :: "'w option \<Rightarrow> ('t, 'w) route_manager \<Rightarrow> ('t, 'w) route_manager" where
  "SetWakeOptions opts m = (if rm_running m then m else m\<lparr>rm_wakeOptions := Some opts\<rparr>)"

definition SetIdleTracker :: "'t option \<Rightarrow> ('t, 'w) route_manager \<Rightarrow> ('t, 'w) route_manager" where
  "SetIdleTracker tracker m = (if rm_running m then m else m\<lparr>rm_idleTracker := tracker\<rparr>)"

definition RouteManager_SetMetrics :: "registry \<Rightarrow> ('t, 'w) route_manager \<Rightarrow> ('t, 'w) route_manager" where
  "RouteManager_SetMetrics reg m = (if rm_running m then m else m\<lparr>rm_metrics := reg\<rparr>)"

section \<open>Creating listeners\<close>

text \<open>
  \<open>cfg\<close> is what \<open>configMgr.GetConfig\<close> returns at this moment. The manager's health store and
  logger are never nil (\<open>validateDependencies\<close>).
\<close>

definition wrapWithWakeCoordinator ::
  "config option \<Rightarrow> ('t, 'w) route_manager \<Rightarrow> route \<Rightarrow> wake_coordinator option" where
  "wrapWithWakeCoordinator getCfg m r =
     (case rm_wakeOptions m of
        None \<Rightarrow> None
      | Some sender \<Rightarrow>
          if route_server r = [] then None
          else (case getCfg of
              None \<Rightarrow> None
            | Some cfg \<Rightarrow>
                (case cfg_servers cfg (route_server r) of
                   None \<Rightarrow> None
                 | Some serverCfg \<Rightarrow>
                     let wol = srv_wakeOnLan serverCfg in
                     if \<not> wol_enabled wol then None
                     else (case NewWakeCoordinator
                              \<lparr>wcc_ServerID = route_server r, wcc_MachineID = wol_machineID wol,
                               wcc_WakeTimeout =
                                 (if wol_timeout wol \<le> 0 then defaultWakeTimeout else wol_timeout wol),
                               wcc_Debounce =
                                 (if wol_debounce wol \<le> 0 then defaultWakeDebounce else wol_debounce wol),
                               wcc_PollInterval = 0\<rparr>
                              (Some ()) sender (Some ()) (Some ()) None of
                         Inl e \<Rightarrow> None
                       | Inr coordinator \<Rightarrow> Some coordinator))))"

definition createListener ::
  "config option \<Rightarrow> ('t, 'w) route_manager \<Rightarrow> route \<Rightarrow> 't route_listener" where
  "createListener getCfg m r =
     \<lparr>rl_route = r, rl_state = StateInitial, rl_startErr = None,
      rl_wake = wrapWithWakeCoordinator getCfg m r,
      rl_activity = map_option (\<lambda>t. (t, route_name r)) (rm_idleTracker m)\<rparr>"

definition add_listener :: "'t route_listener \<Rightarrow> ('t, 'w) route_manager \<Rightarrow> nat \<times> ('t, 'w) route_manager" where
  "add_listener l m = (length (rm_heap m), m\<lparr>rm_heap := rm_heap m @ [l]\<rparr>)"

section \<open>Listener goroutines\<close>

text \<open>The result of binding the port of a listener.\<close>

definition listen_error :: "net_env \<Rightarrow> nat \<Rightarrow> ('t, 'w) route_manager \<Rightarrow> string option" where
  "listen_error env i m =
     (let p = route_listen (rl_route (rl_at m i)) in
      case ne_refuse env p of
        Some e \<Rightarrow> Some e
      | None \<Rightarrow> if rm_bound m p \<noteq> None then Some ''bind: address already in use'' else None)"

text \<open>
  \<open>runListener\<close>: the listener serves, and its state becomes running, or it fails and the
  goroutine ends.
\<close>

definition runListener :: "net_env \<Rightarrow> nat \<Rightarrow> ('t, 'w) route_manager \<Rightarrow> ('t, 'w) route_manager" where
  "runListener env i m =
     (let m = upd_rl i (\<lambda>l. l\<lparr>rl_state := StateStarting\<rparr>) m in
      case listen_error env i m of
        Some e \<Rightarrow>
          (upd_rl i (\<lambda>l. l\<lparr>rl_state := StateFailed, rl_startErr := Some e\<rparr>) m)\<lparr>rm_wg := rm_wg m - 1\<rparr>
      | None \<Rightarrow>
          (upd_rl i (\<lambda>l. l\<lparr>rl_state := StateRunning\<rparr>) m)
            \<lparr>rm_bound := (rm_bound m)(route_listen (rl_route (rl_at m i)) \<mapsto> i)\<rparr>)"

text \<open>
  What \<open>Shutdown\<close> and \<open>Close\<close> of the listener's server do to the network, whether or not they
  report an error: the port is free, and \<open>ListenAndServe\<close> returns, which ends the goroutine.
\<close>

definition release :: "nat \<Rightarrow> ('t, 'w) route_manager \<Rightarrow> ('t, 'w) route_manager" where
  "release i m =
     (let p = route_listen (rl_route (rl_at m i)) in
      if rm_bound m p = Some i then m\<lparr>rm_bound := (rm_bound m)(p := None), rm_wg := rm_wg m - 1\<rparr> else m)"

definition close_closer :: "'t route_listener \<Rightarrow> 't route_listener" where
  "close_closer l = l\<lparr>rl_wake := map_option WakeCoordinator_Close_signal (rl_wake l)\<rparr>"

section \<open>Start and Stop\<close>

text \<open>\<open>at\<close> gives the configuration in force when the listener of a route is created.\<close>

fun start_listeners ::
  "(route \<Rightarrow> config option) \<Rightarrow> route list \<Rightarrow> ('t, 'w) route_manager \<Rightarrow> ('t, 'w) route_manager" where
  "start_listeners at [] m = m"
| "start_listeners at (r # rs) m =
     (let (i, m) = add_listener (createListener (at r) m r) m in
      start_listeners at rs
        (m\<lparr>rm_routes := rm_routes m @ [i], rm_routeMap := (rm_routeMap m)(routeKey r \<mapsto> i),
           rm_wg := rm_wg m + 1\<rparr>))"

definition no_configuration :: rm_error where
  "no_configuration =
     Errorf (rm_sentinel_text ErrReloadFailed @ '': config manager returned nil config'') [Sentinel ErrReloadFailed]"

definition RouteManager_Start ::
  "config option \<Rightarrow> (route \<Rightarrow> config option) \<Rightarrow> ('t, 'w) route_manager \<Rightarrow>
     rm_error option \<times> ('t, 'w) route_manager" where
  "RouteManager_Start getCfg at m =
     (if rm_running m then (Some (Sentinel ErrAlreadyRunning), m)
      else (case getCfg of
          None \<Rightarrow> (Some no_configuration, m)
        | Some cfg \<Rightarrow>
            (None, start_listeners at (cfg_routes cfg) (m\<lparr>rm_running := True, rm_routes := []\<rparr>))))"

text \<open>The goroutines that Start spawned, run in the given order.\<close>

definition run_listeners :: "net_env \<Rightarrow> nat list \<Rightarrow> ('t, 'w) route_manager \<Rightarrow> ('t, 'w) route_manager" where
  "run_listeners env order m = fold (runListener env) order m"

definition shutdownRoute :: "nat \<Rightarrow> ('t, 'w) route_manager \<Rightarrow> ('t, 'w) route_manager" where
  "shutdownRoute i m =
     upd_rl i (\<lambda>l. l\<lparr>rl_state := StateStopped\<rparr>)
       (upd_rl i close_closer (release i (upd_rl i (\<lambda>l. l\<lparr>rl_state := StateStopping\<rparr>) m)))"

definition shutdownRoutes :: "nat list \<Rightarrow> ('t, 'w) route_manager \<Rightarrow> ('t, 'w) route_manager" where
  "shutdownRoutes routes m = fold shutdownRoute routes m"

text \<open>The critical section of Stop: it switches the manager off and takes the list of listeners.\<close>

definition Stop_begin :: "('t, 'w) route_manager \<Rightarrow> (rm_error + nat list) \<times> ('t, 'w) route_manager" where
  "Stop_begin m =
     (if \<not> rm_running m then (Inl (Sentinel ErrNotRunning), m)
      else (Inr (rm_routes m), m\<lparr>rm_running := False\<rparr>))"

text \<open>\<open>waitForShutdown\<close>: \<open>deadline\<close> tells whether the shutdown context has ended.\<close>

definition waitForShutdown :: "bool \<Rightarrow> ('t, 'w) route_manager \<Rightarrow> rm_error option" where
  "waitForShutdown deadline m =
     (if rm_wg m = 0 \<and> \<not> deadline then None else Some (Sentinel ErrShutdownTimeout))"

definition RouteManager_Stop :: "bool \<Rightarrow> ('t, 'w) route_manager \<Rightarrow> rm_error option \<times> ('t, 'w) route_manager" where
  "RouteManager_Stop deadline m =
     (case Stop_begin m of
        (Inl e, m) \<Rightarrow> (Some e, m)
      | (Inr routes, m) \<Rightarrow> let m = shutdownRoutes routes m in (waitForShutdown deadline m, m))"

section \<open>Reporting\<close>

definition GetActiveRoutes :: "('t, 'w) route_manager \<Rightarrow> route_info list" where
  "GetActiveRoutes m =
     map (\<lambda>i. let l = rl_at m i; r = rl_route l in
            \<lparr>ri_Name = route_name r, ri_Port = route_listen r, ri_Upstream = route_upstream r,
             ri_Server = route_server r, ri_State = listenerState_String (rl_state l)\<rparr>) (rm_routes m)"

definition GetActiveRouteCount :: "('t, 'w) route_manager \<Rightarrow> nat" where
  "GetActiveRouteCount m = length (filter (\<lambda>i. rl_state (rl_at m i) = StateRunning) (rm_routes m))"

section \<open>Hot reload\<close>

text \<open>The errors of \<open>stopRoute\<close>.\<close>

definition route_not_found :: "string \<Rightarrow> rm_error" where
  "route_not_found key = Errorf (''route '' @ key @ '' not found'') []"

definition shutdown_failed :: "string \<Rightarrow> rm_error" where
  "shutdown_failed e = Errorf (''shutdown failed: '' @ e) [Opaque e]"

definition stopRoute ::
  "net_env \<Rightarrow> string \<Rightarrow> ('t, 'w) route_manager \<Rightarrow> rm_error option \<times> ('t, 'w) route_manager" where
  "stopRoute env key m =
     (case rm_routeMap m key of
        None \<Rightarrow> (Some (route_not_found key), m)
      | Some i \<Rightarrow>
          let m = release i (upd_rl i (\<lambda>l. l\<lparr>rl_state := StateStopping\<rparr>) m) in
          (case ne_shutdown env i of
             Some e \<Rightarrow> (Some (shutdown_failed e), m)
           | None \<Rightarrow> (None, upd_rl i (\<lambda>l. l\<lparr>rl_state := StateStopped\<rparr>) (upd_rl i close_closer m))))"

definition drop_stopped :: "('t, 'w) route_manager \<Rightarrow> nat list" where
  "drop_stopped m = filter (\<lambda>i. rl_state (rl_at m i) \<noteq> StateStopped) (rm_routes m)"

text \<open>How \<open>startRoute\<close> ends when the listener was not announced in time, and when it was.\<close>

definition startup_timeout :: rm_error where
  "startup_timeout = Errorf ''route startup timeout: context deadline exceeded'' [Opaque ''context deadline exceeded'']"

definition start_result :: "'t route_listener \<Rightarrow> rm_error option" where
  "start_result l =
     (if rl_state l = StateFailed
      then (let e = (case rl_startErr l of None \<Rightarrow> ''%!w(<nil>)'' | Some e \<Rightarrow> e) in
            Some (Errorf (''route failed to start: '' @ e) [Opaque e]))
      else None)"

definition startRoute ::
  "net_env \<Rightarrow> config option \<Rightarrow> route \<Rightarrow> ('t, 'w) route_manager \<Rightarrow> rm_error option \<times> ('t, 'w) route_manager" where
  "startRoute env getCfg r m =
     (let (i, m1) = add_listener (createListener getCfg m r) m;
          m2 = m1\<lparr>rm_routes := drop_stopped m @ [i], rm_routeMap := (rm_routeMap m1)(routeKey r \<mapsto> i),
                  rm_wg := rm_wg m1 + 1\<rparr>;
          m3 = runListener env i m2;
          l = rl_at m3 i
      in (if ne_slow env i then Some startup_timeout else start_result l, m3))"

definition cleanupStoppedRoutes :: "string list \<Rightarrow> ('t, 'w) route_manager \<Rightarrow> ('t, 'w) route_manager" where
  "cleanupStoppedRoutes keys m =
     m\<lparr>rm_routeMap := fold (\<lambda>k f. f(k := None)) keys (rm_routeMap m),
       rm_routes := filter (\<lambda>i. routeKey (rl_route (rl_at m i)) \<notin> set keys) (rm_routes m)\<rparr>"

text \<open>The errors that \<open>applyRouteChanges\<close> collects, and its result.\<close>

definition stop_failure :: "string \<Rightarrow> rm_error \<Rightarrow> rm_error" where
  "stop_failure key e =
     Errorf (rm_sentinel_text ErrRouteStopFailed @ '': '' @ key @ '': '' @ error_text rm_sentinel_text e)
       [Sentinel ErrRouteStopFailed]"

definition start_failure :: "route \<Rightarrow> rm_error \<Rightarrow> rm_error" where
  "start_failure r e =
     Errorf (rm_sentinel_text ErrRouteStartFailed @ '': '' @ route_name r @ '':'' @ itoa (route_listen r)
       @ '': '' @ error_text rm_sentinel_text e) [Sentinel ErrRouteStartFailed]"

text \<open>\<open>%v\<close> of a slice of errors.\<close>

fun join_errors :: "rm_error list \<Rightarrow> string" where
  "join_errors [] = []"
| "join_errors [e] = error_text rm_sentinel_text e"
| "join_errors (e # es) = error_text rm_sentinel_text e @ '' '' @ join_errors es"

definition reload_outcome :: "rm_error list \<Rightarrow> rm_error option" where
  "reload_outcome errs =
     (if errs = [] then None
      else Some (Errorf (rm_sentinel_text ErrReloadFailed @ '': reload completed with ''
             @ itoa (int (length errs)) @ '' errors: ['' @ join_errors errs @ '']'') [Sentinel ErrReloadFailed]))"

text \<open>The first loop of \<open>applyRouteChanges\<close>: the errors, the keys stopped, and the new state.\<close>

fun stop_routes ::
  "net_env \<Rightarrow> string list \<Rightarrow> ('t, 'w) route_manager \<Rightarrow> rm_error list \<times> string list \<times> ('t, 'w) route_manager" where
  "stop_routes env [] m = ([], [], m)"
| "stop_routes env (key # keys) m =
     (let (err, m1) = stopRoute env key m; (errs, stopped, m2) = stop_routes env keys m1 in
      case err of
        Some e \<Rightarrow>
          (stop_failure key e # errs, stopped, m2)
      | None \<Rightarrow> (errs, key # stopped, m2))"

text \<open>The second loop.\<close>

fun start_routes ::
  "net_env \<Rightarrow> (route \<Rightarrow> config option) \<Rightarrow> route list \<Rightarrow> ('t, 'w) route_manager \<Rightarrow>
     rm_error list \<times> ('t, 'w) route_manager" where
  "start_routes env at [] m = ([], m)"
| "start_routes env at (r # rs) m =
     (let (err, m1) = startRoute env (at r) r m; (errs, m2) = start_routes env at rs m1 in
      case err of
        Some e \<Rightarrow>
          (start_failure r e # errs, m2)
      | None \<Rightarrow> (errs, m2))"

definition applyRouteChanges ::
  "net_env \<Rightarrow> (route \<Rightarrow> config option) \<Rightarrow> route_changes \<Rightarrow> ('t, 'w) route_manager \<Rightarrow>
     rm_error option \<times> ('t, 'w) route_manager" where
  "applyRouteChanges env at ch m =
     (let routesToStop = removed ch @ map routeKey (modified ch);
          (stopErrs, successfulStops, m1) = stop_routes env routesToStop m;
          m2 = cleanupStoppedRoutes successfulStops m1;
          routesToStart = added ch @ modified ch;
          (startErrs, m3) = start_routes env at routesToStart m2
      in (reload_outcome (stopErrs @ startErrs), m3))"

definition active_routes :: "('t, 'w) route_manager \<Rightarrow> route list" where
  "active_routes m = map (\<lambda>i. rl_route (rl_at m i)) (rm_routes m)"

definition handleReload ::
  "net_env \<Rightarrow> string list \<Rightarrow> string list \<Rightarrow> config option \<Rightarrow> (route \<Rightarrow> config option) \<Rightarrow>
     ('t, 'w) route_manager \<Rightarrow> rm_error option \<times> ('t, 'w) route_manager" where
  "handleReload env newOrder oldOrder getCfg at m =
     (case getCfg of
        None \<Rightarrow> (Some no_configuration, m)
      | Some newConfig \<Rightarrow>
          let ch = detectChanges newOrder oldOrder (active_routes m) (cfg_routes newConfig) in
          if added ch = [] \<and> removed ch = [] \<and> modified ch = [] then (None, m)
          else applyRouteChanges env at ch m)"

text \<open>
  The goroutine \<open>watchConfigReloads\<close>: its \<open>select\<close> takes the end of the context, or a reload signal with
  the configuration and the map orders of that reload; an error of the reload is only logged. The result
  tells whether the goroutine has returned.
\<close>

datatype reload_event =
    ReloadCtxDone
  | ReloadSignalled "string list" "string list" "config option" "route \<Rightarrow> config option"

fun watchConfigReloads ::
  "net_env \<Rightarrow> reload_event list \<Rightarrow> ('t, 'w) route_manager \<Rightarrow> ('t, 'w) route_manager \<times> bool" where
  "watchConfigReloads env [] m = (m, False)"
| "watchConfigReloads env (ReloadCtxDone # evs) m = (m, True)"
| "watchConfigReloads env (ReloadSignalled newOrder oldOrder getCfg at # evs) m =
     (case handleReload env newOrder oldOrder getCfg at m of
        (Some err, m') \<Rightarrow> watchConfigReloads env evs m'
      | (None, m') \<Rightarrow> watchConfigReloads env evs m')"

end
