(* ===== verification/RouteReload.thy ===== *)
theory RouteReload
  imports RouteManager
begin

text \<open>
  Correctness of the route manager: an invariant that ties listeners, route map, bound ports and
  the wait group together, kept by Start, by every reload and whatever the operating system
  answers; and convergence: when the system cooperates, after a reload exactly the routes of the
  new configuration are served.
\<close>

section \<open>The invariant\<close>

definition serving :: "('t, 'w) route_manager \<Rightarrow> nat \<Rightarrow> bool" where
  "serving m i \<longleftrightarrow> rl_state (rl_at m i) = StateRunning"

definition rt :: "('t, 'w) route_manager \<Rightarrow> nat \<Rightarrow> route" where
  "rt m i = rl_route (rl_at m i)"

definition key_of :: "('t, 'w) route_manager \<Rightarrow> nat \<Rightarrow> string" where
  "key_of m i = routeKey (rt m i)"

text \<open>Invariant while the listeners of the keys \<open>S\<close> are stopped and not yet cleaned up.\<close>

definition rm_wf_but :: "string set \<Rightarrow> ('t, 'w) route_manager \<Rightarrow> bool" where
  "rm_wf_but S m \<longleftrightarrow>
     sorted_wrt (<) (rm_routes m) \<and>
     (\<forall>i \<in> set (rm_routes m). i < length (rm_heap m)) \<and>
     (\<forall>i \<in> set (rm_routes m). rl_state (rl_at m i) \<in> {StateRunning, StateStopping, StateFailed} \<or>
        (rl_state (rl_at m i) = StateStopped \<and> key_of m i \<in> S)) \<and>
     (\<forall>k i. rm_routeMap m k = Some i \<longrightarrow> i < length (rm_heap m) \<and> key_of m i = k) \<and>
     (\<forall>i \<in> set (rm_routes m). \<exists>j \<in> set (rm_routes m). i \<le> j \<and> rm_routeMap m (key_of m i) = Some j) \<and>
     (\<forall>p i. rm_bound m p = Some i \<longleftrightarrow>
        i \<in> set (rm_routes m) \<and> serving m i \<and> route_listen (rt m i) = p) \<and>
     (\<forall>i \<in> set (rm_routes m). serving m i \<longrightarrow> rm_routeMap m (key_of m i) = Some i) \<and>
     rm_wg m = length (filter (serving m) (rm_routes m))"

abbreviation rm_wf :: "('t, 'w) route_manager \<Rightarrow> bool" where
  "rm_wf \<equiv> rm_wf_but {}"

lemma upd_rl_sel [simp]:
  "rm_routes (upd_rl i f m) = rm_routes m" "rm_routeMap (upd_rl i f m) = rm_routeMap m"
  "rm_bound (upd_rl i f m) = rm_bound m" "rm_wg (upd_rl i f m) = rm_wg m"
  "rm_running (upd_rl i f m) = rm_running m"
  "rm_wakeOptions (upd_rl i f m) = rm_wakeOptions m" "rm_idleTracker (upd_rl i f m) = rm_idleTracker m"
  "length (rm_heap (upd_rl i f m)) = length (rm_heap m)"
  by (simp_all add: upd_rl_def)

lemma rl_at_upd [simp]:
  "i < length (rm_heap m) \<Longrightarrow> rl_at (upd_rl i f m) j = (if j = i then f (rl_at m i) else rl_at m j)"
  by (auto simp: rl_at_def upd_rl_def)

lemma rl_at_bound [simp]: "rl_at (m\<lparr>rm_bound := b\<rparr>) i = rl_at m i" "rl_at (m\<lparr>rm_wg := w\<rparr>) i = rl_at m i"
  "rl_at (m\<lparr>rm_routes := rs\<rparr>) i = rl_at m i" "rl_at (m\<lparr>rm_routeMap := f\<rparr>) i = rl_at m i"
  "rl_at (m\<lparr>rm_running := r\<rparr>) i = rl_at m i"
  by (simp_all add: rl_at_def)

lemma release_sel [simp]:
  "rm_routes (release i m) = rm_routes m" "rm_routeMap (release i m) = rm_routeMap m"
  "rm_heap (release i m) = rm_heap m" "rl_at (release i m) j = rl_at m j"
  "rm_running (release i m) = rm_running m"
  by (simp_all add: release_def Let_def rl_at_def)

text \<open>What stopping a known key does, in terms of the listener it stops.\<close>

definition stop_effect ::
  "nat \<Rightarrow> listener_state \<Rightarrow> ('t, 'w) route_manager \<Rightarrow> ('t, 'w) route_manager \<Rightarrow> bool" where
  "stop_effect i st m m' \<longleftrightarrow>
     rm_routes m' = rm_routes m \<and> rm_routeMap m' = rm_routeMap m \<and>
     rm_running m' = rm_running m \<and>
     length (rm_heap m') = length (rm_heap m) \<and>
     (\<forall>j. rt m' j = rt m j) \<and>
     (\<forall>j. rl_state (rl_at m' j) = (if j = i then st else rl_state (rl_at m j))) \<and>
     rm_bound m' = (if rm_bound m (route_listen (rt m i)) = Some i
       then (rm_bound m)(route_listen (rt m i) := None) else rm_bound m) \<and>
     rm_wg m' = (if rm_bound m (route_listen (rt m i)) = Some i then rm_wg m - 1 else rm_wg m)"

lemma stopRoute_effect:
  assumes "rm_routeMap m key = Some i" and "i < length (rm_heap m)"
  shows "stop_effect i (if ne_shutdown env i = None then StateStopped else StateStopping) m
      (snd (stopRoute env key m))"
    and "fst (stopRoute env key m) = None \<longleftrightarrow> ne_shutdown env i = None"
  using assms
  by (auto simp: stop_effect_def stopRoute_def Let_def release_def rt_def close_closer_def split: option.split)

lemma stop_effect_wf:
  assumes wf: "rm_wf_but S m" and eff: "stop_effect i st m m'" and key: "rm_routeMap m k = Some i"
    and st: "st = StateStopping \<or> (st = StateStopped \<and> k \<in> S)"
  shows "rm_wf_but S m'"
proof -
  have routes: "rm_routes m' = rm_routes m" and rmap: "rm_routeMap m' = rm_routeMap m"
    and len: "length (rm_heap m') = length (rm_heap m)" and rt': "rt m' j = rt m j"
    and st': "rl_state (rl_at m' j) = (if j = i then st else rl_state (rl_at m j))"
    and bound': "rm_bound m' = (if rm_bound m (route_listen (rt m i)) = Some i
       then (rm_bound m)(route_listen (rt m i) := None) else rm_bound m)"
    and wg': "rm_wg m' = (if rm_bound m (route_listen (rt m i)) = Some i then rm_wg m - 1 else rm_wg m)" for j
    using eff by (auto simp: stop_effect_def)
  have keyi: "key_of m i = k" using wf key by (simp add: rm_wf_but_def)
  have key': "key_of m' j = key_of m j" for j by (simp add: key_of_def rt')
  have bnd: "rm_bound m p = Some j \<longleftrightarrow> j \<in> set (rm_routes m) \<and> serving m j \<and> route_listen (rt m j) = p" for p j
    using wf by (simp add: rm_wf_but_def)
  have srv': "serving m' j \<longleftrightarrow> j \<noteq> i \<and> serving m j" for j
    using st by (auto simp: serving_def st')
  have "rm_bound m' p = Some j \<longleftrightarrow> j \<in> set (rm_routes m) \<and> serving m' j \<and> route_listen (rt m j) = p" for p j
    unfolding bound' srv' using bnd [of p j] bnd [of p i] bnd [of "route_listen (rt m i)" i]
    by (cases "j = i") auto
  moreover have "rm_wg m' = length (filter (serving m') (rm_routes m))"
  proof -
    have dist: "distinct (rm_routes m)"
      using wf by (simp add: rm_wf_but_def strict_sorted_iff)
    have wg: "rm_wg m = length (filter (serving m) (rm_routes m))" using wf by (simp add: rm_wf_but_def)
    have eq: "filter (serving m') (rm_routes m) = removeAll i (filter (serving m) (rm_routes m))"
      by (auto simp: srv' removeAll_filter_not_eq filter_filter intro!: filter_cong)
    show ?thesis
      using bnd [of "route_listen (rt m i)" i] dist
      unfolding wg' eq wg by (auto simp: distinct_remove1_removeAll [symmetric] length_remove1)
  qed
  ultimately show ?thesis
    using wf st unfolding rm_wf_but_def routes rmap len key' rt' 
    by (auto simp: st' srv' keyi)
qed

lemma wf_mono: "rm_wf_but S m \<Longrightarrow> S \<subseteq> S' \<Longrightarrow> rm_wf_but S' m"
  unfolding rm_wf_but_def by fast

lemma stopRoute_wf:
  assumes "rm_wf_but S m"
  shows "rm_wf_but (if fst (stopRoute env key m) = None then insert key S else S) (snd (stopRoute env key m))"
proof (cases "rm_routeMap m key")
  case None
  then show ?thesis using assms by (simp add: stopRoute_def)
next
  case (Some i)
  have i: "i < length (rm_heap m)" using assms Some by (simp add: rm_wf_but_def)
  show ?thesis
  proof (cases "ne_shutdown env i = None")
    case True
    have "rm_wf_but (insert key S) (snd (stopRoute env key m))"
      by (rule stop_effect_wf [OF wf_mono [OF assms] stopRoute_effect(1) [OF Some i] Some]) (auto simp: True)
    with True stopRoute_effect(2) [OF Some i, of env] show ?thesis by simp
  next
    case False
    have "rm_wf_but S (snd (stopRoute env key m))"
      by (rule stop_effect_wf [OF assms stopRoute_effect(1) [OF Some i] Some]) (simp add: False)
    with False stopRoute_effect(2) [OF Some i, of env] show ?thesis by (simp del: not_None_eq)
  qed
qed

lemma stop_routes_wf:
  "rm_wf_but S m \<Longrightarrow> stop_routes env keys m = (errs, stopped, m') \<Longrightarrow> rm_wf_but (set stopped \<union> S) m'"
proof (induction keys arbitrary: S m errs stopped m')
  case Nil
  then show ?case by simp
next
  case (Cons key keys)
  obtain err m1 where stop: "stopRoute env key m = (err, m1)" by fastforce
  obtain errs' stopped' m2 where rest: "stop_routes env keys m1 = (errs', stopped', m2)" by (metis prod_cases3)
  have "rm_wf_but (if err = None then insert key S else S) m1"
    using stopRoute_wf [OF Cons.prems(1), of env key] stop by simp
  from Cons.IH [OF this rest] have "rm_wf_but (set stopped' \<union> (if err = None then insert key S else S)) m2" .
  with Cons.prems(2) stop rest show ?case
    by (cases err) auto
qed

lemma fold_delete: "fold (\<lambda>k f. f(k := None)) keys g = g |` (- set keys)"
  by (induction keys arbitrary: g) (auto simp: restrict_map_def fun_eq_iff)

lemma cleanup_sel:
  "rm_routes (cleanupStoppedRoutes ks m) = filter (\<lambda>i. key_of m i \<notin> set ks) (rm_routes m)"
  "rm_routeMap (cleanupStoppedRoutes ks m) = rm_routeMap m |` (- set ks)"
  "rl_at (cleanupStoppedRoutes ks m) i = rl_at m i" "rt (cleanupStoppedRoutes ks m) i = rt m i"
  "key_of (cleanupStoppedRoutes ks m) i = key_of m i"
  "serving (cleanupStoppedRoutes ks m) i = serving m i"
  "rm_bound (cleanupStoppedRoutes ks m) = rm_bound m" "rm_heap (cleanupStoppedRoutes ks m) = rm_heap m"
  "rm_wg (cleanupStoppedRoutes ks m) = rm_wg m" "rm_running (cleanupStoppedRoutes ks m) = rm_running m"
  by (simp_all add: cleanupStoppedRoutes_def rt_def key_of_def serving_def rl_at_def fold_delete)

definition idle_keys :: "string set \<Rightarrow> ('t, 'w) route_manager \<Rightarrow> bool" where
  "idle_keys S m \<longleftrightarrow> (\<forall>i \<in> set (rm_routes m). key_of m i \<in> S \<longrightarrow> \<not> serving m i)"

lemma cleanup_wf:
  assumes wf: "rm_wf_but (set ks) m" and idle: "idle_keys (set ks) m"
  shows "rm_wf (cleanupStoppedRoutes ks m)"
proof -
  have keep: "serving m i \<Longrightarrow> i \<in> set (rm_routes m) \<Longrightarrow> key_of m i \<notin> set ks" for i
    using idle by (auto simp: idle_keys_def)
  have "filter (serving m) (filter (\<lambda>i. key_of m i \<notin> set ks) (rm_routes m)) = filter (serving m) (rm_routes m)"
    by (auto simp: filter_filter intro!: filter_cong dest: keep)
  then show ?thesis
    using wf keep unfolding rm_wf_but_def cleanup_sel
    by (auto simp: sorted_wrt_filter restrict_map_def split: if_splits)
qed

lemma stopRoute_view:
  assumes wf: "rm_wf_but S m"
  shows "rm_routes (snd (stopRoute env key m)) = rm_routes m"
    and "rm_routeMap (snd (stopRoute env key m)) = rm_routeMap m"
    and "rt (snd (stopRoute env key m)) = rt m"
    and "length (rm_heap (snd (stopRoute env key m))) = length (rm_heap m)"
    and "serving (snd (stopRoute env key m)) = (\<lambda>i. serving m i \<and> rm_routeMap m key \<noteq> Some i)"
    and "fst (stopRoute env key m) = None \<Longrightarrow> \<exists>i. rm_routeMap m key = Some i"
proof -
  have *: "rm_routes (snd (stopRoute env key m)) = rm_routes m \<and>
      rm_routeMap (snd (stopRoute env key m)) = rm_routeMap m \<and>
      rt (snd (stopRoute env key m)) = rt m \<and>
      length (rm_heap (snd (stopRoute env key m))) = length (rm_heap m) \<and>
      serving (snd (stopRoute env key m)) = (\<lambda>i. serving m i \<and> rm_routeMap m key \<noteq> Some i) \<and>
      (fst (stopRoute env key m) = None \<longrightarrow> (\<exists>i. rm_routeMap m key = Some i))"
  proof (cases "rm_routeMap m key")
    case None
    then show ?thesis by (simp add: stopRoute_def)
  next
    case (Some i)
    then have i: "i < length (rm_heap m)" using wf by (simp add: rm_wf_but_def)
    show ?thesis
      using stopRoute_effect(1) [OF Some i, of env] Some
      by (auto simp: stop_effect_def serving_def fun_eq_iff)
  qed
  then show "rm_routes (snd (stopRoute env key m)) = rm_routes m"
    and "rm_routeMap (snd (stopRoute env key m)) = rm_routeMap m"
    and "rt (snd (stopRoute env key m)) = rt m"
    and "length (rm_heap (snd (stopRoute env key m))) = length (rm_heap m)"
    and "serving (snd (stopRoute env key m)) = (\<lambda>i. serving m i \<and> rm_routeMap m key \<noteq> Some i)"
    and "fst (stopRoute env key m) = None \<Longrightarrow> \<exists>i. rm_routeMap m key = Some i"
    by blast+
qed

text \<open>The stopping phase as a whole.\<close>

lemma stop_routes_view:
  "rm_wf_but S m \<Longrightarrow> stop_routes env keys m = (errs, stopped, m') \<Longrightarrow>
     rm_routes m' = rm_routes m \<and> rm_routeMap m' = rm_routeMap m \<and> rt m' = rt m \<and>
     serving m' = (\<lambda>i. serving m i \<and> Some i \<notin> rm_routeMap m ` set keys) \<and>
     set stopped \<subseteq> set keys \<inter> dom (rm_routeMap m) \<and> length errs + length stopped = length keys"
proof (induction keys arbitrary: S m errs stopped m')
  case Nil
  then show ?case by simp
next
  case (Cons key keys)
  obtain err m1 where stop: "stopRoute env key m = (err, m1)" by fastforce
  obtain errs' stopped' m2 where rest: "stop_routes env keys m1 = (errs', stopped', m2)" by (metis prod_cases3)
  have wf1: "rm_wf_but (if err = None then insert key S else S) m1"
    using stopRoute_wf [OF Cons.prems(1), of env key] stop by simp
  note view = stopRoute_view [OF Cons.prems(1), of env key, unfolded stop fst_conv snd_conv]
  show ?case
    using Cons.IH [OF wf1 rest] view Cons.prems(2) stop rest
    by (cases err) (auto simp: fun_eq_iff)
qed

lemma stopped_idle:
  assumes wf: "rm_wf_but S m" and stop: "stop_routes env keys m = (errs, stopped, m')"
  shows "idle_keys (set stopped) m'"
  unfolding idle_keys_def
proof (intro ballI impI)
  note view = stop_routes_view [OF wf stop]
  fix i assume i: "i \<in> set (rm_routes m')" and k: "key_of m' i \<in> set stopped"
  then have "serving m i \<Longrightarrow> rm_routeMap m (key_of m i) = Some i"
    using view wf by (auto simp: rm_wf_but_def key_of_def)
  moreover have "key_of m i \<in> set keys" using view k by (auto simp: key_of_def)
  ultimately show "\<not> serving m' i" using view by (metis image_eqI)
qed

lemma stop_phase_wf:
  assumes wf: "rm_wf m" and stop: "stop_routes env keys m = (errs, stopped, m')"
  shows "rm_wf (cleanupStoppedRoutes stopped m')"
  using cleanup_wf stop_routes_wf [OF wf stop] stopped_idle [OF wf stop] by simp

section \<open>Starting\<close>

definition can_listen :: "net_env \<Rightarrow> ('t, 'w) route_manager \<Rightarrow> int \<Rightarrow> bool" where
  "can_listen env m p \<longleftrightarrow> ne_refuse env p = None \<and> rm_bound m p = None"

definition start_effect ::
  "bool \<Rightarrow> route \<Rightarrow> ('t, 'w) route_manager \<Rightarrow> ('t, 'w) route_manager \<Rightarrow> bool" where
  "start_effect ok r m m' \<longleftrightarrow>
     rm_routes m' = rm_routes m @ [length (rm_heap m)] \<and>
     rm_routeMap m' = (rm_routeMap m)(routeKey r \<mapsto> length (rm_heap m)) \<and>
     rm_running m' = rm_running m \<and>
     length (rm_heap m') = Suc (length (rm_heap m)) \<and>
     rt m' (length (rm_heap m)) = r \<and>
     rl_state (rl_at m' (length (rm_heap m))) = (if ok then StateRunning else StateFailed) \<and>
     (\<forall>j < length (rm_heap m). rl_at m' j = rl_at m j) \<and>
     rm_bound m' = (if ok then (rm_bound m)(route_listen r \<mapsto> length (rm_heap m)) else rm_bound m) \<and>
     rm_wg m' = (if ok then Suc (rm_wg m) else rm_wg m)"

lemma startRoute_effect:
  assumes wf: "rm_wf m"
  shows "start_effect (can_listen env m (route_listen r)) r m (snd (startRoute env cfg r m))"
    and "fst (startRoute env cfg r m) = None \<longleftrightarrow>
      can_listen env m (route_listen r) \<and> \<not> ne_slow env (length (rm_heap m))"
proof -
  have drop: "drop_stopped m = rm_routes m"
    using wf by (auto simp: drop_stopped_def rm_wf_but_def intro!: filter_True)
  define n where "n = length (rm_heap m)"
  define m2 where "m2 = m\<lparr>rm_heap := rm_heap m @ [createListener cfg m r], rm_routes := rm_routes m @ [n],
      rm_routeMap := (rm_routeMap m)(routeKey r \<mapsto> n), rm_wg := rm_wg m + 1\<rparr>"
  have m2: "rl_at m2 n = createListener cfg m r" "length (rm_heap m2) = Suc n" "rm_bound m2 = rm_bound m"
    "\<And>j. j < n \<Longrightarrow> rl_at m2 j = rl_at m j"
    by (simp_all add: m2_def rl_at_def n_def nth_append)
  have start: "startRoute env cfg r m =
     (let m3 = runListener env n m2 in (if ne_slow env n then Some startup_timeout else start_result (rl_at m3 n), m3))"
    by (simp add: startRoute_def add_listener_def drop m2_def n_def Let_def)
  have lerr: "listen_error env n (upd_rl n f m2) = None \<longleftrightarrow> can_listen env m (route_listen r)"
    if "rl_route (f (rl_at m2 n)) = r" for f
    using that m2 by (auto simp: listen_error_def can_listen_def Let_def split: option.splits)
  have run: "start_effect (can_listen env m (route_listen r)) r m (runListener env n m2)"
  proof (cases "listen_error env n (upd_rl n (\<lambda>l. l\<lparr>rl_state := StateStarting\<rparr>) m2)")
    case None
    then have "can_listen env m (route_listen r)"
      using lerr [of "\<lambda>l. l\<lparr>rl_state := StateStarting\<rparr>"] m2 by (simp add: createListener_def)
    with None show ?thesis
      using m2 by (simp add: runListener_def start_effect_def rt_def createListener_def) (simp add: m2_def n_def)
  next
    case (Some e)
    then have "\<not> can_listen env m (route_listen r)"
      using lerr [of "\<lambda>l. l\<lparr>rl_state := StateStarting\<rparr>"] m2 by (simp add: createListener_def)
    with Some show ?thesis
      using m2 by (simp add: runListener_def start_effect_def rt_def createListener_def) (simp add: m2_def n_def)
  qed
  have snd: "snd (startRoute env cfg r m) = runListener env n m2"
    by (simp add: start Let_def)
  show "start_effect (can_listen env m (route_listen r)) r m (snd (startRoute env cfg r m))"
    using run by (simp add: snd)
  show "fst (startRoute env cfg r m) = None \<longleftrightarrow>
      can_listen env m (route_listen r) \<and> \<not> ne_slow env (length (rm_heap m))"
    using run by (auto simp: start start_result_def Let_def start_effect_def n_def [symmetric])
qed

lemma startRoute_wf:
  assumes wf: "rm_wf m" and idle: "idle_keys {routeKey r} m"
  shows "rm_wf (snd (startRoute env cfg r m))"
proof -
  define m' where "m' = snd (startRoute env cfg r m)"
  define n where "n = length (rm_heap m)"
  define ok where "ok = can_listen env m (route_listen r)"
  have eff: "start_effect ok r m m'" using startRoute_effect(1) [OF wf] by (simp add: m'_def ok_def)
  have routes: "rm_routes m' = rm_routes m @ [n]" and rmap: "rm_routeMap m' = (rm_routeMap m)(routeKey r \<mapsto> n)"
    and len: "length (rm_heap m') = Suc n" and rtn: "rt m' n = r"
    and stn: "rl_state (rl_at m' n) = (if ok then StateRunning else StateFailed)"
    and at: "\<And>j. j < n \<Longrightarrow> rl_at m' j = rl_at m j"
    and bound: "rm_bound m' = (if ok then (rm_bound m)(route_listen r \<mapsto> n) else rm_bound m)"
    and wg: "rm_wg m' = (if ok then Suc (rm_wg m) else rm_wg m)"
    using eff by (simp_all add: start_effect_def n_def)
  have ids: "i \<in> set (rm_routes m) \<Longrightarrow> i < n" for i using wf by (simp add: rm_wf_but_def n_def)
  have mapid: "rm_routeMap m k = Some i \<Longrightarrow> i < n \<and> key_of m i = k" for k i
    using wf by (simp add: rm_wf_but_def n_def)
  have old: "j < n \<Longrightarrow> rt m' j = rt m j" "j < n \<Longrightarrow> key_of m' j = key_of m j"
    "j < n \<Longrightarrow> serving m' j = serving m j" for j
    by (simp_all add: rt_def key_of_def serving_def at)
  have new: "key_of m' n = routeKey r" "serving m' n = ok"
    by (simp_all add: key_of_def rtn serving_def stn)
  have bnd: "rm_bound m p = Some i \<longleftrightarrow> i \<in> set (rm_routes m) \<and> serving m i \<and> route_listen (rt m i) = p" for p i
    using wf by (simp add: rm_wf_but_def)
  have nobound: "rm_bound m p \<noteq> Some n" for p using bnd [of p n] ids [of n] by auto
  have free: "ok \<Longrightarrow> rm_bound m (route_listen r) = None" by (simp add: ok_def can_listen_def)
  have bnd': "rm_bound m' p = Some i \<longleftrightarrow>
      i \<in> set (rm_routes m') \<and> serving m' i \<and> route_listen (rt m' i) = p" for p i
  proof (cases "i = n")
    case True
    then show ?thesis using nobound [of p] by (simp add: bound routes new rtn)
  next
    case False
    then have "i \<in> set (rm_routes m') \<and> serving m' i \<and> route_listen (rt m' i) = p \<longleftrightarrow> rm_bound m p = Some i"
      using ids [of i] old [of i] by (auto simp: bnd routes)
    moreover have "rm_bound m' p = Some i \<longleftrightarrow> rm_bound m p = Some i"
      using False free by (auto simp: bound)
    ultimately show ?thesis by simp
  qed
  have cur: "rm_routeMap m' (key_of m' i) = Some i" if "i \<in> set (rm_routes m')" "serving m' i" for i
  proof (cases "i = n")
    case True
    then show ?thesis by (simp add: new rmap)
  next
    case False
    with that have i: "i \<in> set (rm_routes m)" "i < n" using ids by (auto simp: routes)
    with that idle old [of i] have "key_of m i \<noteq> routeKey r" by (auto simp: idle_keys_def)
    with wf i that old [of i] show ?thesis by (simp add: rm_wf_but_def rmap)
  qed
  have tracked: "\<exists>j \<in> set (rm_routes m'). i \<le> j \<and> rm_routeMap m' (key_of m' i) = Some j"
    if "i \<in> set (rm_routes m')" for i
  proof (cases "key_of m' i = routeKey r")
    case True
    then show ?thesis using that ids by (auto simp: routes rmap intro: less_imp_le)
  next
    case False
    with that new have i: "i \<in> set (rm_routes m)" "i < n" using ids by (auto simp: routes)
    then have "\<exists>j \<in> set (rm_routes m). i \<le> j \<and> rm_routeMap m (key_of m i) = Some j"
      using wf by (simp add: rm_wf_but_def)
    with False i old [of i] show ?thesis by (auto simp: routes rmap)
  qed
  have wgcount: "rm_wg m' = length (filter (serving m') (rm_routes m'))"
  proof -
    have "filter (serving m') (rm_routes m) = filter (serving m) (rm_routes m)"
      using ids old by (auto intro!: filter_cong)
    with wf show ?thesis by (simp add: wg routes new rm_wf_but_def)
  qed
  have states: "rl_state (rl_at m' i) \<in> {StateRunning, StateStopping, StateFailed}" if "i \<in> set (rm_routes m')" for i
    using that ids [of i] at [of i] wf stn by (cases ok) (auto simp: routes rm_wf_but_def)
  have "sorted_wrt (<) (rm_routes m')"
    using wf ids by (auto simp: routes sorted_wrt_append rm_wf_but_def)
  moreover have "\<forall>i \<in> set (rm_routes m'). i < length (rm_heap m')"
    by (auto simp: routes len less_Suc_eq dest: ids)
  moreover have "\<forall>k i. rm_routeMap m' k = Some i \<longrightarrow> i < length (rm_heap m') \<and> key_of m' i = k"
    using mapid old new by (auto simp: rmap len less_Suc_eq split: if_splits)
  ultimately show ?thesis
    using bnd' cur tracked wgcount states unfolding rm_wf_but_def m'_def [symmetric] by blast
qed

lemma startRoute_idle:
  assumes wf: "rm_wf m" and idle: "idle_keys S m" and r: "routeKey r \<notin> S"
  shows "idle_keys S (snd (startRoute env cfg r m))"
proof -
  have "i < length (rm_heap m)" if "i \<in> set (rm_routes m)" for i
    using that wf by (simp add: rm_wf_but_def)
  with startRoute_effect(1) [OF wf, of env r cfg] idle r show ?thesis
    by (auto simp: start_effect_def idle_keys_def key_of_def rt_def serving_def)
qed

lemma idle_mono: "idle_keys S m \<Longrightarrow> S' \<subseteq> S \<Longrightarrow> idle_keys S' m"
  by (auto simp: idle_keys_def)

lemma start_routes_wf:
  "rm_wf m \<Longrightarrow> idle_keys (routeKey ` set rs) m \<Longrightarrow> distinct (map routeKey rs) \<Longrightarrow>
     rm_wf (snd (start_routes env at rs m))"
proof (induction rs arbitrary: m)
  case Nil
  then show ?case by simp
next
  case (Cons r rs)
  obtain err m1 where start: "startRoute env (at r) r m = (err, m1)" by fastforce
  have "rm_wf m1"
    using startRoute_wf [OF Cons.prems(1), of r env "at r"] idle_mono [OF Cons.prems(2), of "{routeKey r}"] start
    by simp
  moreover have "idle_keys (routeKey ` set rs) m1"
    using startRoute_idle [OF Cons.prems(1) idle_mono [OF Cons.prems(2), of "routeKey ` set rs"], of r env "at r"]
      Cons.prems(3) start by auto
  ultimately have "rm_wf (snd (start_routes env at rs m1))"
    using Cons.IH Cons.prems(3) by simp
  with start show ?case by (auto simp: Let_def split: prod.split option.split)
qed

lemma idle_after_stop:
  assumes wf: "rm_wf m" and stop: "stop_routes env keys m = (errs, stopped, m')"
  shows "idle_keys (set keys) (cleanupStoppedRoutes stopped m')"
proof -
  note view = stop_routes_view [OF wf stop]
  show ?thesis
    unfolding idle_keys_def cleanup_sel
  proof (intro ballI impI)
    fix i
    assume "i \<in> set (filter (\<lambda>i. key_of m' i \<notin> set stopped) (rm_routes m'))" and k: "key_of m' i \<in> set keys"
    then have "i \<in> set (rm_routes m)" and "key_of m i \<in> set keys" using view by (auto simp: key_of_def)
    then have "serving m i \<Longrightarrow> Some i \<in> rm_routeMap m ` set keys"
      using wf unfolding rm_wf_but_def by (metis image_eqI)
    with view show "\<not> serving m' i" by auto
  qed
qed

lemma applyRouteChanges_eq:
  assumes "stop_routes env (removed ch @ map routeKey (modified ch)) m = (errs, stopped, m1)"
  shows "snd (applyRouteChanges env at ch m) =
      snd (start_routes env at (added ch @ modified ch) (cleanupStoppedRoutes stopped m1))"
    and "fst (applyRouteChanges env at ch m) = None \<longleftrightarrow>
      errs = [] \<and> fst (start_routes env at (added ch @ modified ch) (cleanupStoppedRoutes stopped m1)) = []"
  using assms by (auto simp: applyRouteChanges_def reload_outcome_def Let_def split: prod.split)

lemma applyRouteChanges_wf:
  assumes wf: "rm_wf m" and dist: "distinct (map routeKey (added ch @ modified ch))"
    and new: "idle_keys (routeKey ` set (added ch)) m"
  shows "rm_wf (snd (applyRouteChanges env at ch m))"
proof -
  let ?keys = "removed ch @ map routeKey (modified ch)"
  obtain errs stopped m1 where stop: "stop_routes env ?keys m = (errs, stopped, m1)" by (metis prod_cases3)
  note view = stop_routes_view [OF wf stop]
  have "idle_keys (routeKey ` set (modified ch)) (cleanupStoppedRoutes stopped m1)"
    by (rule idle_mono [OF idle_after_stop [OF wf stop]]) auto
  moreover have "idle_keys (routeKey ` set (added ch)) (cleanupStoppedRoutes stopped m1)"
    using new view by (auto simp: idle_keys_def cleanup_sel key_of_def)
  ultimately have "idle_keys (routeKey ` set (added ch @ modified ch)) (cleanupStoppedRoutes stopped m1)"
    by (auto simp: idle_keys_def)
  then show ?thesis
    using start_routes_wf [OF stop_phase_wf [OF wf stop] _ dist] applyRouteChanges_eq(1) [OF stop] by simp
qed

lemma active_key: "i \<in> set (rm_routes m) \<Longrightarrow> key_of m i \<in> dom (route_map (active_routes m))"
  by (auto simp: route_map_dom active_routes_def key_of_def rt_def)

lemma changes_distinct:
  assumes "range_order newOrder (route_map new)" and "range_order oldOrder (route_map old)"
  defines "ch \<equiv> detectChanges newOrder oldOrder old new"
  shows "distinct (map routeKey (added ch @ modified ch))"
  using detectChanges_distinct(1,2) [OF assms(1,2)]
  by (auto simp: ch_def detectChanges_added [OF assms(1)] detectChanges_modified [OF assms(1)])

lemma handleReload_wf:
  assumes wf: "rm_wf m"
    and orders: "range_order newOrder (route_map (cfg_routes cfg))"
      "range_order oldOrder (route_map (active_routes m))"
  shows "rm_wf (snd (handleReload env newOrder oldOrder (Some cfg) at m))"
proof -
  define ch where "ch = detectChanges newOrder oldOrder (active_routes m) (cfg_routes cfg)"
  have "idle_keys (routeKey ` set (added ch)) m"
    using active_key [of _ m] by (force simp: idle_keys_def ch_def detectChanges_added [OF orders(1)])
  then have "rm_wf (snd (applyRouteChanges env at ch m))"
    using applyRouteChanges_wf [OF wf] changes_distinct [OF orders] by (simp add: ch_def)
  with wf show ?thesis by (simp add: handleReload_def ch_def [symmetric] Let_def)
qed

section \<open>A reload in a cooperative environment\<close>

definition all_serving :: "('t, 'w) route_manager \<Rightarrow> bool" where
  "all_serving m \<longleftrightarrow> (\<forall>i \<in> set (rm_routes m). serving m i)"

text \<open>The system grants the ports of these routes, and listeners stop and start in time.\<close>

definition cooperative :: "net_env \<Rightarrow> route list \<Rightarrow> bool" where
  "cooperative env rs \<longleftrightarrow>
     (\<forall>r \<in> set rs. ne_refuse env (route_listen r) = None) \<and>
     (\<forall>i. ne_shutdown env i = None \<and> \<not> ne_slow env i)"

lemma stop_routes_ok:
  "rm_wf_but S m \<Longrightarrow> set keys \<subseteq> dom (rm_routeMap m) \<Longrightarrow> (\<And>i. ne_shutdown env i = None) \<Longrightarrow>
     \<exists>m'. stop_routes env keys m = ([], keys, m')"
proof (induction keys arbitrary: S m)
  case Nil
  then show ?case by simp
next
  case (Cons key keys)
  obtain err m1 where stop: "stopRoute env key m = (err, m1)" by fastforce
  from Cons.prems(2) obtain i where i: "rm_routeMap m key = Some i" by auto
  then have "i < length (rm_heap m)" using Cons.prems(1) by (simp add: rm_wf_but_def)
  then have err: "err = None"
    using stopRoute_effect(2) [OF i, of env] stop Cons.prems(3) by simp
  have "rm_wf_but (insert key S) m1"
    using stopRoute_wf [OF Cons.prems(1), of env key] stop err by simp
  moreover have "rm_routeMap m1 = rm_routeMap m"
    using stopRoute_view(2) [OF Cons.prems(1), of env key] stop by simp
  ultimately obtain m' where "stop_routes env keys m1 = ([], keys, m')"
    using Cons.IH [of "insert key S" m1] Cons.prems(2,3) by auto
  with stop err show ?case by simp
qed

lemma active_bound:
  "rm_wf m \<Longrightarrow> p \<notin> route_listen ` set (active_routes m) \<Longrightarrow> rm_bound m p = None"
proof (rule ccontr)
  assume wf: "rm_wf m" and p: "p \<notin> route_listen ` set (active_routes m)" and "rm_bound m p \<noteq> None"
  then obtain i where "rm_bound m p = Some i" by auto
  with wf have "i \<in> set (rm_routes m)" "route_listen (rt m i) = p" by (simp_all add: rm_wf_but_def)
  then have "p \<in> route_listen ` set (active_routes m)" by (auto simp: active_routes_def rt_def)
  with p show False by simp
qed

lemma startRoute_ok:
  fixes cfg :: "config option"
  assumes wf: "rm_wf m" and serving: "all_serving m" and port: "route_listen r \<notin> route_listen ` set (active_routes m)"
    and env: "ne_refuse env (route_listen r) = None" "\<not> ne_slow env (length (rm_heap m))"
  defines "m' \<equiv> snd (startRoute env cfg r m)"
  shows "fst (startRoute env cfg r m) = None" and "rm_wf m'" and "all_serving m'"
    and "active_routes m' = active_routes m @ [r]"
proof -
  have can: "can_listen env m (route_listen r)"
    using active_bound [OF wf port] env by (simp add: can_listen_def)
  then show "fst (startRoute env cfg r m) = None"
    using startRoute_effect(2) [OF wf] env by simp
  have "route_listen (rt m i) \<noteq> route_listen r" if "i \<in> set (rm_routes m)" for i
  proof -
    have "rt m i \<in> set (active_routes m)" using that by (simp add: active_routes_def rt_def)
    with port show ?thesis by (metis imageI)
  qed
  then have "idle_keys {routeKey r} m"
    by (auto simp: idle_keys_def key_of_def routeKey_eq_iff)
  then show "rm_wf m'" unfolding m'_def by (rule startRoute_wf [OF wf])
  have ids: "i \<in> set (rm_routes m) \<Longrightarrow> i < length (rm_heap m)" for i
    using wf by (simp add: rm_wf_but_def)
  have eff: "start_effect True r m m'"
    using startRoute_effect(1) [OF wf, of env r cfg] can by (simp add: m'_def)
  then show "all_serving m'"
    using serving ids by (auto simp: all_serving_def start_effect_def serving_def)
  show "active_routes m' = active_routes m @ [r]"
    using eff ids by (auto simp: active_routes_def start_effect_def rt_def)
qed

lemma start_routes_ok:
  "rm_wf m \<Longrightarrow> all_serving m \<Longrightarrow> distinct (map route_listen rs) \<Longrightarrow>
     route_listen ` set rs \<inter> route_listen ` set (active_routes m) = {} \<Longrightarrow>
     (\<And>r. r \<in> set rs \<Longrightarrow> ne_refuse env (route_listen r) = None) \<Longrightarrow> (\<And>i. \<not> ne_slow env i) \<Longrightarrow>
     \<exists>m'. start_routes env at rs m = ([], m') \<and> rm_wf m' \<and> all_serving m' \<and> active_routes m' = active_routes m @ rs"
proof (induction rs arbitrary: m)
  case Nil
  then show ?case by simp
next
  case (Cons r rs)
  define m1 where "m1 = snd (startRoute env (at r) r m)"
  have port: "route_listen r \<notin> route_listen ` set (active_routes m)" using Cons.prems(4) by auto
  note ok = startRoute_ok [OF Cons.prems(1,2) port, of env "at r", folded m1_def]
  have env: "ne_refuse env (route_listen r) = None" "\<not> ne_slow env (length (rm_heap m))"
    using Cons.prems(5,6) by simp_all
  have start: "startRoute env (at r) r m = (None, m1)"
    using ok(1) [OF env] by (simp add: m1_def prod_eq_iff)
  have "\<exists>m'. start_routes env at rs m1 = ([], m') \<and> rm_wf m' \<and> all_serving m' \<and>
      active_routes m' = active_routes m1 @ rs"
    by (rule Cons.IH) (use ok(2-4) [OF env] Cons.prems in auto)
  then show ?case using start ok(4) [OF env] by auto
qed

lemma route_map_filter: "route_map (filter (\<lambda>r. routeKey r \<notin> S) rs) = route_map rs |` (- S)"
  by (induction rs rule: rev_induct) (auto simp: restrict_map_def fun_eq_iff)

lemma route_map_append: "route_map (rs @ ss) = fold (\<lambda>r m. m(routeKey r \<mapsto> r)) ss (route_map rs)"
  by (simp add: route_map_def)

lemma route_map_ports:
  assumes "distinct (map route_listen rs)"
  shows "route_map rs (routeKey r) = Some r \<longleftrightarrow> r \<in> set rs"
proof
  assume "r \<in> set rs"
  then have "routeKey r \<in> dom (route_map rs)" by (simp add: route_map_dom)
  then obtain q where q: "route_map rs (routeKey r) = Some q" by auto
  then have "q \<in> set rs" "routeKey q = routeKey r" using route_map_some_key by auto
  then have "q = r"
    using assms \<open>r \<in> set rs\<close> by (auto simp: routeKey_eq_iff distinct_map inj_on_def)
  with q show "route_map rs (routeKey r) = Some r" by simp
qed (simp add: route_map_some_key)

lemma serving_ports:
  assumes wf: "rm_wf m" and serving: "all_serving m"
  shows "distinct (map route_listen (active_routes m))"
proof -
  have "i = j" if "i \<in> set (rm_routes m)" "j \<in> set (rm_routes m)" "route_listen (rt m i) = route_listen (rt m j)" for i j
  proof -
    have "rm_bound m (route_listen (rt m i)) = Some i" "rm_bound m (route_listen (rt m i)) = Some j"
      using wf serving that by (auto simp: rm_wf_but_def all_serving_def)
    then show ?thesis by simp
  qed
  moreover have "distinct (rm_routes m)" using wf by (simp add: rm_wf_but_def strict_sorted_iff)
  ultimately show ?thesis
    by (auto simp: active_routes_def distinct_map inj_on_def rt_def)
qed

lemma active_cleanup:
  "active_routes (cleanupStoppedRoutes ks m) = filter (\<lambda>r. routeKey r \<notin> set ks) (active_routes m)"
  by (simp add: active_routes_def cleanup_sel filter_map comp_def key_of_def rt_def)

lemma active_in_map:
  assumes wf: "rm_wf m" and "k \<in> dom (route_map (active_routes m))"
  shows "k \<in> dom (rm_routeMap m)"
  using assms by (auto simp: rm_wf_but_def route_map_dom active_routes_def key_of_def rt_def)

lemma handleReload_converges:
  assumes wf: "rm_wf m" and serving: "all_serving m"
    and orders: "range_order newOrder (route_map (cfg_routes cfg))"
      "range_order oldOrder (route_map (active_routes m))"
    and ports: "distinct (map route_listen (cfg_routes cfg))" and env: "cooperative env (cfg_routes cfg)"
  shows "\<exists>m'. handleReload env newOrder oldOrder (Some cfg) at m = (None, m') \<and> rm_wf m' \<and> all_serving m' \<and>
    route_map (active_routes m') = route_map (cfg_routes cfg)"
proof -
  define new where "new = cfg_routes cfg"
  define old where "old = active_routes m"
  define ch where "ch = detectChanges newOrder oldOrder old new"
  note orders' = orders(1) [folded new_def] orders(2) [folded old_def]
  note classes = detectChanges_added [OF orders'(1), of _ oldOrder old, folded ch_def]
    detectChanges_modified [OF orders'(1), of _ oldOrder old, folded ch_def]
    detectChanges_removed [OF orders', folded ch_def]
  show ?thesis
  proof (cases "added ch = [] \<and> removed ch = [] \<and> modified ch = []")
    case True
    then have "route_map new = route_map old"
      using detectChanges_apply [OF orders', folded ch_def] by (simp add: apply_changes_def restrict_map_def)
    with True wf serving show ?thesis
      by (simp add: handleReload_def new_def [symmetric] old_def [symmetric] ch_def [symmetric] Let_def)
  next
    case False
    let ?keys = "removed ch @ map routeKey (modified ch)" and ?rs = "added ch @ modified ch"
    have "set ?keys \<subseteq> dom (route_map old)"
      by (auto simp: classes)
    then have "set ?keys \<subseteq> dom (rm_routeMap m)"
      using active_in_map [OF wf] unfolding old_def by blast
    then obtain m1 where stop: "stop_routes env ?keys m = ([], ?keys, m1)"
      using stop_routes_ok [OF wf, of ?keys env] env by (auto simp: cooperative_def)
    define m2 where "m2 = cleanupStoppedRoutes ?keys m1"
    note view = stop_routes_view [OF wf stop]
    have wf2: "rm_wf m2" unfolding m2_def by (rule stop_phase_wf [OF wf stop])
    have idle2: "idle_keys (set ?keys) m2" unfolding m2_def by (rule idle_after_stop [OF wf stop])
    have active2: "active_routes m2 = filter (\<lambda>r. routeKey r \<notin> set ?keys) old"
    proof -
      have "active_routes m1 = old" using view by (simp add: active_routes_def old_def rt_def [symmetric])
      then show ?thesis by (simp only: m2_def active_cleanup)
    qed
    have serving2: "all_serving m2"
      unfolding all_serving_def m2_def cleanup_sel
    proof
      fix i assume i: "i \<in> set (filter (\<lambda>i. key_of m1 i \<notin> set ?keys) (rm_routes m1))"
      then have ir: "i \<in> set (rm_routes m)" "key_of m i \<notin> set ?keys" using view by (auto simp: key_of_def)
      have "key_of m i = k" if "rm_routeMap m k = Some i" for k
        using wf that by (simp add: rm_wf_but_def)
      with ir(2) have "Some i \<notin> rm_routeMap m ` set ?keys" by auto
      then show "serving m1 i" using view serving ir(1) by (simp add: all_serving_def)
    qed
    have new_iff: "route_map new (routeKey r) = Some r \<longleftrightarrow> r \<in> set new" for r
      by (rule route_map_ports) (simp add: new_def ports)
    have inj: "inj_on route_listen (set new)" using ports by (simp add: new_def distinct_map)
    have "route_map new (routeKey r) = Some r" if "r \<in> set ?rs" for r
      using that by (auto simp: classes)
    then have rs_new: "set ?rs \<subseteq> set new" using new_iff by blast
    have old_iff: "route_map old (routeKey r) = Some r" if "r \<in> set old" for r
      using that route_map_ports [OF serving_ports [OF wf serving]] by (simp add: old_def)
    have kept: "r \<in> set new \<and> route_map old (routeKey r) = Some r" if "r \<in> set (active_routes m2)" for r
    proof -
      have r: "r \<in> set old" "routeKey r \<notin> set ?keys" using that active2 by auto
      then have o: "route_map old (routeKey r) = Some r" by (simp add: old_iff)
      with r(2) have "routeKey r \<notin> set (removed ch)" by simp
      with o have "route_map new (routeKey r) \<noteq> None" by (auto simp: classes)
      then obtain q where q: "route_map new (routeKey r) = Some q" by auto
      then have "routeKey q = routeKey r" by (rule route_map_some_key [THEN conjunct2])
      with q o r(2) have "q = r" using classes(2) [of q] by (auto simp: image_iff)
      with q o show ?thesis by (simp add: new_iff)
    qed
    have apart: "route_listen ` set ?rs \<inter> route_listen ` set (active_routes m2) = {}"
    proof -
      have "r \<noteq> q" if "r \<in> set ?rs" "q \<in> set (active_routes m2)" for r q
        using that kept [of q] by (auto simp: classes)
      moreover have "r = q" if "r \<in> set ?rs" "q \<in> set (active_routes m2)" "route_listen r = route_listen q" for r q
        by (rule inj_onD [OF inj that(3)]) (use rs_new kept that in blast)+
      ultimately show ?thesis by blast
    qed
    have dist: "distinct (map route_listen ?rs)"
    proof -
      have "distinct ?rs" using changes_distinct [OF orders', folded ch_def] by (simp only: distinct_map)
      with inj rs_new show ?thesis by (meson distinct_map inj_on_subset)
    qed
    have refuse: "ne_refuse env (route_listen r) = None" if "r \<in> set ?rs" for r
      using that rs_new env by (auto simp: cooperative_def new_def)
    obtain m' where m': "start_routes env at ?rs m2 = ([], m')" "rm_wf m'" "all_serving m'"
        "active_routes m' = active_routes m2 @ ?rs"
      using start_routes_ok [OF wf2 serving2 dist apart refuse, of at] env unfolding cooperative_def by blast
    have "applyRouteChanges env at ch m = (None, m')"
      using applyRouteChanges_eq [OF stop, of at] m'(1) by (simp add: m2_def [symmetric] prod_eq_iff)
    moreover have "route_map (active_routes m') = route_map new"
    proof -
      have "route_map (active_routes m') = apply_changes ch (route_map old)"
        by (simp only: m'(4) active2 route_map_append route_map_filter apply_changes_def set_append set_map)
      then show ?thesis by (simp add: ch_def detectChanges_apply [OF orders'])
    qed
    ultimately show ?thesis
      using m'(2,3) False
      by (simp only: handleReload_def option.case Let_def new_def [symmetric] old_def [symmetric]
          ch_def [symmetric] if_False simp_thms) (simp only: prod.inject simp_thms)
  qed
qed

section \<open>Start\<close>

definition fresh_manager :: "('t, 'w) route_manager \<Rightarrow> bool" where
  "fresh_manager m \<longleftrightarrow>
     rm_heap m = [] \<and> rm_routes m = [] \<and> rm_routeMap m = Map.empty \<and> \<not> rm_running m \<and>
     rm_wg m = 0 \<and> rm_bound m = Map.empty"

definition pending :: "('t, 'w) route_manager \<Rightarrow> nat set" where
  "pending m = {i. i < length (rm_heap m) \<and> rl_state (rl_at m i) = StateInitial}"

text \<open>The manager between Start and the moment every goroutine has bound its port or failed.\<close>

definition start_inv :: "('t, 'w) route_manager \<Rightarrow> bool" where
  "start_inv m \<longleftrightarrow>
     rm_routes m = [0..<length (rm_heap m)] \<and>
     (\<forall>i < length (rm_heap m). rl_state (rl_at m i) \<in> {StateInitial, StateRunning, StateFailed}) \<and>
     (\<forall>i < length (rm_heap m). rm_routeMap m (key_of m i) = Some i) \<and>
     (\<forall>k i. rm_routeMap m k = Some i \<longrightarrow> i < length (rm_heap m) \<and> key_of m i = k) \<and>
     (\<forall>p i. rm_bound m p = Some i \<longleftrightarrow> i < length (rm_heap m) \<and> serving m i \<and> route_listen (rt m i) = p) \<and>
     rm_wg m = card (pending m) + length (filter (serving m) (rm_routes m))"

lemma start_inv_wf:
  assumes "start_inv m" and "pending m = {}"
  shows "rm_wf m"
proof -
  have "rl_state (rl_at m i) \<noteq> StateInitial" if "i < length (rm_heap m)" for i
    using assms(2) that by (auto simp: pending_def)
  with assms show ?thesis
    by (auto simp: start_inv_def rm_wf_but_def)
qed

lemma start_listeners_inv:
  "start_inv m \<Longrightarrow> pending m = {0..<length (rm_heap m)} \<Longrightarrow> distinct (map routeKey (active_routes m @ rs)) \<Longrightarrow>
     start_inv (start_listeners at rs m) \<and>
     pending (start_listeners at rs m) = {0..<length (rm_heap (start_listeners at rs m))} \<and>
     active_routes (start_listeners at rs m) = active_routes m @ rs"
proof (induction rs arbitrary: m)
  case Nil
  then show ?case by simp
next
  case (Cons r rs)
  define n where "n = length (rm_heap m)"
  define m1 where "m1 = m\<lparr>rm_heap := rm_heap m @ [createListener (at r) m r], rm_routes := rm_routes m @ [n],
      rm_routeMap := (rm_routeMap m)(routeKey r \<mapsto> n), rm_wg := rm_wg m + 1\<rparr>"
  have step: "start_listeners at (r # rs) m = start_listeners at rs m1"
    by (simp add: add_listener_def m1_def n_def)
  have at: "rl_at m1 i = (if i = n then createListener (at r) m r else rl_at m i)" if "i \<le> n" for i
    using that by (auto simp: m1_def rl_at_def n_def nth_append)
  have len: "length (rm_heap m1) = Suc n" by (simp add: m1_def n_def)
  have view: "i \<le> n \<Longrightarrow> rt m1 i = (if i = n then r else rt m i)"
    "i \<le> n \<Longrightarrow> key_of m1 i = (if i = n then routeKey r else key_of m i)"
    "i \<le> n \<Longrightarrow> serving m1 i \<longleftrightarrow> i \<noteq> n \<and> serving m i" for i
    using at [of i] by (simp_all add: rt_def key_of_def serving_def createListener_def)
  have routes: "rm_routes m = [0..<n]" using Cons.prems(1) by (simp add: start_inv_def n_def)
  have active: "active_routes m1 = active_routes m @ [r]"
  proof -
    have "map (\<lambda>i. rt m1 i) [0..<n] = map (\<lambda>i. rt m i) [0..<n]" by (simp add: view)
    then show ?thesis using view(1) [of n] routes by (simp add: active_routes_def rt_def m1_def)
  qed
  have init: "rl_state (rl_at m1 i) = StateInitial" if "i < Suc n" for i
  proof (cases "i = n")
    case True
    then show ?thesis using at [of n] by (simp add: createListener_def)
  next
    case False
    with that have "i \<in> pending m" using Cons.prems(2) by (simp add: n_def)
    then show ?thesis using at [of i] False that by (simp add: pending_def)
  qed
  then have pend: "pending m1 = {0..<length (rm_heap m1)}"
    unfolding pending_def len by auto
  have noserve: "\<not> serving m i" if "i < n" for i
  proof -
    have "i \<in> pending m" using Cons.prems(2) that by (simp add: n_def)
    then show ?thesis by (simp add: pending_def serving_def)
  qed
  have fresh: "key_of m i \<noteq> routeKey r" if "i < n" for i
  proof -
    have "rt m i \<in> set (active_routes m)" using that routes by (auto simp: active_routes_def rt_def)
    then have "key_of m i \<in> routeKey ` set (active_routes m)" unfolding key_of_def by (rule imageI)
    with Cons.prems(3) show ?thesis by auto
  qed
  have inv: "rm_wg m = n" "\<And>k i. rm_routeMap m k = Some i \<Longrightarrow> i < n \<and> key_of m i = k"
    "\<And>i. i < n \<Longrightarrow> rm_routeMap m (key_of m i) = Some i" "\<And>p. rm_bound m p = None"
  proof -
    have "filter (serving m) (rm_routes m) = []" using noserve routes by (auto simp: filter_empty_conv)
    then show "rm_wg m = n" using Cons.prems(1,2) by (simp add: start_inv_def n_def)
    show "rm_routeMap m k = Some i \<Longrightarrow> i < n \<and> key_of m i = k" for k i
      using Cons.prems(1) by (simp add: start_inv_def n_def)
    show "i < n \<Longrightarrow> rm_routeMap m (key_of m i) = Some i" for i
      using Cons.prems(1) by (simp add: start_inv_def n_def)
    have "rm_bound m p \<noteq> Some i" for p i
      using Cons.prems(1) noserve by (auto simp: start_inv_def n_def)
    then show "rm_bound m p = None" for p by (cases "rm_bound m p") auto
  qed
  have noserve1: "\<not> serving m1 i" if "i < Suc n" for i
    using init [OF that] by (simp add: serving_def)
  have "start_inv m1"
    unfolding start_inv_def len
  proof (intro conjI allI impI)
    show "rm_routes m1 = [0..<Suc n]" by (simp add: m1_def routes)
    then have "filter (serving m1) (rm_routes m1) = []"
      using noserve1 by (auto simp: filter_empty_conv)
    then show "rm_wg m1 = card (pending m1) + length (filter (serving m1) (rm_routes m1))"
      by (simp add: pend len) (simp add: m1_def inv)
    fix i assume i: "i < Suc n"
    then show "rl_state (rl_at m1 i) \<in> {StateInitial, StateRunning, StateFailed}" by (simp add: init)
    show "rm_routeMap m1 (key_of m1 i) = Some i"
      using i view(2) [of i] fresh [of i] inv(3) [of i] by (cases "i = n") (simp_all add: m1_def)
  next
    fix k i assume "rm_routeMap m1 k = Some i"
    then have "i = n \<and> k = routeKey r \<or> rm_routeMap m k = Some i"
      by (auto simp: m1_def split: if_splits)
    then show "i < Suc n" "key_of m1 i = k" using inv(2) [of k i] view(2) [of i] by auto
  next
    fix p i
    show "rm_bound m1 p = Some i \<longleftrightarrow> i < Suc n \<and> serving m1 i \<and> route_listen (rt m1 i) = p"
      using noserve1 [of i] by (auto simp: m1_def inv)
  qed
  then show ?case
    unfolding step using Cons.IH [OF _ pend] Cons.prems(3) by (simp add: active)
qed

text \<open>What the goroutine of a fresh listener does.\<close>

lemma runListener_effect:
  fixes env :: net_env
  assumes i: "i < length (rm_heap m)"
  defines "ok \<equiv> can_listen env m (route_listen (rt m i))"
  defines "m' \<equiv> runListener env i m"
  shows "rm_routes m' = rm_routes m" "rm_routeMap m' = rm_routeMap m" "rm_running m' = rm_running m"
    "length (rm_heap m') = length (rm_heap m)" "rt m' j = rt m j"
    "rl_state (rl_at m' j) = (if j = i then if ok then StateRunning else StateFailed else rl_state (rl_at m j))"
    "rm_bound m' = (if ok then (rm_bound m)(route_listen (rt m i) \<mapsto> i) else rm_bound m)"
    "rm_wg m' = (if ok then rm_wg m else rm_wg m - 1)"
proof -
  have "listen_error env i (upd_rl i (\<lambda>l. l\<lparr>rl_state := StateStarting\<rparr>) m) = None \<longleftrightarrow> ok"
    using i by (auto simp: listen_error_def ok_def can_listen_def rt_def Let_def split: option.split)
  with i show "rm_routes m' = rm_routes m" "rm_routeMap m' = rm_routeMap m" "rm_running m' = rm_running m"
    "length (rm_heap m') = length (rm_heap m)" "rt m' j = rt m j"
    "rl_state (rl_at m' j) = (if j = i then if ok then StateRunning else StateFailed else rl_state (rl_at m j))"
    "rm_bound m' = (if ok then (rm_bound m)(route_listen (rt m i) \<mapsto> i) else rm_bound m)"
    "rm_wg m' = (if ok then rm_wg m else rm_wg m - 1)"
    by (auto simp: m'_def runListener_def Let_def rt_def split: option.split)
qed

lemma runListener_inv:
  assumes inv: "start_inv m" and i: "i \<in> pending m"
  shows "start_inv (runListener env i m)" and "pending (runListener env i m) = pending m - {i}"
proof -
  define m' where "m' = runListener env i m"
  define ok where "ok = can_listen env m (route_listen (rt m i))"
  have il: "i < length (rm_heap m)" and init: "rl_state (rl_at m i) = StateInitial"
    using i by (simp_all add: pending_def)
  note eff = runListener_effect [OF il, of env, folded m'_def ok_def]
  have key: "key_of m' j = key_of m j" for j by (simp add: key_of_def eff(5))
  have srv: "serving m' j \<longleftrightarrow> (if j = i then ok else serving m j)" for j
    by (simp add: serving_def eff(6))
  have nsrv: "\<not> serving m i" using init by (simp add: serving_def)
  show pend: "pending (runListener env i m) = pending m - {i}"
    unfolding m'_def [symmetric] by (auto simp: pending_def eff split: if_splits)
  have bnd: "rm_bound m p = Some j \<longleftrightarrow> j < length (rm_heap m) \<and> serving m j \<and> route_listen (rt m j) = p" for p j
    using inv by (simp add: start_inv_def)
  have "rm_bound m' p = Some j \<longleftrightarrow> j < length (rm_heap m) \<and> serving m' j \<and> route_listen (rt m j) = p" for p j
    using bnd [of p j] bnd [of "route_listen (rt m i)" j] nsrv il unfolding srv eff(7)
    by (cases "j = i"; cases ok) (auto simp: ok_def can_listen_def)
  moreover have "rm_wg m' = card (pending m') + length (filter (serving m') (rm_routes m'))"
  proof -
    have fin: "finite (pending m)" by (simp add: pending_def)
    have card: "card (pending m) = Suc (card (pending m'))"
      using card.remove [OF fin i] pend by (simp add: m'_def)
    have routes: "rm_routes m = [0..<length (rm_heap m)]" using inv by (simp add: start_inv_def)
    have split: "[0..<length (rm_heap m)] = [0..<i] @ i # [Suc i..<length (rm_heap m)]"
      using il upt_add_eq_append [of 0 i "length (rm_heap m) - i"] upt_conv_Cons [of i "length (rm_heap m)"] by simp
    have parts: "filter (serving m') [0..<i] = filter (serving m) [0..<i]"
      "filter (serving m') [Suc i..<length (rm_heap m)] = filter (serving m) [Suc i..<length (rm_heap m)]"
      by (auto simp: srv intro!: filter_cong)
    have "length (filter (serving m') (rm_routes m)) = (if ok then 1 else 0) + length (filter (serving m) (rm_routes m))"
      unfolding routes split by (simp add: parts srv nsrv)
    moreover have "rm_wg m = card (pending m) + length (filter (serving m) (rm_routes m))"
      using inv by (simp add: start_inv_def)
    ultimately show ?thesis by (simp add: eff card)
  qed
  moreover have "rl_state (rl_at m' j) \<in> {StateInitial, StateRunning, StateFailed}" if "j < length (rm_heap m)" for j
    using inv that by (simp add: eff(6) start_inv_def)
  ultimately show "start_inv (runListener env i m)"
    using inv unfolding start_inv_def m'_def [symmetric] eff(1,2,4,5) key by simp
qed

text \<open>A listener whose port nobody else asks for comes up.\<close>

lemma run_listeners_simps:
  "run_listeners env [] m = m"
  "run_listeners env (i # order) m = run_listeners env order (runListener env i m)"
  by (simp_all add: run_listeners_def)

lemma run_listeners_inv:
  "start_inv m \<Longrightarrow> set order \<subseteq> pending m \<Longrightarrow> distinct order \<Longrightarrow>
     start_inv (run_listeners env order m) \<and> pending (run_listeners env order m) = pending m - set order \<and>
     active_routes (run_listeners env order m) = active_routes m \<and>
     rm_running (run_listeners env order m) = rm_running m"
proof (induction order arbitrary: m)
  case Nil
  then show ?case by (simp add: run_listeners_simps)
next
  case (Cons i order)
  have i: "i \<in> pending m" "i < length (rm_heap m)" using Cons.prems(2) by (simp_all add: pending_def)
  note eff = runListener_effect [OF i(2), of env]
  have "active_routes (runListener env i m) = active_routes m"
    using eff(1,5) by (simp add: active_routes_def rt_def)
  moreover have "set order \<subseteq> pending (runListener env i m)"
    using runListener_inv(2) [OF Cons.prems(1) i(1), of env] Cons.prems(2,3) by auto
  moreover have "pending m - {i} - set order = pending m - set (i # order)" by auto
  ultimately show ?case
    using Cons.IH [OF runListener_inv(1) [OF Cons.prems(1) i(1), of env]] Cons.prems(3)
      runListener_inv(2) [OF Cons.prems(1) i(1), of env] eff(3)
    by (simp add: run_listeners_simps)
qed

lemma run_listeners_serving:
  "start_inv m \<Longrightarrow> set order \<subseteq> pending m \<Longrightarrow> distinct order \<Longrightarrow>
     distinct (map route_listen (active_routes m)) \<Longrightarrow> cooperative env (active_routes m) \<Longrightarrow>
     (\<And>i. i < length (rm_heap m) \<Longrightarrow> i \<notin> pending m \<Longrightarrow> serving m i) \<Longrightarrow>
     i < length (rm_heap m) \<Longrightarrow> i \<notin> pending m - set order \<Longrightarrow>
     serving (run_listeners env order m) i"
proof (induction order arbitrary: m)
  case Nil
  then show ?case by (simp add: run_listeners_simps)
next
  case (Cons j order)
  have j: "j \<in> pending m" "j < length (rm_heap m)" using Cons.prems(2) by (simp_all add: pending_def)
  note eff = runListener_effect [OF j(2), of env]
  have active: "active_routes (runListener env j m) = active_routes m"
    using eff(1,5) by (simp add: active_routes_def rt_def)
  have routes: "rm_routes m = [0..<length (rm_heap m)]" using Cons.prems(1) by (simp add: start_inv_def)
  have rtin: "rt m j \<in> set (active_routes m)" using j routes by (simp add: active_routes_def rt_def)
  have inj: "k = j" if "k < length (rm_heap m)" "route_listen (rt m k) = route_listen (rt m j)" for k
    using Cons.prems(4) that j(2) routes
    by (auto simp: active_routes_def rt_def distinct_map inj_on_def)
  have "rm_bound m (route_listen (rt m j)) \<noteq> Some k" for k
    using Cons.prems(1) inj [of k] j by (auto simp: start_inv_def pending_def serving_def)
  then have can: "can_listen env m (route_listen (rt m j))"
    using Cons.prems(5) rtin by (auto simp: can_listen_def cooperative_def)
  have srv: "serving (runListener env j m) k \<longleftrightarrow> k = j \<or> serving m k" for k
    using can by (simp add: serving_def eff(6))
  note inv = runListener_inv [OF Cons.prems(1) j(1), of env]
  show ?case
    unfolding run_listeners_simps
  proof (rule Cons.IH)
    show "start_inv (runListener env j m)" by (rule inv(1))
    show "set order \<subseteq> pending (runListener env j m)" using Cons.prems(2,3) inv(2) by auto
    show "distinct order" using Cons.prems(3) by simp
    show "distinct (map route_listen (active_routes (runListener env j m)))"
      "cooperative env (active_routes (runListener env j m))"
      using Cons.prems(4,5) by (simp_all only: active)
    show "serving (runListener env j m) k"
      if "k < length (rm_heap (runListener env j m))" "k \<notin> pending (runListener env j m)" for k
      using that Cons.prems(6) [of k] by (auto simp: srv inv(2) eff(4))
    show "i < length (rm_heap (runListener env j m))" using Cons.prems(7) by (simp add: eff(4))
    show "i \<notin> pending (runListener env j m) - set order" using Cons.prems(8) inv(2) by auto
  qed
qed

section \<open>Stop\<close>

lemma shutdownRoute_effect:
  assumes i: "i < length (rm_heap m)"
  shows "stop_effect i StateStopped m (shutdownRoute i m)"
  using i by (auto simp: stop_effect_def shutdownRoute_def release_def rt_def close_closer_def Let_def)

lemma shutdownRoutes_wf:
  "rm_wf_but UNIV m \<Longrightarrow> set is \<subseteq> set (rm_routes m) \<Longrightarrow>
     rm_wf_but UNIV (shutdownRoutes is m) \<and> rm_routes (shutdownRoutes is m) = rm_routes m \<and>
     rm_running (shutdownRoutes is m) = rm_running m \<and>
     (\<forall>j. rl_state (rl_at (shutdownRoutes is m) j) = (if j \<in> set is then StateStopped else rl_state (rl_at m j)))"
proof (induction "is" arbitrary: m)
  case Nil
  then show ?case by (simp add: shutdownRoutes_def)
next
  case (Cons i "is")
  have i: "i \<in> set (rm_routes m)" "i < length (rm_heap m)" using Cons.prems by (auto simp: rm_wf_but_def)
  note eff = shutdownRoute_effect [OF i(2)]
  have "rm_wf_but UNIV (shutdownRoute i m)"
  proof (cases "rm_routeMap m (key_of m i) = Some i")
    case True
    then show ?thesis by (rule stop_effect_wf [OF Cons.prems(1) eff]) simp
  next
    case False
    then have ns: "\<not> serving m i" using Cons.prems(1) i by (auto simp: rm_wf_but_def)
    then have nb: "rm_bound m (route_listen (rt m i)) \<noteq> Some i" using Cons.prems(1) by (simp add: rm_wf_but_def)
    let ?m' = "shutdownRoute i m"
    have eqs: "rm_routes ?m' = rm_routes m" "rm_routeMap ?m' = rm_routeMap m"
      "length (rm_heap ?m') = length (rm_heap m)" "rt ?m' = rt m" "rm_bound ?m' = rm_bound m"
      "rm_wg ?m' = rm_wg m" "\<And>j. rl_state (rl_at ?m' j) = (if j = i then StateStopped else rl_state (rl_at m j))"
      using eff nb by (auto simp: stop_effect_def)
    have "serving ?m' = serving m" "key_of ?m' = key_of m"
      by (rule ext, use ns in \<open>simp add: serving_def eqs(7)\<close>) (rule ext, simp add: key_of_def eqs(4))
    with Cons.prems(1) show ?thesis unfolding rm_wf_but_def eqs(1-6) by (simp add: eqs(7))
  qed
  moreover have "shutdownRoutes (i # is) m = shutdownRoutes is (shutdownRoute i m)"
    by (simp add: shutdownRoutes_def)
  ultimately show ?case
    using Cons.IH [of "shutdownRoute i m"] Cons.prems(2) eff by (auto simp: stop_effect_def)
qed

lemma Stop_releases:
  assumes wf: "rm_wf m" and run: "rm_running m"
  shows "\<exists>m'. RouteManager_Stop False m = (None, m') \<and> \<not> rm_running m' \<and> rm_bound m' = Map.empty \<and>
    rm_routes m' = rm_routes m \<and> (\<forall>i \<in> set (rm_routes m). rl_state (rl_at m' i) = StateStopped)"
proof -
  define m1 where "m1 = m\<lparr>rm_running := False\<rparr>"
  define m' where "m' = shutdownRoutes (rm_routes m) m1"
  have "rm_wf_but UNIV m1"
    using wf_mono [OF wf, of UNIV]
    by (simp add: m1_def rm_wf_but_def rt_def key_of_def serving_def [abs_def])
  then have inv: "rm_wf_but UNIV m'" "rm_routes m' = rm_routes m" "\<not> rm_running m'"
    "\<And>i. i \<in> set (rm_routes m) \<Longrightarrow> rl_state (rl_at m' i) = StateStopped"
    using shutdownRoutes_wf [of m1 "rm_routes m"] by (simp_all add: m'_def m1_def)
  have none: "\<not> serving m' i" if "i \<in> set (rm_routes m)" for i
    using inv(4) [OF that] by (simp add: serving_def)
  have "rm_bound m' p \<noteq> Some i" for p i using inv(1,2) none by (auto simp: rm_wf_but_def)
  then have "rm_bound m' = Map.empty" by (auto simp: fun_eq_iff) (metis not_Some_eq)
  moreover have "rm_wg m' = 0"
    using inv(1,2) none by (simp add: rm_wf_but_def filter_empty_conv)
  moreover have "RouteManager_Stop False m = (waitForShutdown False m', m')"
    using run by (simp add: RouteManager_Stop_def Stop_begin_def m'_def m1_def Let_def)
  ultimately show ?thesis using inv by (simp add: waitForShutdown_def)
qed

section \<open>Histories\<close>

text \<open>A manager as the program builds it, started on its first configuration; the listener
  goroutines run in the given order.\<close>

definition boot_manager ::
  "('t, 'w) route_manager \<Rightarrow> 'w option option \<Rightarrow> 't option \<Rightarrow> config \<Rightarrow> (route \<Rightarrow> config option) \<Rightarrow>
     net_env \<Rightarrow> nat list \<Rightarrow> ('t, 'w) route_manager" where
  "boot_manager m wake tracker cfg at env order =
     (let m = (case wake of None \<Rightarrow> m | Some opts \<Rightarrow> SetWakeOptions opts m)
      in run_listeners env order (snd (RouteManager_Start (Some cfg) at (SetIdleTracker tracker m))))"

text \<open>Reloads of the configurations \<open>cs\<close>, each in an environment that satisfies \<open>P\<close>.\<close>

inductive reloaded ::
  "(net_env \<Rightarrow> config \<Rightarrow> bool) \<Rightarrow> ('t, 'w) route_manager \<Rightarrow> config list \<Rightarrow> ('t, 'w) route_manager \<Rightarrow> bool"
  for P m where
  no_reload: "reloaded P m [] m"
| one_reload: "reloaded P m cs m1 \<Longrightarrow> P env c \<Longrightarrow>
    range_order newOrder (route_map (cfg_routes c)) \<Longrightarrow> range_order oldOrder (route_map (active_routes m1)) \<Longrightarrow>
    handleReload env newOrder oldOrder (Some c) at m1 = (e, m2) \<Longrightarrow> reloaded P m (cs @ [c]) m2"

definition start_order :: "config \<Rightarrow> nat list \<Rightarrow> bool" where
  "start_order cfg order \<longleftrightarrow> distinct order \<and> set order = {0..<length (cfg_routes cfg)}"

lemma distinct_ports_keys: "distinct (map route_listen rs) \<Longrightarrow> distinct (map routeKey rs)"
  by (auto simp: distinct_map inj_on_def routeKey_eq_iff)

lemma start_listeners_running [simp]: "rm_running (start_listeners at rs m) = rm_running m"
  by (induction rs arbitrary: m) (simp_all add: add_listener_def)

lemma boot_start:
  assumes new: "NewRouteManager True True True True = Inr m0"
    and ports: "distinct (map route_listen (cfg_routes cfg))" and order: "start_order cfg order"
  shows "\<exists>m. boot_manager m0 wake tracker cfg at env order = run_listeners env order m \<and> start_inv m \<and>
    pending m = set order \<and> active_routes m = cfg_routes cfg \<and> rm_running m"
proof -
  define m1 where "m1 = m0\<lparr>rm_wakeOptions := wake, rm_idleTracker := tracker, rm_running := True\<rparr>"
  have m0: "m0 = \<lparr>rm_wakeOptions = None, rm_idleTracker = None, rm_metrics = None, rm_heap = [],
      rm_routes = [], rm_routeMap = Map.empty, rm_running = False, rm_wg = 0,
      rm_shutdownTimeout = defaultShutdownTimeout, rm_bound = Map.empty\<rparr>"
    using new by (simp add: NewRouteManager_def validateDependencies_def)
  define m where "m = start_listeners at (cfg_routes cfg) m1"
  have boot: "boot_manager m0 wake tracker cfg at env order = run_listeners env order m"
    by (cases wake) (simp_all add: boot_manager_def SetWakeOptions_def SetIdleTracker_def RouteManager_Start_def m_def m1_def m0)
  have "start_inv m1" "pending m1 = {0..<length (rm_heap m1)}" "active_routes m1 = []"
    by (simp_all add: start_inv_def pending_def m1_def m0 active_routes_def serving_def)
  with start_listeners_inv [of m1 "cfg_routes cfg" at] distinct_ports_keys [OF ports]
  have inv: "start_inv m" "pending m = {0..<length (rm_heap m)}" "active_routes m = cfg_routes cfg"
    by (simp_all add: m_def)
  then have "length (rm_heap m) = length (cfg_routes cfg)"
    by (metis active_routes_def diff_zero length_map length_upt start_inv_def)
  moreover have "rm_running m" by (simp add: m_def m1_def)
  ultimately show ?thesis using boot inv order by (auto simp: start_order_def)
qed

lemma boot_wf:
  assumes "NewRouteManager True True True True = Inr m0" and "distinct (map route_listen (cfg_routes cfg))"
    and "start_order cfg order"
  shows "rm_wf (boot_manager m0 wake tracker cfg at env order)"
    and "active_routes (boot_manager m0 wake tracker cfg at env order) = cfg_routes cfg"
    and "rm_running (boot_manager m0 wake tracker cfg at env order)"
proof -
  obtain m where m: "boot_manager m0 wake tracker cfg at env order = run_listeners env order m" "start_inv m"
      "pending m = set order" "active_routes m = cfg_routes cfg" "rm_running m"
    using boot_start [OF assms] by blast
  note run = run_listeners_inv [OF m(2), of order env]
  show "rm_wf (boot_manager m0 wake tracker cfg at env order)"
    unfolding m(1) by (rule start_inv_wf) (use run m(3) assms(3) in \<open>simp_all add: start_order_def\<close>)
  show "active_routes (boot_manager m0 wake tracker cfg at env order) = cfg_routes cfg"
    "rm_running (boot_manager m0 wake tracker cfg at env order)"
    unfolding m(1) using run m assms(3) by (simp_all add: start_order_def)
qed

lemma boot_serving:
  assumes new: "NewRouteManager True True True True = Inr m0" and ports: "distinct (map route_listen (cfg_routes cfg))" and order: "start_order cfg order"
    and env: "cooperative env (cfg_routes cfg)"
  shows "all_serving (boot_manager m0 wake tracker cfg at env order)"
proof -
  obtain m where m: "boot_manager m0 wake tracker cfg at env order = run_listeners env order m" "start_inv m"
      "pending m = set order" "active_routes m = cfg_routes cfg"
    using boot_start [OF assms(1-3)] by blast
  have dist: "distinct order" using order by (simp add: start_order_def)
  have len: "length (rm_heap (run_listeners env order m)) = length (rm_heap m)"
    using run_listeners_inv [OF m(2), of order env] m dist
    by (metis active_routes_def diff_zero length_map length_upt start_inv_def subset_refl)
  have pend: "pending m = {0..<length (rm_heap m)}"
  proof -
    have "length (rm_heap m) = length (cfg_routes cfg)"
      using m by (metis active_routes_def diff_zero length_map length_upt start_inv_def)
    with m(3) order show ?thesis by (simp add: start_order_def)
  qed
  have "serving (run_listeners env order m) i" if "i < length (rm_heap m)" for i
    by (rule run_listeners_serving [OF m(2) _ dist])
      (use m(3,4) ports env that pend in auto)
  moreover have "rm_routes (run_listeners env order m) = [0..<length (rm_heap (run_listeners env order m))]"
    using run_listeners_inv [OF m(2), of order env] m dist by (simp add: start_inv_def)
  ultimately show ?thesis by (simp add: m(1) all_serving_def len)
qed

lemma reloaded_wf: "reloaded P m cs m' \<Longrightarrow> rm_wf m \<Longrightarrow> rm_wf m'"
proof (induction rule: reloaded.induct)
  case (one_reload cs m1 env c newOrder oldOrder at e m2)
  then show ?case using handleReload_wf [of m1 newOrder c oldOrder env at] by simp
qed

definition grants :: "net_env \<Rightarrow> config \<Rightarrow> bool" where
  "grants env c \<longleftrightarrow> distinct (map route_listen (cfg_routes c)) \<and> cooperative env (cfg_routes c)"

lemma reloaded_converges:
  "reloaded grants m cs m' \<Longrightarrow> rm_wf m \<Longrightarrow> all_serving m \<Longrightarrow> route_map (active_routes m) = route_map (cfg_routes c0) \<Longrightarrow>
     rm_wf m' \<and> all_serving m' \<and> route_map (active_routes m') = route_map (cfg_routes (last (c0 # cs)))"
proof (induction rule: reloaded.induct)
  case no_reload
  then show ?case by simp
next
  case (one_reload cs m1 env c newOrder oldOrder at e m2)
  then show ?case
    using handleReload_converges [of m1 newOrder c oldOrder env at] by (auto simp: grants_def)
qed

lemma served_ports:
  assumes wf: "rm_wf m" and serving: "all_serving m" and routes: "route_map (active_routes m) = route_map rs"
    and ports: "distinct (map route_listen rs)"
  shows "r \<in> set (active_routes m) \<longleftrightarrow> r \<in> set rs"
    and "(\<exists>i. rm_bound m p = Some i) \<longleftrightarrow> p \<in> route_listen ` set rs"
proof -
  have eq: "r \<in> set (active_routes m) \<longleftrightarrow> r \<in> set rs" for r
    using route_map_ports [OF ports, of r] route_map_ports [OF serving_ports [OF wf serving], of r] routes by simp
  then show "r \<in> set (active_routes m) \<longleftrightarrow> r \<in> set rs" .
  have "(\<exists>i. rm_bound m p = Some i) \<longleftrightarrow> p \<in> route_listen ` set (active_routes m)"
    using wf serving by (auto simp: rm_wf_but_def all_serving_def active_routes_def rt_def image_iff)
  moreover have "set (active_routes m) = set rs" using eq by blast
  ultimately show "(\<exists>i. rm_bound m p = Some i) \<longleftrightarrow> p \<in> route_listen ` set rs" by simp
qed

section \<open>The life cycle contract\<close>

lemma RouteManager_cycle:
  "rm_running s \<Longrightarrow> \<exists>e. RouteManager_Start (Some cfg) at s = (Some e, s)"
  "\<not> rm_running s \<Longrightarrow> RouteManager_Start (Some cfg) at s = (r, t) \<Longrightarrow> (if r = None then rm_running t else t = s)"
  "\<not> rm_running s \<Longrightarrow> \<exists>e. RouteManager_Stop deadline s = (Some e, s)"
  by (auto simp: RouteManager_Start_def RouteManager_Stop_def Stop_begin_def)

lemma shutdownRoute_running [simp]: "rm_running (shutdownRoute i m) = rm_running m"
  by (simp add: shutdownRoute_def)

lemma shutdownRoutes_running [simp]: "rm_running (shutdownRoutes is m) = rm_running m"
  by (induction "is" arbitrary: m) (simp_all add: shutdownRoutes_def)

interpretation route_cycle: lifecycle rm_running "RouteManager_Start (Some cfg) at" "RouteManager_Stop deadline"
proof
  show "rm_running s \<Longrightarrow> \<exists>e. RouteManager_Start (Some cfg) at s = (Some e, s)" for s :: "('a, 'b) route_manager"
    by (rule RouteManager_cycle(1))
  show "\<not> rm_running s \<Longrightarrow> RouteManager_Start (Some cfg) at s = (r, t) \<Longrightarrow> (if r = None then rm_running t else t = s)"
    for s t :: "('a, 'b) route_manager" and r by (rule RouteManager_cycle(2))
  show "\<not> rm_running s \<Longrightarrow> \<exists>e. RouteManager_Stop deadline s = (Some e, s)" for s :: "('a, 'b) route_manager"
    by (rule RouteManager_cycle(3))
  show "rm_running s \<Longrightarrow> \<not> rm_running (snd (RouteManager_Stop deadline s))" for s :: "('a, 'b) route_manager"
    by (simp add: RouteManager_Stop_def Stop_begin_def Let_def)
qed

section \<open>An example\<close>

definition example_route :: "string \<Rightarrow> int \<Rightarrow> string \<Rightarrow> route" where
  "example_route n p u = \<lparr>route_name = n, route_listen = p, route_upstream = u, route_server = ''s1''\<rparr>"

definition example_server :: server where
  "example_server = zero_server\<lparr>srv_wakeOnLan :=
     \<lparr>wol_enabled = True, wol_machineID = ''box'', wol_timeout = 0, wol_debounce = 0\<rparr>\<rparr>"

definition example_cfg :: "route list \<Rightarrow> config" where
  "example_cfg rs = \<lparr>cfg_settings = zero_settings, cfg_servers = [''s1'' \<mapsto> example_server], cfg_routes = rs\<rparr>"

definition example_cfg1 :: config where
  "example_cfg1 = example_cfg [example_route ''a'' 80 ''http://u1'', example_route ''b'' 81 ''http://u2'']"

text \<open>Route a moves to the port of route b, which is removed.\<close>

definition example_cfg2 :: config where
  "example_cfg2 = example_cfg [example_route ''a'' 81 ''http://u1'', example_route ''c'' 80 ''http://u3'']"

definition granting_env :: net_env where
  "granting_env = \<lparr>ne_refuse = (\<lambda>_. None), ne_shutdown = (\<lambda>_. None), ne_slow = (\<lambda>_. False)\<rparr>"

definition empty_manager :: "(nat, nat) route_manager" where
  "empty_manager = \<lparr>rm_wakeOptions = None, rm_idleTracker = None, rm_metrics = None, rm_heap = [],
     rm_routes = [], rm_routeMap = Map.empty, rm_running = False, rm_wg = 0,
     rm_shutdownTimeout = defaultShutdownTimeout, rm_bound = Map.empty\<rparr>"

definition example_manager :: "net_env \<Rightarrow> (nat, nat) route_manager" where
  "example_manager env =
     boot_manager empty_manager (Some (Some 1)) (Some 2) example_cfg1 (\<lambda>_. Some example_cfg1) env [1, 0]"

lemma example_new_manager: "NewRouteManager True True True True = Inr empty_manager"
  by (simp add: NewRouteManager_def validateDependencies_def empty_manager_def)

lemma example_ports:
  "distinct (map route_listen (cfg_routes example_cfg1))" "distinct (map route_listen (cfg_routes example_cfg2))"
  "start_order example_cfg1 [1, 0]" "grants granting_env c \<longleftrightarrow> distinct (map route_listen (cfg_routes c))"
  by (auto simp: example_cfg1_def example_cfg2_def example_cfg_def example_route_def start_order_def grants_def
      cooperative_def granting_env_def)

lemma example_keys:
  "routeKey (example_route ''a'' 80 u) = ''a:80''" "routeKey (example_route ''b'' 81 u) = ''b:81''"
  "routeKey (example_route ''a'' 81 u) = ''a:81''" "routeKey (example_route ''c'' 80 u) = ''c:80''"
  by code_simp+

lemma example_order1: "range_order [''a:80'', ''b:81''] (route_map (cfg_routes example_cfg1))"
  by (simp add: example_cfg1_def example_cfg_def route_map_def range_order_def example_keys) auto

lemma example_order2: "range_order [''a:81'', ''c:80''] (route_map (cfg_routes example_cfg2))"
  by (simp add: example_cfg2_def example_cfg_def route_map_def range_order_def example_keys) auto

section \<open>Properties\<close>

text \<open>C4. After Start and any number of reloads, as long as every configuration has distinct ports
  and the system grants them, exactly the routes of the last configuration are served: every
  listener is running with the upstream and server of that configuration, and exactly its ports
  are bound (in particular the ports freed by a reload can be used by the routes it starts).\<close>

theorem routes_follow_configuration:
  assumes "NewRouteManager True True True True = Inr m0"
    and "grants env cfg" and "start_order cfg order"
    and "reloaded grants (boot_manager m0 wake tracker cfg at env order) cs m"
  defines "current \<equiv> last (cfg # cs)"
  shows "(r \<in> set (active_routes m) \<longleftrightarrow> r \<in> set (cfg_routes current)) \<and>
    GetActiveRouteCount m = length (rm_routes m) \<and>
    ((\<exists>i. rm_bound m p = Some i) \<longleftrightarrow> p \<in> route_listen ` set (cfg_routes current))"
proof -
  have ports: "distinct (map route_listen (cfg_routes cfg))" and env: "cooperative env (cfg_routes cfg)"
    using assms(2) by (simp_all add: grants_def)
  note boot = boot_wf [OF assms(1) ports assms(3)] boot_serving [OF assms(1) ports assms(3) env]
  have conv: "rm_wf m" "all_serving m" "route_map (active_routes m) = route_map (cfg_routes current)"
    using reloaded_converges [OF assms(4), of cfg] boot by (simp_all add: current_def)
  have "distinct (map route_listen (cfg_routes current))"
  proof (cases cs rule: rev_cases)
    case Nil
    with ports show ?thesis by (simp add: current_def)
  next
    case (snoc cs' c)
    with assms(4) have "grants env' c \<Longrightarrow> ?thesis" for env' by (simp add: current_def grants_def)
    moreover from assms(4) snoc obtain env' where "grants env' c" by (cases rule: reloaded.cases) auto
    ultimately show ?thesis by blast
  qed
  with served_ports [OF conv] conv(2) show ?thesis
    by (simp add: GetActiveRouteCount_def all_serving_def serving_def)
qed

theorem routes_follow_configuration_witness:
  "\<exists>m. reloaded grants (example_manager granting_env) [example_cfg2] m \<and>
     example_route ''a'' 81 ''http://u1'' \<in> set (active_routes m) \<and> (\<exists>i. rm_bound m 81 = Some i)"
proof -
  obtain e m where m: "handleReload granting_env [''a:81'', ''c:80''] [''a:80'', ''b:81''] (Some example_cfg2)
      (\<lambda>_. Some example_cfg2) (example_manager granting_env) = (e, m)" by fastforce
  have "active_routes (example_manager granting_env) = cfg_routes example_cfg1"
    unfolding example_manager_def by (rule boot_wf(2) [OF example_new_manager example_ports(1,3)])
  then have "reloaded grants (example_manager granting_env) ([] @ [example_cfg2]) m"
    using example_order1 example_order2 example_ports(2,4) by (intro one_reload [OF no_reload _ _ _ m]) simp_all
  then have r: "reloaded grants (example_manager granting_env) [example_cfg2] m" by simp
  have "example_route ''a'' 81 ''http://u1'' \<in> set (cfg_routes example_cfg2)"
    "81 \<in> route_listen ` set (cfg_routes example_cfg2)"
    by (simp_all add: example_cfg2_def example_cfg_def example_route_def)
  with routes_follow_configuration [OF example_new_manager _ example_ports(3) r [unfolded example_manager_def]]
    example_ports(1,4) r show ?thesis by auto
qed

text \<open>No listener is ever leaked: whatever the system answers (ports refused, shutdowns that
  fail, slow starts), after Start and any number of reloads every bound port belongs to a listener
  that the manager tracks as the current one for its route and that is running, and the wait group
  counts exactly the listeners that serve.\<close>

theorem no_listener_leaked:
  assumes "NewRouteManager True True True True = Inr m0"
    and "distinct (map route_listen (cfg_routes cfg))" and "start_order cfg order"
    and "reloaded (\<lambda>_ _. True) (boot_manager m0 wake tracker cfg at env order) cs m"
  shows "(rm_bound m p = Some i \<longrightarrow>
      i \<in> set (rm_routes m) \<and> rl_state (rl_at m i) = StateRunning \<and> route_listen (rl_route (rl_at m i)) = p \<and>
      rm_routeMap m (routeKey (rl_route (rl_at m i))) = Some i) \<and>
    rm_wg m = GetActiveRouteCount m"
  using reloaded_wf [OF assms(4) boot_wf(1) [OF assms(1-3)]]
  by (auto simp: rm_wf_but_def serving_def [abs_def] key_of_def rt_def GetActiveRouteCount_def)

definition refusing_env :: net_env where
  "refusing_env = granting_env\<lparr>ne_refuse := (\<lambda>p. if p = 81 then Some ''permission denied'' else None)\<rparr>"

theorem no_listener_leaked_witness:
  "\<exists>m i. reloaded (\<lambda>_ _. True) (example_manager refusing_env) [] m \<and> rm_bound m 80 = Some i \<and>
     rl_state (rl_at m i) = StateRunning \<and> rm_wg m = GetActiveRouteCount m \<and> GetActiveRouteCount m = 1"
proof -
  have r: "reloaded (\<lambda>_ _. True) (example_manager refusing_env) [] (example_manager refusing_env)"
    by (rule reloaded.intros)
  have "rm_bound (example_manager refusing_env) 80 = Some 0 \<and> GetActiveRouteCount (example_manager refusing_env) = 1"
    by code_simp
  with no_listener_leaked [OF example_new_manager example_ports(1,3) r [unfolded example_manager_def],
      folded example_manager_def, of 80 0] r
  show ?thesis by blast
qed

text \<open>Stop on a running manager (when the shutdown deadline does not pass) returns nil, stops
  every listener and frees every port.\<close>

theorem stop_frees_every_port:
  assumes "NewRouteManager True True True True = Inr m0"
    and "distinct (map route_listen (cfg_routes cfg))" and "start_order cfg order"
    and "reloaded (\<lambda>_ _. True) (boot_manager m0 wake tracker cfg at env order) cs m" and "rm_running m"
  shows "\<exists>m'. RouteManager_Stop False m = (None, m') \<and> \<not> rm_running m' \<and> rm_bound m' = Map.empty \<and>
    rm_routes m' = rm_routes m \<and> list_all (\<lambda>i. rl_state (rl_at m' i) = StateStopped) (rm_routes m')"
  using Stop_releases [OF reloaded_wf [OF assms(4) boot_wf(1) [OF assms(1-3)]] assms(5)]
  by (auto simp: list_all_iff)

theorem stop_frees_every_port_witness:
  "\<exists>m'. RouteManager_Stop False (example_manager refusing_env) = (None, m') \<and> rm_bound m' = Map.empty"
proof -
  have "reloaded (\<lambda>_ _. True) (example_manager refusing_env) [] (example_manager refusing_env)"
    by (rule reloaded.intros)
  moreover have "rm_running (example_manager refusing_env)"
    unfolding example_manager_def by (rule boot_wf(3) [OF example_new_manager example_ports(1,3)])
  ultimately show ?thesis
    using stop_frees_every_port [OF example_new_manager example_ports(1,3), of "Some (Some 1)" "Some 2"
        "\<lambda>_. Some example_cfg1" refusing_env "[]" "example_manager refusing_env"]
    by (auto simp: example_manager_def)
qed

text \<open>A reload looks at routes only: when the new configuration has the routes the manager
  already has, nothing happens, so a listener that failed to start is not started again and a
  change of the servers (Wake-on-LAN enabled, machine ID, timeouts) does not reach the wake
  coordinators.\<close>

theorem reload_ignores_states_and_servers:
  assumes "range_order newOrder (route_map (cfg_routes cfg))"
    and "range_order oldOrder (route_map (active_routes m))"
    and "route_map (active_routes m) = route_map (cfg_routes cfg)"
  shows "handleReload env newOrder oldOrder (Some cfg) at m = (None, m)"
  using detectChanges_skip_iff [OF assms(1,2)] assms(3) by (simp add: handleReload_def Let_def)

theorem reload_ignores_states_and_servers_witness:
  "rl_state (rl_at (example_manager refusing_env) 1) = StateFailed \<and>
   rl_wake (rl_at (example_manager refusing_env) 0) \<noteq> None \<and>
   handleReload granting_env [''a:80'', ''b:81''] [''a:80'', ''b:81'']
     (Some (example_cfg1\<lparr>cfg_servers := Map.empty\<rparr>)) (\<lambda>_. Some example_cfg1) (example_manager refusing_env)
     = (None, example_manager refusing_env)"
proof (intro conjI)
  show "rl_state (rl_at (example_manager refusing_env) 1) = StateFailed" by code_simp
  show "rl_wake (rl_at (example_manager refusing_env) 0) \<noteq> None" by code_simp
  have "active_routes (example_manager refusing_env) = cfg_routes example_cfg1"
    unfolding example_manager_def by (rule boot_wf(2) [OF example_new_manager example_ports(1,3)])
  then show "handleReload granting_env [''a:80'', ''b:81''] [''a:80'', ''b:81'']
     (Some (example_cfg1\<lparr>cfg_servers := Map.empty\<rparr>)) (\<lambda>_. Some example_cfg1) (example_manager refusing_env)
     = (None, example_manager refusing_env)"
    using example_order1 by (intro reload_ignores_states_and_servers) simp_all
qed

text \<open>A route gets a wake coordinator exactly when Wake-on-LAN options with a sender are set and
  its server exists, has Wake-on-LAN enabled and a machine ID; the coordinator then wakes the
  route's server with a positive timeout and debounce, and has no metrics registry.\<close>

theorem wake_coordinator_attached:
  "(wrapWithWakeCoordinator getCfg m r \<noteq> None) =
     (\<exists>sender cfg srv. rm_wakeOptions m = Some (Some sender) \<and> route_server r \<noteq> [] \<and> getCfg = Some cfg \<and>
        cfg_servers cfg (route_server r) = Some srv \<and> wol_enabled (srv_wakeOnLan srv) \<and>
        wol_machineID (srv_wakeOnLan srv) \<noteq> []) \<and>
   (wrapWithWakeCoordinator getCfg m r = Some c \<longrightarrow>
      wc_serverID c = route_server r \<and> 0 < wc_wakeTimeout c \<and> 0 < wc_debounce c \<and>
      0 < wc_pollInterval c \<and> wc_metrics c = None)"
  by (auto simp: wrapWithWakeCoordinator_def NewWakeCoordinator_def validateWakeCoordinatorConfig_def
      Let_def defaultWakeTimeout_def defaultWakeDebounce_def defaultPollInterval_def go_time
      split: option.splits if_splits)

theorem wake_coordinator_attached_witness:
  "\<exists>c. wrapWithWakeCoordinator (Some example_cfg1) (empty_manager\<lparr>rm_wakeOptions := Some (Some 1)\<rparr>)
      (example_route ''a'' 80 ''http://u1'') = Some c \<and> 0 < wc_debounce c"
proof -
  have "wrapWithWakeCoordinator (Some example_cfg1) (empty_manager\<lparr>rm_wakeOptions := Some (Some 1)\<rparr>)
      (example_route ''a'' 80 ''http://u1'') \<noteq> None"
    using wake_coordinator_attached [of "Some example_cfg1" "empty_manager\<lparr>rm_wakeOptions := Some (Some 1)\<rparr>"
        "example_route ''a'' 80 ''http://u1''"]
    by (simp add: example_cfg1_def example_cfg_def example_route_def example_server_def)
  then obtain c where "wrapWithWakeCoordinator (Some example_cfg1) (empty_manager\<lparr>rm_wakeOptions := Some (Some 1)\<rparr>)
      (example_route ''a'' 80 ''http://u1'') = Some c" by blast
  with wake_coordinator_attached [of "Some example_cfg1" "empty_manager\<lparr>rm_wakeOptions := Some (Some 1)\<rparr>"
        "example_route ''a'' 80 ''http://u1''" c] show ?thesis by blast
qed

text \<open>Validation does not forbid two routes with the same name and port. The second one cannot bind the port and takes
  the place of the first in the route map; when a reload removes the key, the second is stopped and both are
  dropped, so that the first serves its port for ever and no operation of the manager reaches it.\<close>

definition twin_manager :: "(nat, nat) route_manager" where
  "twin_manager = boot_manager empty_manager None None
     (example_cfg [example_route ''a'' 80 ''http://u1'', example_route ''a'' 80 ''http://u2'']) (\<lambda>_. None) granting_env [0, 1]"

lemma route_of: "route_listen (example_route n p u) = p" "route_name (example_route n p u) = n"
  by (simp_all add: example_route_def)

theorem twin_routes_leak_a_listener:
  "\<exists>m. handleReload granting_env [''b:81''] [''a:80''] (Some (example_cfg [example_route ''b'' 81 ''http://u2''])) (\<lambda>_. None)
       twin_manager = (None, m) \<and>
     rm_bound m 80 = Some 0 \<and> 0 \<notin> set (rm_routes m) \<and> rm_routeMap m ''a:80'' = None \<and>
     rm_bound (snd (RouteManager_Stop False m)) 80 = Some 0"
proof -
  have tm: "twin_manager = \<lparr>rm_wakeOptions = None, rm_idleTracker = None, rm_metrics = None,
      rm_heap = [\<lparr>rl_route = example_route ''a'' 80 ''http://u1'', rl_state = StateRunning, rl_startErr = None, rl_wake = None, rl_activity = None\<rparr>,
        \<lparr>rl_route = example_route ''a'' 80 ''http://u2'', rl_state = StateFailed,
         rl_startErr = Some ''bind: address already in use'', rl_wake = None, rl_activity = None\<rparr>],
      rm_routes = [0, 1], rm_routeMap = [''a:80'' \<mapsto> 1], rm_running = True, rm_wg = 1,
      rm_shutdownTimeout = defaultShutdownTimeout, rm_bound = [80 \<mapsto> 0]\<rparr>"
    by (simp add: twin_manager_def boot_manager_def SetIdleTracker_def RouteManager_Start_def empty_manager_def example_cfg_def
        add_listener_def createListener_def wrapWithWakeCoordinator_def run_listeners_def runListener_def upd_rl_def rl_at_def
        listen_error_def granting_env_def example_keys route_of Let_def)
  define ch where "ch = \<lparr>added = [example_route ''b'' 81 ''http://u2''], removed = [''a:80''], modified = [], unchanged = []\<rparr>"
  have "active_routes twin_manager = [example_route ''a'' 80 ''http://u1'', example_route ''a'' 80 ''http://u2'']"
    by (simp add: tm active_routes_def rl_at_def)
  moreover have "detectChanges [''b:81''] [''a:80''] [example_route ''a'' 80 ''http://u1'', example_route ''a'' 80 ''http://u2'']
      [example_route ''b'' 81 ''http://u2''] = ch"
    by (simp add: ch_def detectChanges_def route_map_def classify_new_def classify_old_def no_changes_def example_keys)
  ultimately have eq: "handleReload granting_env [''b:81''] [''a:80''] (Some (example_cfg [example_route ''b'' 81 ''http://u2''])) (\<lambda>_. None)
       twin_manager = applyRouteChanges granting_env (\<lambda>_. None) ch twin_manager"
    by (simp add: handleReload_def example_cfg_def) (simp add: ch_def)
  have ap: "\<exists>m. applyRouteChanges granting_env (\<lambda>_. None) ch twin_manager = (None, m) \<and>
      rm_bound m = [80 \<mapsto> 0, 81 \<mapsto> 2] \<and> rm_routes m = [2] \<and> rm_routeMap m = [''b:81'' \<mapsto> 2] \<and> rm_running m \<and>
      rl_route (rl_at m 2) = example_route ''b'' 81 ''http://u2'' \<and> length (rm_heap m) = 3"
    unfolding tm
    by (simp add: ch_def applyRouteChanges_def stopRoute_def startRoute_def cleanupStoppedRoutes_def release_def close_closer_def
        drop_stopped_def add_listener_def createListener_def wrapWithWakeCoordinator_def runListener_def upd_rl_def rl_at_def
        listen_error_def granting_env_def example_keys start_result_def reload_outcome_def route_of Let_def numeral_2_eq_2)
  then obtain m where m: "applyRouteChanges granting_env (\<lambda>_. None) ch twin_manager = (None, m)" "rm_bound m = [80 \<mapsto> 0, 81 \<mapsto> 2]"
    "rm_routes m = [2]" "rm_routeMap m = [''b:81'' \<mapsto> 2]" "rm_running m"
    "rl_route (rl_at m 2) = example_route ''b'' 81 ''http://u2''" "length (rm_heap m) = 3" by blast
  have "rm_bound (snd (RouteManager_Stop False m)) 80 = Some 0"
    using m(2-) by (simp add: RouteManager_Stop_def Stop_begin_def shutdownRoutes_def shutdownRoute_def release_def route_of Let_def)
  with m show ?thesis unfolding eq by (intro exI [of _ m]) simp
qed

end
