(* ===== verification/Listener.thy ===== *)
theory Listener
  imports RouteManager
begin

text \<open>
  The state of one listener under its three threads: the goroutine \<open>runListener\<close>, the timer
  goroutine that \<open>runListener\<close> spawns to announce the listener as running after 100 ms, and a
  caller of \<open>stopRoute\<close> or \<open>Stop\<close>. Each step is one critical section of \<open>stateMu\<close> or one call on
  the HTTP server.
\<close>

section \<open>Threads\<close>

datatype run_pc = RunStart | RunListen | RunServe | RunFail string | RunAnnounce | RunDone

datatype timer_pc = TimerNone | TimerSleep | TimerSet | TimerAnnounce | TimerDone

datatype stop_pc = StopNone | StopShutdown | StopSet | StopDone

record listener =
  ls_state :: listener_state
  ls_startErr :: "string option"
  ls_started :: bool
  ls_listening :: bool
  ls_closed :: bool
  ls_run :: run_pc
  ls_timer :: timer_pc
  ls_stop :: stop_pc

definition new_listener :: listener where
  "new_listener = \<lparr>ls_state = StateInitial, ls_startErr = None, ls_started = False, ls_listening = False,
     ls_closed = False, ls_run = RunStart, ls_timer = TimerNone, ls_stop = StopNone\<rparr>"

text \<open>
  \<open>runListener\<close>; \<open>bind\<close> is the error of binding the port, if the server gets to try.
  \<open>ListenAndServe\<close> on a server that has been shut down returns \<open>ErrServerClosed\<close> at once.
\<close>

definition run_step :: "string option \<Rightarrow> listener \<Rightarrow> listener option" where
  "run_step bind l =
     (case ls_run l of
        RunStart \<Rightarrow> Some (l\<lparr>ls_state := StateStarting, ls_timer := TimerSleep, ls_run := RunListen\<rparr>)
      | RunListen \<Rightarrow>
          if ls_closed l then Some (l\<lparr>ls_run := RunDone\<rparr>)
          else (case bind of
              None \<Rightarrow> Some (l\<lparr>ls_listening := True, ls_run := RunServe\<rparr>)
            | Some e \<Rightarrow> Some (l\<lparr>ls_run := RunFail e\<rparr>))
      | RunServe \<Rightarrow> if ls_closed l then Some (l\<lparr>ls_run := RunDone\<rparr>) else None
      | RunFail e \<Rightarrow> Some (l\<lparr>ls_state := StateFailed, ls_startErr := Some e, ls_run := RunAnnounce\<rparr>)
      | RunAnnounce \<Rightarrow> Some (l\<lparr>ls_started := True, ls_run := RunDone\<rparr>)
      | RunDone \<Rightarrow> None)"

text \<open>The timer goroutine reads the state, and sets it in a second critical section.\<close>

definition timer_step :: "listener \<Rightarrow> listener option" where
  "timer_step l =
     (case ls_timer l of
        TimerNone \<Rightarrow> None
      | TimerSleep \<Rightarrow>
          Some (l\<lparr>ls_timer := (if ls_state l = StateStarting then TimerSet else TimerDone)\<rparr>)
      | TimerSet \<Rightarrow> Some (l\<lparr>ls_state := StateRunning, ls_timer := TimerAnnounce\<rparr>)
      | TimerAnnounce \<Rightarrow> Some (l\<lparr>ls_started := True, ls_timer := TimerDone\<rparr>)
      | TimerDone \<Rightarrow> None)"

text \<open>A stop whose shutdown succeeds.\<close>

definition stop_step :: "listener \<Rightarrow> listener option" where
  "stop_step l =
     (case ls_stop l of
        StopNone \<Rightarrow> Some (l\<lparr>ls_state := StateStopping, ls_stop := StopShutdown\<rparr>)
      | StopShutdown \<Rightarrow> Some (l\<lparr>ls_closed := True, ls_listening := False, ls_stop := StopSet\<rparr>)
      | StopSet \<Rightarrow> Some (l\<lparr>ls_state := StateStopped, ls_stop := StopDone\<rparr>)
      | StopDone \<Rightarrow> None)"

datatype listener_action = ARun "string option" | ATimer | AStop

fun listener_exec :: "listener_action \<Rightarrow> listener \<Rightarrow> listener option" where
  "listener_exec (ARun bind) l = run_step bind l"
| "listener_exec ATimer l = timer_step l"
| "listener_exec AStop l = stop_step l"

inductive listener_step :: "listener \<Rightarrow> listener \<Rightarrow> bool" where
  "listener_exec a l = Some l' \<Longrightarrow> listener_step l l'"

inductive_cases listener_stepE: "listener_step l l'"

fun listener_run :: "listener_action list \<Rightarrow> listener \<Rightarrow> listener option" where
  "listener_run [] l = Some l"
| "listener_run (a # as) l = (case listener_exec a l of None \<Rightarrow> None | Some l' \<Rightarrow> listener_run as l')"

lemma listener_run_steps: "listener_run as l = Some l' \<Longrightarrow> listener_step\<^sup>*\<^sup>* l l'"
proof (induction as arbitrary: l)
  case Nil
  then show ?case by simp
next
  case (Cons a as)
  then show ?case
    by (auto split: option.splits intro: converse_rtranclp_into_rtranclp listener_step.intros)
qed

section \<open>The invariant\<close>

definition bound_now :: "listener \<Rightarrow> bool" where
  "bound_now l \<longleftrightarrow> ls_run l = RunServe \<and> \<not> ls_closed l"

definition listener_inv :: "listener \<Rightarrow> bool" where
  "listener_inv l \<longleftrightarrow>
     (ls_run l = RunStart \<longrightarrow> ls_timer l = TimerNone \<and> \<not> ls_started l) \<and>
     (ls_started l \<longrightarrow> ls_state l \<noteq> StateInitial \<and> ls_state l \<noteq> StateStarting) \<and>
     (ls_timer l = TimerNone \<longrightarrow> ls_run l = RunStart) \<and>
     (ls_timer l = TimerAnnounce \<longrightarrow> ls_state l \<noteq> StateInitial \<and> ls_state l \<noteq> StateStarting) \<and>
     (ls_run l = RunAnnounce \<longrightarrow> ls_startErr l \<noteq> None \<and> ls_state l \<noteq> StateInitial \<and> ls_state l \<noteq> StateStarting) \<and>
     (ls_state l = StateFailed \<longrightarrow> ls_startErr l \<noteq> None \<and> (ls_run l = RunAnnounce \<or> ls_run l = RunDone)) \<and>
     (ls_startErr l \<noteq> None \<longrightarrow> ls_run l = RunAnnounce \<or> ls_run l = RunDone) \<and>
     (ls_listening l = bound_now l) \<and>
     (ls_closed l \<longleftrightarrow> ls_stop l = StopSet \<or> ls_stop l = StopDone) \<and>
     (ls_stop l = StopNone \<longrightarrow> ls_state l \<noteq> StateStopping \<and> ls_state l \<noteq> StateStopped) \<and>
     (ls_run l \<noteq> RunStart \<longrightarrow> ls_state l \<noteq> StateInitial) \<and>
     (ls_timer l = TimerDone \<and> ls_stop l = StopNone \<longrightarrow> ls_state l = StateRunning \<or> ls_state l = StateFailed) \<and>
     (ls_run l = RunDone \<and> ls_stop l = StopNone \<longrightarrow> ls_startErr l \<noteq> None \<and> ls_started l)"

lemma listener_inv_new: "listener_inv new_listener"
  by (simp add: listener_inv_def new_listener_def bound_now_def)

lemma run_inv: "listener_inv l \<Longrightarrow> run_step bind l = Some l' \<Longrightarrow> listener_inv l'"
  unfolding run_step_def
  by (cases "ls_run l"; cases bind; simp split: if_splits; clarify; simp add: listener_inv_def bound_now_def;
      auto)

lemma timer_inv: "listener_inv l \<Longrightarrow> timer_step l = Some l' \<Longrightarrow> listener_inv l'"
  unfolding timer_step_def
  by (cases "ls_timer l"; simp split: if_splits; clarify; simp add: listener_inv_def bound_now_def;
      cases "ls_state l"; auto)

lemma stop_inv: "listener_inv l \<Longrightarrow> stop_step l = Some l' \<Longrightarrow> listener_inv l'"
  unfolding stop_step_def
  by (cases "ls_stop l"; simp split: if_splits; clarify; simp add: listener_inv_def bound_now_def;
      auto)

interpretation listeners: invariant_system "(=) new_listener" listener_step listener_inv
proof
  show "new_listener = s \<Longrightarrow> listener_inv s" for s
    using listener_inv_new by auto
  show "listener_inv s \<Longrightarrow> listener_step s t \<Longrightarrow> listener_inv t" for s t
    by (auto elim!: listener_stepE listener_exec.elims intro: run_inv timer_inv stop_inv)
qed

section \<open>Properties\<close>

text \<open>C32. When a listener has been announced (which is what startRoute waits for) and nobody stops
  it, a failed state comes with its error and means that the port is not served, and a listener
  that serves its port is running as soon as its timer has finished; a port is never served
  after a shutdown.\<close>

theorem announced_listener_state:
  assumes "listener_step\<^sup>*\<^sup>* new_listener l"
  shows "(ls_started l \<and> ls_stop l = StopNone \<longrightarrow> ls_state l = StateRunning \<or> ls_state l = StateFailed) \<and>
    (ls_state l = StateFailed \<longrightarrow> ls_startErr l \<noteq> None \<and> \<not> ls_listening l) \<and>
    (ls_listening l \<and> ls_timer l = TimerDone \<and> ls_stop l = StopNone \<longrightarrow> ls_state l = StateRunning) \<and>
    (ls_closed l \<longrightarrow> \<not> ls_listening l)"
proof -
  have inv: "listener_inv l" by (rule listeners.reachable_inv [OF refl assms])
  have "ls_started l \<and> ls_stop l = StopNone \<longrightarrow> ls_state l = StateRunning \<or> ls_state l = StateFailed"
  proof (intro impI, elim conjE)
    assume "ls_started l" "ls_stop l = StopNone"
    then have "ls_state l \<notin> {StateInitial, StateStarting, StateStopping, StateStopped}"
      using inv unfolding listener_inv_def by blast
    then show "ls_state l = StateRunning \<or> ls_state l = StateFailed" by (cases "ls_state l") auto
  qed
  moreover have "ls_state l = StateFailed \<longrightarrow> ls_startErr l \<noteq> None \<and> \<not> ls_listening l"
  proof
    assume "ls_state l = StateFailed"
    then have "ls_startErr l \<noteq> None" "ls_run l = RunAnnounce \<or> ls_run l = RunDone"
      "ls_listening l = bound_now l"
      using inv unfolding listener_inv_def by blast+
    then show "ls_startErr l \<noteq> None \<and> \<not> ls_listening l" by (auto simp: bound_now_def)
  qed
  moreover have "ls_listening l \<and> ls_timer l = TimerDone \<and> ls_stop l = StopNone \<longrightarrow> ls_state l = StateRunning"
  proof (intro impI, elim conjE)
    assume l: "ls_listening l" "ls_timer l = TimerDone" "ls_stop l = StopNone"
    then have "ls_run l = RunServe" "ls_state l = StateRunning \<or> ls_state l = StateFailed"
      "ls_state l = StateFailed \<longrightarrow> ls_run l = RunAnnounce \<or> ls_run l = RunDone"
      using inv l unfolding listener_inv_def bound_now_def by blast+
    then show "ls_state l = StateRunning" by auto
  qed
  moreover have "ls_closed l \<longrightarrow> \<not> ls_listening l"
    using inv unfolding listener_inv_def bound_now_def by blast
  ultimately show ?thesis by blast
qed

theorem announced_listener_state_witness:
  "\<exists>l. listener_run [ARun None, ARun None, ATimer, ATimer, ATimer] new_listener = Some l \<and>
     ls_listening l \<and> ls_state l = StateRunning"
proof -
  define l where "l = the (listener_run [ARun None, ARun None, ATimer, ATimer, ATimer] new_listener)"
  have run: "listener_run [ARun None, ARun None, ATimer, ATimer, ATimer] new_listener = Some l"
    and l: "ls_listening l" "ls_timer l = TimerDone" "ls_stop l = StopNone"
    by (simp_all add: l_def new_listener_def run_step_def timer_step_def)
  with announced_listener_state [OF listener_run_steps [OF run]] show ?thesis by blast
qed

text \<open>The timer goroutine checks and sets the state in two critical sections, so a failure
  between them is overwritten: the listener that could not bind its port is reported as running,
  and startRoute, which finds the state running, reports success. In the same way a listener that
  is stopped before its goroutine has begun ends up reported as running.\<close>

theorem running_state_can_be_wrong:
  "map_option (\<lambda>l. (ls_state l, ls_startErr l, ls_started l, ls_listening l))
     (listener_run [ARun None, ARun (Some ''bind: address already in use''), ATimer,
        ARun None, ARun None, ATimer, ATimer] new_listener)
     = Some (StateRunning, Some ''bind: address already in use'', True, False) \<and>
   map_option (\<lambda>l. (ls_state l, ls_closed l, ls_run l, ls_stop l, ls_timer l))
     (listener_run [AStop, AStop, AStop, ARun None, ARun None, ATimer, ATimer, ATimer] new_listener)
     = Some (StateRunning, True, RunDone, StopDone, TimerDone)"
  by (simp add: new_listener_def run_step_def timer_step_def stop_step_def)

end
