(* ===== verification/ManagerThreads.thy ===== *)
theory ManagerThreads
  imports RouteReload Listener
begin

text \<open>
  The route manager under all its threads (\<open>internal/proxy/route_manager.go\<close>): the goroutine
  \<open>watchConfigReloads\<close> with the reload it carries out, any number of callers of \<open>Stop\<close>, and for every
  listener the goroutine \<open>runListener\<close> and its timer, whose steps are those of the theory Listener. A
  step is one critical section of \<open>m.mu\<close> or of a listener's \<open>stateMu\<close>, one call on an HTTP server, or
  one wait; the threads interleave in every way. Where a critical section of \<open>m.mu\<close> reads the states of
  several listeners, it reads them at one moment.

  The system is the one after Start, which holds \<open>m.mu\<close> throughout. The theorems say what Stop
  guarantees although it takes the list of listeners before the reload goroutine has ended, and that
  no interleaving loses track of a listener that serves.
\<close>

section \<open>Threads\<close>

text \<open>Where \<open>stopRoute\<close> is: before it looks the key up, and then for the listener it found.\<close>

datatype stop_route_pc =
    KeyLookup
  | KeyMark nat
  | KeyShutdown nat
  | KeyClose nat
  | KeySet nat

text \<open>Where \<open>startRoute\<close> is.\<close>

datatype start_route_pc =
    RouteCreate
  | RouteRegister nat
  | RouteSpawn nat
  | RouteWait nat
  | RouteResult nat

text \<open>The local variables of \<open>applyRouteChanges\<close>: the keys it has still to stop, the keys stopped, the
  routes it has still to start, and the errors.\<close>

record reload_job =
  rj_stop :: "string list"
  rj_stopped :: "string list"
  rj_start :: "route list"
  rj_errs :: "rm_error list"

datatype watcher_pc =
    WatchSelect
  | WatchConfig
  | WatchRoutes config
  | WatchStop reload_job stop_route_pc
  | WatchCleanup reload_job
  | WatchStart reload_job start_route_pc
  | WatchExit

text \<open>A caller of \<open>Stop\<close>: in \<open>shutdownRoutes\<close> with the listeners left, in \<open>reloadWg.Wait\<close>, in
  \<open>waitForShutdown\<close>, or back with the result.\<close>

datatype shutdown_pc = ShutMark | ShutServer | ShutCloser | ShutSet

datatype stopper_pc =
    StopperIdle
  | StopperShut "nat list" shutdown_pc
  | StopperReload
  | StopperWait
  | StopperDone "rm_error option"

text \<open>
  \<open>ms_run\<close> has no program counter for a listener whose goroutine has not been started;
  \<open>ms_closed\<close> says that the server of a listener has been shut down, \<open>ms_started\<close> that the channel
  \<open>started\<close> is closed. \<open>ms_getCfg\<close> is what \<open>configMgr.GetConfig\<close> returns, \<open>ms_reloads\<close> the results of
  \<open>handleReload\<close> so far.
\<close>

record ('t, 'w) manager_system =
  ms_mgr :: "('t, 'w) route_manager"
  ms_getCfg :: "config option"
  ms_ctxDone :: bool
  ms_run :: "nat \<Rightarrow> run_pc option"
  ms_timer :: "nat \<Rightarrow> timer_pc"
  ms_started :: "nat \<Rightarrow> bool"
  ms_closed :: "nat \<Rightarrow> bool"
  ms_watch :: watcher_pc
  ms_stop :: "nat \<Rightarrow> stopper_pc"
  ms_reloads :: "rm_error option list"

definition manager_started :: "config option \<Rightarrow> ('t, 'w) route_manager \<Rightarrow> ('t, 'w) manager_system" where
  "manager_started getCfg m =
     \<lparr>ms_mgr = m, ms_getCfg = getCfg, ms_ctxDone = False,
      ms_run = (\<lambda>i. if i < length (rm_heap m) then Some RunStart else None),
      ms_timer = (\<lambda>i. TimerNone), ms_started = (\<lambda>i. False), ms_closed = (\<lambda>i. False),
      ms_watch = WatchSelect, ms_stop = (\<lambda>k. StopperIdle), ms_reloads = []\<rparr>"

section \<open>Listeners\<close>

text \<open>The listener \<open>i\<close> with its threads, as a state of the theory Listener.\<close>

definition port_of :: "('t, 'w) manager_system \<Rightarrow> nat \<Rightarrow> int" where
  "port_of s i = route_listen (rl_route (rl_at (ms_mgr s) i))"

definition listener_view :: "('t, 'w) manager_system \<Rightarrow> nat \<Rightarrow> run_pc \<Rightarrow> listener" where
  "listener_view s i pc =
     \<lparr>ls_state = rl_state (rl_at (ms_mgr s) i), ls_startErr = rl_startErr (rl_at (ms_mgr s) i),
      ls_started = ms_started s i, ls_listening = (rm_bound (ms_mgr s) (port_of s i) = Some i),
      ls_closed = ms_closed s i, ls_run = pc, ls_timer = ms_timer s i, ls_stop = StopNone\<rparr>"

definition put_listener :: "nat \<Rightarrow> listener \<Rightarrow> ('t, 'w) manager_system \<Rightarrow> ('t, 'w) manager_system" where
  "put_listener i l s =
     s\<lparr>ms_mgr := (upd_rl i (\<lambda>r. r\<lparr>rl_state := ls_state l, rl_startErr := ls_startErr l\<rparr>) (ms_mgr s))
         \<lparr>rm_bound := (if ls_listening l then (rm_bound (ms_mgr s))(port_of s i \<mapsto> i) else rm_bound (ms_mgr s))\<rparr>,
       ms_run := (ms_run s)(i \<mapsto> ls_run l), ms_timer := (ms_timer s)(i := ls_timer l),
       ms_started := (ms_started s)(i := ls_started l)\<rparr>"

text \<open>Binding a port: \<open>refuse\<close> is the answer of the system when no listener of ours holds the port.\<close>

definition bind_error :: "string option \<Rightarrow> ('t, 'w) manager_system \<Rightarrow> nat \<Rightarrow> string option" where
  "bind_error refuse s i =
     (case refuse of
        Some e \<Rightarrow> Some e
      | None \<Rightarrow> if rm_bound (ms_mgr s) (port_of s i) \<noteq> None then Some ''bind: address already in use'' else None)"

text \<open>The goroutine \<open>runListener\<close>; when it returns, its deferred \<open>wg.Done\<close> runs.\<close>

definition wg_done :: "('t, 'w) manager_system \<Rightarrow> ('t, 'w) manager_system" where
  "wg_done s = s\<lparr>ms_mgr := (ms_mgr s)\<lparr>rm_wg := rm_wg (ms_mgr s) - 1\<rparr>\<rparr>"

definition run_thread ::
  "string option \<Rightarrow> nat \<Rightarrow> ('t, 'w) manager_system \<Rightarrow> ('t, 'w) manager_system option" where
  "run_thread refuse i s =
     (case ms_run s i of
        None \<Rightarrow> None
      | Some pc \<Rightarrow>
          (case run_step (bind_error refuse s i) (listener_view s i pc) of
             None \<Rightarrow> None
           | Some l \<Rightarrow>
               let s' = put_listener i l s in Some (if ls_run l = RunDone then wg_done s' else s')))"

definition timer_thread :: "nat \<Rightarrow> ('t, 'w) manager_system \<Rightarrow> ('t, 'w) manager_system option" where
  "timer_thread i s =
     (case ms_run s i of
        None \<Rightarrow> None
      | Some pc \<Rightarrow> map_option (\<lambda>l. put_listener i l s) (timer_step (listener_view s i pc)))"

text \<open>What \<open>stopRoute\<close> and \<open>shutdownRoutes\<close> do to a listener: set its state, shut its server down, which
  frees the port, and close its wake coordinator.\<close>

definition set_state :: "nat \<Rightarrow> listener_state \<Rightarrow> ('t, 'w) manager_system \<Rightarrow> ('t, 'w) manager_system" where
  "set_state i st s = s\<lparr>ms_mgr := upd_rl i (\<lambda>l. l\<lparr>rl_state := st\<rparr>) (ms_mgr s)\<rparr>"

definition shut_server :: "nat \<Rightarrow> ('t, 'w) manager_system \<Rightarrow> ('t, 'w) manager_system" where
  "shut_server i s =
     s\<lparr>ms_mgr := (if rm_bound (ms_mgr s) (port_of s i) = Some i
         then (ms_mgr s)\<lparr>rm_bound := (rm_bound (ms_mgr s))(port_of s i := None)\<rparr> else ms_mgr s),
       ms_closed := (ms_closed s)(i := True)\<rparr>"

definition shut_closer :: "nat \<Rightarrow> ('t, 'w) manager_system \<Rightarrow> ('t, 'w) manager_system" where
  "shut_closer i s = s\<lparr>ms_mgr := upd_rl i close_closer (ms_mgr s)\<rparr>"

section \<open>The reload goroutine\<close>

text \<open>What a step of the goroutine takes from outside: the choice of a \<open>select\<close>, the iteration orders of
  the maps of \<open>detectChanges\<close>, the result of \<open>Shutdown\<close>, or nothing.\<close>

datatype watch_input =
    Proceed
  | CtxDone
  | Orders "string list" "string list"
  | ShutdownResult "string option"
  | StartTimeout

definition watch_at :: "watcher_pc \<Rightarrow> ('t, 'w) manager_system \<Rightarrow> ('t, 'w) manager_system" where
  "watch_at pc s = s\<lparr>ms_watch := pc\<rparr>"

definition on_manager ::
  "(('t, 'w) route_manager \<Rightarrow> ('t, 'w) route_manager) \<Rightarrow> ('t, 'w) manager_system \<Rightarrow> ('t, 'w) manager_system" where
  "on_manager f s = s\<lparr>ms_mgr := f (ms_mgr s)\<rparr>"

text \<open>\<open>handleReload\<close> returns; the error is logged and the loop continues.\<close>

definition reload_returns :: "rm_error option \<Rightarrow> ('t, 'w) manager_system \<Rightarrow> ('t, 'w) manager_system" where
  "reload_returns err s = watch_at WatchSelect (s\<lparr>ms_reloads := ms_reloads s @ [err]\<rparr>)"

text \<open>\<open>stopRoute\<close> and \<open>startRoute\<close> return, and the loop of \<open>applyRouteChanges\<close> takes note.\<close>

definition stop_route_returns ::
  "rm_error option \<Rightarrow> reload_job \<Rightarrow> ('t, 'w) manager_system \<Rightarrow> ('t, 'w) manager_system" where
  "stop_route_returns err job s =
     (let key = hd (rj_stop job); job = job\<lparr>rj_stop := tl (rj_stop job)\<rparr> in
      watch_at (WatchStop
        (case err of
           Some e \<Rightarrow> job\<lparr>rj_errs := rj_errs job @ [stop_failure key e]\<rparr>
         | None \<Rightarrow> job\<lparr>rj_stopped := rj_stopped job @ [key]\<rparr>) KeyLookup) s)"

definition start_route_returns ::
  "rm_error option \<Rightarrow> reload_job \<Rightarrow> ('t, 'w) manager_system \<Rightarrow> ('t, 'w) manager_system" where
  "start_route_returns err job s =
     (let r = hd (rj_start job); job = job\<lparr>rj_start := tl (rj_start job)\<rparr> in
      watch_at (WatchStart
        (case err of
           Some e \<Rightarrow> job\<lparr>rj_errs := rj_errs job @ [start_failure r e]\<rparr>
         | None \<Rightarrow> job) RouteCreate) s)"

fun stop_route_step ::
  "watch_input \<Rightarrow> reload_job \<Rightarrow> stop_route_pc \<Rightarrow> ('t, 'w) manager_system \<Rightarrow> ('t, 'w) manager_system option" where
  "stop_route_step Proceed job KeyLookup s =
     (case rj_stop job of
        [] \<Rightarrow> Some (watch_at (WatchCleanup job) s)
      | key # keys \<Rightarrow>
          (case rm_routeMap (ms_mgr s) key of
             None \<Rightarrow> Some (stop_route_returns (Some (route_not_found key)) job s)
           | Some i \<Rightarrow> Some (watch_at (WatchStop job (KeyMark i)) s)))"
| "stop_route_step Proceed job (KeyMark i) s =
     Some (watch_at (WatchStop job (KeyShutdown i)) (set_state i StateStopping s))"
| "stop_route_step (ShutdownResult err) job (KeyShutdown i) s =
     (let s = shut_server i s in
      case err of
        Some e \<Rightarrow> Some (stop_route_returns (Some (shutdown_failed e)) job s)
      | None \<Rightarrow> Some (watch_at (WatchStop job (KeyClose i)) s))"
| "stop_route_step Proceed job (KeyClose i) s =
     Some (watch_at (WatchStop job (KeySet i)) (shut_closer i s))"
| "stop_route_step Proceed job (KeySet i) s =
     Some (stop_route_returns None job (set_state i StateStopped s))"
| "stop_route_step _ _ _ _ = None"

fun start_route_step ::
  "watch_input \<Rightarrow> reload_job \<Rightarrow> start_route_pc \<Rightarrow> ('t, 'w) manager_system \<Rightarrow> ('t, 'w) manager_system option" where
  "start_route_step Proceed job RouteCreate s =
     (case rj_start job of
        [] \<Rightarrow> Some (reload_returns (reload_outcome (rj_errs job)) s)
      | r # rs \<Rightarrow>
          let (i, m) = add_listener (createListener (ms_getCfg s) (ms_mgr s) r) (ms_mgr s) in
          Some (watch_at (WatchStart job (RouteRegister i)) (s\<lparr>ms_mgr := m\<rparr>)))"
| "start_route_step Proceed job (RouteRegister i) s =
     Some (watch_at (WatchStart job (RouteSpawn i))
       (on_manager (\<lambda>m. m\<lparr>rm_routes := drop_stopped m @ [i],
          rm_routeMap := (rm_routeMap m)(routeKey (hd (rj_start job)) \<mapsto> i)\<rparr>) s))"
| "start_route_step Proceed job (RouteSpawn i) s =
     Some (watch_at (WatchStart job (RouteWait i))
       (on_manager (\<lambda>m. m\<lparr>rm_wg := rm_wg m + 1\<rparr>) s)\<lparr>ms_run := (ms_run s)(i \<mapsto> RunStart)\<rparr>)"
| "start_route_step Proceed job (RouteWait i) s =
     (if ms_started s i then Some (watch_at (WatchStart job (RouteResult i)) s) else None)"
| "start_route_step StartTimeout job (RouteWait i) s =
     Some (start_route_returns (Some startup_timeout) job s)"
| "start_route_step Proceed job (RouteResult i) s =
     Some (start_route_returns (start_result (rl_at (ms_mgr s) i)) job s)"
| "start_route_step _ _ _ _ = None"

definition reload_job_of :: "route_changes \<Rightarrow> reload_job" where
  "reload_job_of ch =
     \<lparr>rj_stop = removed ch @ map routeKey (modified ch), rj_stopped = [], rj_start = added ch @ modified ch, rj_errs = []\<rparr>"

text \<open>A reload signal may be there at any time.\<close>

definition watcher_step :: "watch_input \<Rightarrow> ('t, 'w) manager_system \<Rightarrow> ('t, 'w) manager_system option" where
  "watcher_step inp s =
     (case (ms_watch s, inp) of
        (WatchSelect, CtxDone) \<Rightarrow> if ms_ctxDone s then Some (watch_at WatchExit s) else None
      | (WatchSelect, Proceed) \<Rightarrow> Some (watch_at WatchConfig s)
      | (WatchConfig, Proceed) \<Rightarrow>
          (case ms_getCfg s of
             None \<Rightarrow> Some (reload_returns (Some no_configuration) s)
           | Some cfg \<Rightarrow> Some (watch_at (WatchRoutes cfg) s))
      | (WatchRoutes cfg, Orders newOrder oldOrder) \<Rightarrow>
          (let ch = detectChanges newOrder oldOrder (active_routes (ms_mgr s)) (cfg_routes cfg) in
           if added ch = [] \<and> removed ch = [] \<and> modified ch = [] then Some (reload_returns None s)
           else Some (watch_at (WatchStop (reload_job_of ch) KeyLookup) s))
      | (WatchStop job pc, _) \<Rightarrow> stop_route_step inp job pc s
      | (WatchCleanup job, Proceed) \<Rightarrow>
          Some (watch_at (WatchStart job RouteCreate) (on_manager (cleanupStoppedRoutes (rj_stopped job)) s))
      | (WatchStart job pc, _) \<Rightarrow> start_route_step inp job pc s
      | _ \<Rightarrow> None)"

section \<open>Callers of Stop\<close>

definition stopper_at :: "nat \<Rightarrow> stopper_pc \<Rightarrow> ('t, 'w) manager_system \<Rightarrow> ('t, 'w) manager_system" where
  "stopper_at k pc s = s\<lparr>ms_stop := (ms_stop s)(k := pc)\<rparr>"

text \<open>\<open>shutdownRoutes\<close>: an error of \<open>Shutdown\<close> or \<open>Close\<close> is only logged.\<close>

fun shutdown_step ::
  "nat \<Rightarrow> nat \<Rightarrow> nat list \<Rightarrow> shutdown_pc \<Rightarrow> ('t, 'w) manager_system \<Rightarrow> ('t, 'w) manager_system" where
  "shutdown_step k i rest ShutMark s = stopper_at k (StopperShut (i # rest) ShutServer) (set_state i StateStopping s)"
| "shutdown_step k i rest ShutServer s = stopper_at k (StopperShut (i # rest) ShutCloser) (shut_server i s)"
| "shutdown_step k i rest ShutCloser s = stopper_at k (StopperShut (i # rest) ShutSet) (shut_closer i s)"
| "shutdown_step k i rest ShutSet s = stopper_at k (StopperShut rest ShutMark) (set_state i StateStopped s)"

text \<open>Whether the reload goroutine has returned, for \<open>reloadWg.Wait\<close>.\<close>

fun watch_exited :: "watcher_pc \<Rightarrow> bool" where
  "watch_exited WatchExit \<longleftrightarrow> True"
| "watch_exited _ \<longleftrightarrow> False"

lemma watch_exited_iff [simp]: "watch_exited pc \<longleftrightarrow> pc = WatchExit"
  by (cases pc) simp_all

text \<open>The caller \<open>k\<close>; \<open>deadline\<close> lets \<open>waitForShutdown\<close> take the end of the shutdown context.\<close>

definition stopper_step :: "nat \<Rightarrow> bool \<Rightarrow> ('t, 'w) manager_system \<Rightarrow> ('t, 'w) manager_system option" where
  "stopper_step k deadline s =
     (case ms_stop s k of
        StopperIdle \<Rightarrow>
          (case Stop_begin (ms_mgr s) of
             (Inl e, m) \<Rightarrow> Some (stopper_at k (StopperDone (Some e)) s)
           | (Inr routes, m) \<Rightarrow> Some (stopper_at k (StopperShut routes ShutMark) (s\<lparr>ms_mgr := m, ms_ctxDone := True\<rparr>)))
      | StopperShut [] pc \<Rightarrow> Some (stopper_at k StopperReload s)
      | StopperShut (i # rest) pc \<Rightarrow> Some (shutdown_step k i rest pc s)
      | StopperReload \<Rightarrow> if watch_exited (ms_watch s) then Some (stopper_at k StopperWait s) else None
      | StopperWait \<Rightarrow>
          if deadline then Some (stopper_at k (StopperDone (Some (Sentinel ErrShutdownTimeout))) s)
          else if rm_wg (ms_mgr s) = 0 then Some (stopper_at k (StopperDone None) s) else None
      | StopperDone res \<Rightarrow> None)"

section \<open>The system\<close>

text \<open>Besides the threads, the stored configuration may change and the context of Start may end.\<close>

datatype manager_action =
    MRun "string option" nat
  | MTimer nat
  | MWatch watch_input
  | MStop nat bool
  | MConfig "config option"
  | MCancel

fun manager_exec :: "manager_action \<Rightarrow> ('t, 'w) manager_system \<Rightarrow> ('t, 'w) manager_system option" where
  "manager_exec (MRun refuse i) s = run_thread refuse i s"
| "manager_exec (MTimer i) s = timer_thread i s"
| "manager_exec (MWatch inp) s = watcher_step inp s"
| "manager_exec (MStop k deadline) s = stopper_step k deadline s"
| "manager_exec (MConfig cfg) s = Some (s\<lparr>ms_getCfg := cfg\<rparr>)"
| "manager_exec MCancel s = Some (s\<lparr>ms_ctxDone := True\<rparr>)"

text \<open>The iteration orders visit every key once.\<close>

definition visits_keys :: "string list \<Rightarrow> route list \<Rightarrow> bool" where
  "visits_keys ks rs \<longleftrightarrow> distinct ks \<and> set ks = routeKey ` set rs"

lemma visits_keys_range: "visits_keys ks rs \<longleftrightarrow> range_order ks (route_map rs)"
  by (simp add: visits_keys_def range_order_def route_map_dom)

fun manager_ok :: "manager_action \<Rightarrow> ('t, 'w) manager_system \<Rightarrow> bool" where
  "manager_ok (MWatch (Orders newOrder oldOrder)) s \<longleftrightarrow>
     (case ms_watch s of
        WatchRoutes cfg \<Rightarrow> visits_keys newOrder (cfg_routes cfg) \<and>
          visits_keys oldOrder (active_routes (ms_mgr s))
      | _ \<Rightarrow> True)"
| "manager_ok _ s \<longleftrightarrow> True"

inductive manager_step :: "('t, 'w) manager_system \<Rightarrow> ('t, 'w) manager_system \<Rightarrow> bool" where
  manager_exec_step: "manager_ok a s \<Longrightarrow> manager_exec a s = Some t \<Longrightarrow> manager_step s t"

inductive_cases manager_stepE: "manager_step s t"

fun manager_run :: "manager_action list \<Rightarrow> ('t, 'w) manager_system \<Rightarrow> ('t, 'w) manager_system option" where
  "manager_run [] s = Some s"
| "manager_run (a # as) s =
     (if manager_ok a s then (case manager_exec a s of None \<Rightarrow> None | Some t \<Rightarrow> manager_run as t) else None)"

section \<open>The invariant\<close>

abbreviation heap_len :: "('t, 'w) manager_system \<Rightarrow> nat" where
  "heap_len s \<equiv> length (rm_heap (ms_mgr s))"

definition key_at :: "('t, 'w) manager_system \<Rightarrow> nat \<Rightarrow> string" where
  "key_at s i = routeKey (rl_route (rl_at (ms_mgr s) i))"

definition is_stopped :: "('t, 'w) manager_system \<Rightarrow> nat \<Rightarrow> bool" where
  "is_stopped s i \<longleftrightarrow> rl_state (rl_at (ms_mgr s) i) = StateStopped"

text \<open>A listener whose goroutine runs, and one that can serve now or later.\<close>

definition live :: "('t, 'w) manager_system \<Rightarrow> nat \<Rightarrow> bool" where
  "live s i \<longleftrightarrow> ms_run s i \<noteq> None \<and> ms_run s i \<noteq> Some RunDone"

definition may_serve :: "('t, 'w) manager_system \<Rightarrow> nat \<Rightarrow> bool" where
  "may_serve s i \<longleftrightarrow> ms_run s i \<noteq> None \<and> \<not> ms_closed s i"

definition listeners_inv :: "('t, 'w) manager_system \<Rightarrow> bool" where
  "listeners_inv s \<longleftrightarrow>
     (\<forall>i. ms_run s i \<noteq> None \<longrightarrow> i < heap_len s) \<and>
     (\<forall>i \<in> set (rm_routes (ms_mgr s)). i < heap_len s) \<and>
     (\<forall>k i. rm_routeMap (ms_mgr s) k = Some i \<longrightarrow> i < heap_len s) \<and>
     (\<forall>p i. rm_bound (ms_mgr s) p = Some i \<longleftrightarrow> ms_run s i = Some RunServe \<and> \<not> ms_closed s i \<and> port_of s i = p) \<and>
     rm_wg (ms_mgr s) = card (Collect (live s)) \<and>
     (\<forall>i. i < heap_len s \<and> is_stopped s i \<longrightarrow> ms_closed s i)"

text \<open>No listener is lost: one that can serve is tracked.\<close>

definition tracked :: "('t, 'w) manager_system \<Rightarrow> nat \<Rightarrow> bool" where
  "tracked s i \<longleftrightarrow> i \<in> set (rm_routes (ms_mgr s)) \<and> rm_routeMap (ms_mgr s) (key_at s i) = Some i"

text \<open>No listener of the keys \<open>K\<close> can serve.\<close>

definition keys_quiet :: "string set \<Rightarrow> ('t, 'w) manager_system \<Rightarrow> bool" where
  "keys_quiet K s \<longleftrightarrow> (\<forall>i. may_serve s i \<longrightarrow> key_at s i \<notin> K)"

definition start_keys :: "route list \<Rightarrow> string set" where
  "start_keys rs = routeKey ` set rs"

definition stop_job_ok :: "reload_job \<Rightarrow> ('t, 'w) manager_system \<Rightarrow> bool" where
  "stop_job_ok job s \<longleftrightarrow>
     distinct (map routeKey (rj_start job)) \<and> keys_quiet (set (rj_stopped job)) s \<and>
     keys_quiet (start_keys (rj_start job) - set (rj_stop job)) s"

fun stop_route_ok :: "reload_job \<Rightarrow> stop_route_pc \<Rightarrow> ('t, 'w) manager_system \<Rightarrow> bool" where
  "stop_route_ok job KeyLookup s \<longleftrightarrow> True"
| "stop_route_ok job (KeyMark i) s \<longleftrightarrow> rj_stop job \<noteq> [] \<and> rm_routeMap (ms_mgr s) (hd (rj_stop job)) = Some i"
| "stop_route_ok job (KeyShutdown i) s \<longleftrightarrow> rj_stop job \<noteq> [] \<and> rm_routeMap (ms_mgr s) (hd (rj_stop job)) = Some i"
| "stop_route_ok job (KeyClose i) s \<longleftrightarrow>
     rj_stop job \<noteq> [] \<and> rm_routeMap (ms_mgr s) (hd (rj_stop job)) = Some i \<and> ms_closed s i"
| "stop_route_ok job (KeySet i) s \<longleftrightarrow>
     rj_stop job \<noteq> [] \<and> rm_routeMap (ms_mgr s) (hd (rj_stop job)) = Some i \<and> ms_closed s i"

text \<open>The listener that \<open>startRoute\<close> has made for the route \<open>r\<close> and not yet started.\<close>

definition fresh :: "nat \<Rightarrow> route \<Rightarrow> ('t, 'w) manager_system \<Rightarrow> bool" where
  "fresh i r s \<longleftrightarrow> i < heap_len s \<and> ms_run s i = None \<and> key_at s i = routeKey r"

fun start_route_ok :: "reload_job \<Rightarrow> start_route_pc \<Rightarrow> ('t, 'w) manager_system \<Rightarrow> bool" where
  "start_route_ok job RouteCreate s \<longleftrightarrow> keys_quiet (start_keys (rj_start job)) s"
| "start_route_ok job (RouteRegister i) s \<longleftrightarrow>
     rj_start job \<noteq> [] \<and> fresh i (hd (rj_start job)) s \<and> keys_quiet (start_keys (rj_start job)) s"
| "start_route_ok job (RouteSpawn i) s \<longleftrightarrow>
     rj_start job \<noteq> [] \<and> fresh i (hd (rj_start job)) s \<and> keys_quiet (start_keys (rj_start job)) s \<and> tracked s i"
| "start_route_ok job (RouteWait i) s \<longleftrightarrow> rj_start job \<noteq> [] \<and> keys_quiet (start_keys (tl (rj_start job))) s"
| "start_route_ok job (RouteResult i) s \<longleftrightarrow> rj_start job \<noteq> [] \<and> keys_quiet (start_keys (tl (rj_start job))) s"

fun watch_ok :: "watcher_pc \<Rightarrow> ('t, 'w) manager_system \<Rightarrow> bool" where
  "watch_ok (WatchStop job pc) s \<longleftrightarrow> stop_job_ok job s \<and> stop_route_ok job pc s"
| "watch_ok (WatchCleanup job) s \<longleftrightarrow> stop_job_ok job s \<and> rj_stop job = []"
| "watch_ok (WatchStart job pc) s \<longleftrightarrow> distinct (map routeKey (rj_start job)) \<and> start_route_ok job pc s"
| "watch_ok _ s \<longleftrightarrow> True"

fun stopper_ok :: "stopper_pc \<Rightarrow> ('t, 'w) manager_system \<Rightarrow> bool" where
  "stopper_ok StopperIdle s \<longleftrightarrow> True"
| "stopper_ok (StopperShut is pc) s \<longleftrightarrow>
     ms_ctxDone s \<and> (\<forall>i \<in> set is. i < heap_len s) \<and>
     (pc = ShutCloser \<or> pc = ShutSet \<longrightarrow> is \<noteq> [] \<and> ms_closed s (hd is))"
| "stopper_ok StopperReload s \<longleftrightarrow> ms_ctxDone s"
| "stopper_ok StopperWait s \<longleftrightarrow> ms_watch s = WatchExit"
| "stopper_ok (StopperDone None) s \<longleftrightarrow> ms_watch s = WatchExit \<and> rm_wg (ms_mgr s) = 0"
| "stopper_ok (StopperDone (Some e)) s \<longleftrightarrow> True"

definition manager_inv :: "('t, 'w) manager_system \<Rightarrow> bool" where
  "manager_inv s \<longleftrightarrow> listeners_inv s \<and> (\<forall>i. may_serve s i \<longrightarrow> tracked s i) \<and> watch_ok (ms_watch s) s \<and>
     (\<forall>k. stopper_ok (ms_stop s k) s)"

section \<open>What the steps change\<close>

lemma heap_at [simp]: "rl_at (m\<lparr>rm_heap := h\<rparr>) i = h ! i"
  by (simp add: rl_at_def)

lemmas observe = port_of_def key_at_def is_stopped_def

lemma watch_at_sel [simp]:
  "ms_mgr (watch_at pc s) = ms_mgr s" "ms_getCfg (watch_at pc s) = ms_getCfg s" "ms_ctxDone (watch_at pc s) = ms_ctxDone s"
  "ms_run (watch_at pc s) = ms_run s" "ms_timer (watch_at pc s) = ms_timer s" "ms_started (watch_at pc s) = ms_started s"
  "ms_closed (watch_at pc s) = ms_closed s" "ms_watch (watch_at pc s) = pc" "ms_stop (watch_at pc s) = ms_stop s"
  "ms_reloads (watch_at pc s) = ms_reloads s"
  by (simp_all add: watch_at_def)

lemma stopper_at_sel [simp]:
  "ms_mgr (stopper_at k pc s) = ms_mgr s" "ms_ctxDone (stopper_at k pc s) = ms_ctxDone s"
  "ms_run (stopper_at k pc s) = ms_run s" "ms_timer (stopper_at k pc s) = ms_timer s"
  "ms_started (stopper_at k pc s) = ms_started s" "ms_closed (stopper_at k pc s) = ms_closed s"
  "ms_watch (stopper_at k pc s) = ms_watch s" "ms_stop (stopper_at k pc s) = (ms_stop s)(k := pc)"
  by (simp_all add: stopper_at_def)

text \<open>Threads other than the reload goroutine leave its data alone.\<close>

definition env_step :: "('t, 'w) manager_system \<Rightarrow> ('t, 'w) manager_system \<Rightarrow> bool" where
  "env_step s t \<longleftrightarrow>
     ms_watch t = ms_watch s \<and> rm_routes (ms_mgr t) = rm_routes (ms_mgr s) \<and>
     rm_routeMap (ms_mgr t) = rm_routeMap (ms_mgr s) \<and> heap_len t = heap_len s \<and> key_at t = key_at s \<and>
     port_of t = port_of s \<and> (\<forall>i. ms_run t i = None \<longleftrightarrow> ms_run s i = None) \<and>
     (\<forall>i. ms_closed s i \<longrightarrow> ms_closed t i) \<and> (ms_ctxDone s \<longrightarrow> ms_ctxDone t) \<and>
     rm_wg (ms_mgr t) \<le> rm_wg (ms_mgr s)"

lemma env_step_refl [simp]: "env_step s s"
  by (simp add: env_step_def)

lemma env_step_trans: "env_step s t \<Longrightarrow> env_step t u \<Longrightarrow> env_step s u"
  unfolding env_step_def by (metis order_trans)

lemma env_may_serve: "env_step s t \<Longrightarrow> may_serve t i \<Longrightarrow> may_serve s i"
  by (auto simp: env_step_def may_serve_def)

lemma env_tracked: "env_step s t \<Longrightarrow> tracked t i = tracked s i"
  by (simp add: env_step_def tracked_def)

lemma env_quiet: "env_step s t \<Longrightarrow> keys_quiet K s \<Longrightarrow> keys_quiet K t"
  using env_may_serve by (fastforce simp: keys_quiet_def env_step_def)

lemma env_watch_ok:
  assumes e: "env_step s t" and ok: "watch_ok pc s"
  shows "watch_ok pc t"
proof -
  have q: "keys_quiet K s \<Longrightarrow> keys_quiet K t" for K by (rule env_quiet [OF e])
  have f: "fresh i r t = fresh i r s" for i r using e by (simp add: fresh_def env_step_def)
  have m: "rm_routeMap (ms_mgr t) = rm_routeMap (ms_mgr s)" "ms_closed s i \<Longrightarrow> ms_closed t i" for i
    using e by (simp_all add: env_step_def)
  show ?thesis
  proof (cases pc)
    case (WatchStop job st)
    with ok show ?thesis by (cases st) (auto simp: stop_job_ok_def q m)
  next
    case (WatchStart job st)
    with ok show ?thesis by (cases st) (auto simp: q f env_tracked [OF e])
  qed (use ok in \<open>auto simp: stop_job_ok_def q\<close>)
qed

text \<open>What every step does for the callers of Stop.\<close>

definition stop_mono :: "('t, 'w) manager_system \<Rightarrow> ('t, 'w) manager_system \<Rightarrow> bool" where
  "stop_mono s t \<longleftrightarrow>
     heap_len s \<le> heap_len t \<and> (\<forall>i. ms_closed s i \<longrightarrow> ms_closed t i) \<and> (ms_ctxDone s \<longrightarrow> ms_ctxDone t) \<and>
     (ms_watch s = WatchExit \<longrightarrow> ms_watch t = WatchExit \<and> rm_wg (ms_mgr t) \<le> rm_wg (ms_mgr s))"

lemma stop_mono_ok: "stop_mono s t \<Longrightarrow> stopper_ok pc s \<Longrightarrow> stopper_ok pc t"
  by (cases "(pc, s)" rule: stopper_ok.cases) (auto simp: stop_mono_def)

lemma env_stop_mono: "env_step s t \<Longrightarrow> stop_mono s t"
  by (simp add: env_step_def stop_mono_def)

section \<open>Listener threads keep the invariant\<close>

lemma put_listener_sel [simp]:
  assumes "i < heap_len s"
  shows "rm_routes (ms_mgr (put_listener i l s)) = rm_routes (ms_mgr s)"
    "rm_routeMap (ms_mgr (put_listener i l s)) = rm_routeMap (ms_mgr s)"
    "rm_wg (ms_mgr (put_listener i l s)) = rm_wg (ms_mgr s)" "heap_len (put_listener i l s) = heap_len s"
    "rm_bound (ms_mgr (put_listener i l s)) =
       (if ls_listening l then (rm_bound (ms_mgr s))(port_of s i \<mapsto> i) else rm_bound (ms_mgr s))"
    "key_at (put_listener i l s) = key_at s" "port_of (put_listener i l s) = port_of s"
    "is_stopped (put_listener i l s) j = (if j = i then ls_state l = StateStopped else is_stopped s j)"
    "ms_run (put_listener i l s) = (ms_run s)(i \<mapsto> ls_run l)" "ms_closed (put_listener i l s) = ms_closed s"
    "ms_watch (put_listener i l s) = ms_watch s" "ms_stop (put_listener i l s) = ms_stop s"
    "ms_ctxDone (put_listener i l s) = ms_ctxDone s"
  using assms by (auto simp: put_listener_def observe fun_eq_iff)

lemma wg_done_sel [simp]:
  "rm_routes (ms_mgr (wg_done s)) = rm_routes (ms_mgr s)" "rm_routeMap (ms_mgr (wg_done s)) = rm_routeMap (ms_mgr s)"
  "rm_wg (ms_mgr (wg_done s)) = rm_wg (ms_mgr s) - 1" "heap_len (wg_done s) = heap_len s"
  "rm_bound (ms_mgr (wg_done s)) = rm_bound (ms_mgr s)" "key_at (wg_done s) = key_at s" "port_of (wg_done s) = port_of s"
  "is_stopped (wg_done s) = is_stopped s" "ms_run (wg_done s) = ms_run s" "ms_closed (wg_done s) = ms_closed s"
  "ms_watch (wg_done s) = ms_watch s" "ms_stop (wg_done s) = ms_stop s" "ms_ctxDone (wg_done s) = ms_ctxDone s"
  by (auto simp: wg_done_def observe fun_eq_iff)

lemma run_thread_effect:
  assumes run: "run_thread refuse i s = Some t" and len: "\<And>j. ms_run s j \<noteq> None \<Longrightarrow> j < heap_len s"
  shows "\<exists>pc pc'. ms_run s i = Some pc \<and> i < heap_len s \<and> pc \<noteq> RunDone \<and> ms_run t = (ms_run s)(i \<mapsto> pc') \<and>
    env_step s t \<and> ms_closed t = ms_closed s \<and> ms_stop t = ms_stop s \<and> (\<forall>j. is_stopped t j \<longrightarrow> is_stopped s j) \<and>
    rm_wg (ms_mgr t) = (if pc' = RunDone then rm_wg (ms_mgr s) - 1 else rm_wg (ms_mgr s)) \<and>
    rm_bound (ms_mgr t) = (if pc' = RunServe then (rm_bound (ms_mgr s))(port_of s i \<mapsto> i) else rm_bound (ms_mgr s)) \<and>
    (pc' = RunServe \<longrightarrow> \<not> ms_closed s i \<and> rm_bound (ms_mgr s) (port_of s i) = None) \<and> (pc = RunServe \<longrightarrow> ms_closed s i)"
proof -
  obtain pc l where pc: "ms_run s i = Some pc" and l: "run_step (bind_error refuse s i) (listener_view s i pc) = Some l"
    and t: "t = (if ls_run l = RunDone then wg_done (put_listener i l s) else put_listener i l s)"
    using run by (auto simp: run_thread_def Let_def split: option.splits)
  have i: "i < heap_len s" using len [of i] pc by simp
  have l': "pc \<noteq> RunDone" "ls_state l = StateStopped \<longrightarrow> is_stopped s i"
    "ls_listening l \<longleftrightarrow> ls_run l = RunServe \<or> rm_bound (ms_mgr s) (port_of s i) = Some i"
    "ls_run l = RunServe \<longrightarrow> \<not> ms_closed s i \<and> rm_bound (ms_mgr s) (port_of s i) = None" "pc = RunServe \<longrightarrow> ms_closed s i"
    using l by (cases pc; force simp: run_step_def listener_view_def bind_error_def is_stopped_def split: if_splits option.splits)+
  have "rm_bound (ms_mgr s) p = Some i \<Longrightarrow> (rm_bound (ms_mgr s))(p \<mapsto> i) = rm_bound (ms_mgr s)" for p
    by (simp add: fun_upd_idem)
  then have bound: "rm_bound (ms_mgr t) = (if ls_run l = RunServe then (rm_bound (ms_mgr s))(port_of s i \<mapsto> i) else rm_bound (ms_mgr s))"
    using i l'(3) by (simp add: t)
  have "env_step s t" using i pc by (simp add: t env_step_def)
  moreover have "ms_run t = (ms_run s)(i \<mapsto> ls_run l)" "ms_closed t = ms_closed s" "ms_stop t = ms_stop s"
    "rm_wg (ms_mgr t) = (if ls_run l = RunDone then rm_wg (ms_mgr s) - 1 else rm_wg (ms_mgr s))"
    "\<forall>j. is_stopped t j \<longrightarrow> is_stopped s j"
    using i l'(2) by (simp_all add: t)
  ultimately show ?thesis
    using i pc l' bound by (intro exI [of _ pc] exI [of _ "ls_run l"] conjI) simp_all
qed

lemma timer_thread_effect:
  assumes run: "timer_thread i s = Some t" and len: "\<And>j. ms_run s j \<noteq> None \<Longrightarrow> j < heap_len s"
  shows "env_step s t \<and> ms_run t = ms_run s \<and> ms_closed t = ms_closed s \<and> ms_stop t = ms_stop s \<and>
    rm_wg (ms_mgr t) = rm_wg (ms_mgr s) \<and> rm_bound (ms_mgr t) = rm_bound (ms_mgr s) \<and>
    (\<forall>j. is_stopped t j \<longrightarrow> is_stopped s j)"
proof -
  obtain pc l where pc: "ms_run s i = Some pc" and l: "timer_step (listener_view s i pc) = Some l"
    and t: "t = put_listener i l s"
    using run by (auto simp: timer_thread_def split: option.splits)
  have i: "i < heap_len s" using len [of i] pc by simp
  have fields: "ls_run l = pc" "ls_listening l \<longleftrightarrow> rm_bound (ms_mgr s) (port_of s i) = Some i"
    "ls_state l = StateStopped \<longrightarrow> is_stopped s i"
    using l by (auto simp: timer_step_def listener_view_def is_stopped_def split: timer_pc.splits if_splits)
  have "rm_bound (ms_mgr s) p = Some i \<Longrightarrow> (rm_bound (ms_mgr s))(p \<mapsto> i) = rm_bound (ms_mgr s)" for p
    by (simp add: fun_upd_idem)
  then show ?thesis using i pc fields by (auto simp: t env_step_def fun_upd_idem)
qed

text \<open>The number of live goroutines after one of them has been started or has ended.\<close>

lemma live_finite: "listeners_inv s \<Longrightarrow> finite (Collect (live s))"
  by (rule finite_subset [of _ "{..<heap_len s}"]) (auto simp: listeners_inv_def live_def)

lemma live_upd:
  "ms_run t = (ms_run s)(i \<mapsto> pc) \<Longrightarrow>
     Collect (live t) = (if pc = RunDone then Collect (live s) - {i} else insert i (Collect (live s)))"
  by (auto simp: live_def split: if_splits)

lemma run_thread_inv:
  assumes inv: "listeners_inv s" and run: "run_thread refuse i s = Some t"
  shows "listeners_inv t"
proof -
  have len: "ms_run s j \<noteq> None \<Longrightarrow> j < heap_len s" for j using inv by (simp add: listeners_inv_def)
  obtain pc pc' where e: "ms_run s i = Some pc" "i < heap_len s" "pc \<noteq> RunDone" "ms_run t = (ms_run s)(i \<mapsto> pc')"
    "env_step s t" "ms_closed t = ms_closed s" "\<forall>j. is_stopped t j \<longrightarrow> is_stopped s j"
    "rm_wg (ms_mgr t) = (if pc' = RunDone then rm_wg (ms_mgr s) - 1 else rm_wg (ms_mgr s))"
    "rm_bound (ms_mgr t) = (if pc' = RunServe then (rm_bound (ms_mgr s))(port_of s i \<mapsto> i) else rm_bound (ms_mgr s))"
    "pc' = RunServe \<longrightarrow> \<not> ms_closed s i \<and> rm_bound (ms_mgr s) (port_of s i) = None" "pc = RunServe \<longrightarrow> ms_closed s i"
    using run_thread_effect [OF run len] by blast
  have same: "rm_routes (ms_mgr t) = rm_routes (ms_mgr s)" "rm_routeMap (ms_mgr t) = rm_routeMap (ms_mgr s)"
    "heap_len t = heap_len s" "port_of t = port_of s"
    using e(5) by (simp_all add: env_step_def)
  have bound: "rm_bound (ms_mgr s) p = Some j \<longleftrightarrow> ms_run s j = Some RunServe \<and> \<not> ms_closed s j \<and> port_of s j = p" for p j
    using inv by (simp add: listeners_inv_def)
  have "live s i" using e(1,3) by (simp add: live_def)
  then have "rm_wg (ms_mgr t) = card (Collect (live t))"
    using inv live_finite [OF inv] by (simp add: live_upd [OF e(4)] e(8) listeners_inv_def insert_absorb)
  moreover have "rm_bound (ms_mgr t) p = Some j \<longleftrightarrow> ms_run t j = Some RunServe \<and> \<not> ms_closed t j \<and> port_of t j = p" for p j
    using e(1,4,6,9-11) bound [of p j] bound [of p i] bound [of "port_of s i" j] by (auto simp: same split: if_splits)
  ultimately show ?thesis
    using inv e(2,4,6,7) unfolding listeners_inv_def same by (auto split: if_splits)
qed

lemma timer_thread_inv:
  assumes inv: "listeners_inv s" and run: "timer_thread i s = Some t"
  shows "listeners_inv t"
proof -
  have len: "ms_run s j \<noteq> None \<Longrightarrow> j < heap_len s" for j using inv by (simp add: listeners_inv_def)
  note e = timer_thread_effect [OF run len]
  then have "live t = live s" by (simp add: live_def fun_eq_iff)
  with e inv show ?thesis unfolding listeners_inv_def env_step_def by auto
qed

text \<open>Calls on a listener.\<close>

lemma set_state_sel [simp]:
  assumes "i < heap_len s"
  shows "rm_routes (ms_mgr (set_state i st s)) = rm_routes (ms_mgr s)"
    "rm_routeMap (ms_mgr (set_state i st s)) = rm_routeMap (ms_mgr s)" "rm_wg (ms_mgr (set_state i st s)) = rm_wg (ms_mgr s)"
    "heap_len (set_state i st s) = heap_len s" "rm_bound (ms_mgr (set_state i st s)) = rm_bound (ms_mgr s)"
    "key_at (set_state i st s) = key_at s" "port_of (set_state i st s) = port_of s"
    "is_stopped (set_state i st s) j = (if j = i then st = StateStopped else is_stopped s j)"
    "ms_run (set_state i st s) = ms_run s" "ms_closed (set_state i st s) = ms_closed s"
    "ms_watch (set_state i st s) = ms_watch s" "ms_stop (set_state i st s) = ms_stop s"
    "ms_ctxDone (set_state i st s) = ms_ctxDone s"
  using assms by (auto simp: set_state_def observe fun_eq_iff)

lemma shut_closer_sel [simp]:
  assumes "i < heap_len s"
  shows "rm_routes (ms_mgr (shut_closer i s)) = rm_routes (ms_mgr s)"
    "rm_routeMap (ms_mgr (shut_closer i s)) = rm_routeMap (ms_mgr s)" "rm_wg (ms_mgr (shut_closer i s)) = rm_wg (ms_mgr s)"
    "heap_len (shut_closer i s) = heap_len s" "rm_bound (ms_mgr (shut_closer i s)) = rm_bound (ms_mgr s)"
    "key_at (shut_closer i s) = key_at s" "port_of (shut_closer i s) = port_of s" "is_stopped (shut_closer i s) = is_stopped s"
    "ms_run (shut_closer i s) = ms_run s" "ms_closed (shut_closer i s) = ms_closed s"
    "ms_watch (shut_closer i s) = ms_watch s" "ms_stop (shut_closer i s) = ms_stop s" "ms_ctxDone (shut_closer i s) = ms_ctxDone s"
  using assms by (auto simp: shut_closer_def close_closer_def observe fun_eq_iff)

lemma shut_server_sel [simp]:
  "rm_routes (ms_mgr (shut_server i s)) = rm_routes (ms_mgr s)" "rm_routeMap (ms_mgr (shut_server i s)) = rm_routeMap (ms_mgr s)"
  "rm_wg (ms_mgr (shut_server i s)) = rm_wg (ms_mgr s)" "heap_len (shut_server i s) = heap_len s"
  "rm_bound (ms_mgr (shut_server i s)) = (if rm_bound (ms_mgr s) (port_of s i) = Some i
     then (rm_bound (ms_mgr s))(port_of s i := None) else rm_bound (ms_mgr s))"
  "key_at (shut_server i s) = key_at s" "port_of (shut_server i s) = port_of s" "is_stopped (shut_server i s) = is_stopped s"
  "ms_run (shut_server i s) = ms_run s" "ms_closed (shut_server i s) = (ms_closed s)(i := True)"
  "ms_watch (shut_server i s) = ms_watch s" "ms_stop (shut_server i s) = ms_stop s" "ms_ctxDone (shut_server i s) = ms_ctxDone s"
  by (auto simp: shut_server_def observe fun_eq_iff)

lemma call_env_step:
  "i < heap_len s \<Longrightarrow> env_step s (set_state i st s)" "i < heap_len s \<Longrightarrow> env_step s (shut_closer i s)"
  "env_step s (shut_server i s)"
  by (auto simp: env_step_def)

lemma call_inv:
  assumes inv: "listeners_inv s" and i: "i < heap_len s"
  shows "listeners_inv (shut_server i s)" and "listeners_inv (shut_closer i s)"
    and "st \<noteq> StateStopped \<or> ms_closed s i \<Longrightarrow> listeners_inv (set_state i st s)"
proof -
  have live: "live (shut_server i s) = live s" "live (shut_closer i s) = live s" "live (set_state i st s) = live s"
    using i by (auto simp: live_def fun_eq_iff)
  show "listeners_inv (shut_closer i s)" "st \<noteq> StateStopped \<or> ms_closed s i \<Longrightarrow> listeners_inv (set_state i st s)"
    using inv i by (auto simp: listeners_inv_def live)
  have bound: "rm_bound (ms_mgr s) p = Some j \<longleftrightarrow> ms_run s j = Some RunServe \<and> \<not> ms_closed s j \<and> port_of s j = p" for p j
    using inv by (simp add: listeners_inv_def)
  have "rm_bound (ms_mgr (shut_server i s)) p = Some j \<longleftrightarrow>
      ms_run s j = Some RunServe \<and> \<not> ((ms_closed s)(i := True)) j \<and> port_of s j = p" for p j
    using bound [of p j] bound [of "port_of s i" i] by auto
  then show "listeners_inv (shut_server i s)"
    using inv unfolding listeners_inv_def live by (simp add: listeners_inv_def)
qed

section \<open>The reload goroutine keeps the invariant\<close>

definition threads_inv :: "('t, 'w) manager_system \<Rightarrow> bool" where
  "threads_inv s \<longleftrightarrow> listeners_inv s \<and> (\<forall>i. may_serve s i \<longrightarrow> tracked s i)"

lemma threads_inv_watch [simp]: "threads_inv (watch_at pc s) = threads_inv s"
proof -
  have "port_of (watch_at pc s) = port_of s" "key_at (watch_at pc s) = key_at s" "is_stopped (watch_at pc s) = is_stopped s"
    "live (watch_at pc s) = live s" "may_serve (watch_at pc s) = may_serve s"
    by (simp_all add: observe live_def may_serve_def fun_eq_iff)
  then show ?thesis by (simp add: threads_inv_def listeners_inv_def tracked_def)
qed

lemma stop_mono_watch [simp]:
  "ms_watch s \<noteq> WatchExit \<Longrightarrow> stop_mono s (watch_at pc u) \<longleftrightarrow>
     heap_len s \<le> heap_len u \<and> (\<forall>i. ms_closed s i \<longrightarrow> ms_closed u i) \<and> (ms_ctxDone s \<longrightarrow> ms_ctxDone u)"
  by (simp add: stop_mono_def)

lemma observe_watch_at [simp]:
  "key_at (watch_at pc s) = key_at s" "port_of (watch_at pc s) = port_of s" "is_stopped (watch_at pc s) = is_stopped s"
  "live (watch_at pc s) = live s" "may_serve (watch_at pc s) = may_serve s"
  "keys_quiet K (watch_at pc s) = keys_quiet K s" "tracked (watch_at pc s) i = tracked s i" "fresh i r (watch_at pc s) = fresh i r s"
  by (auto simp: keys_quiet_def may_serve_def live_def tracked_def fresh_def observe fun_eq_iff)

lemma env_threads_inv: "env_step s t \<Longrightarrow> listeners_inv t \<Longrightarrow> threads_inv s \<Longrightarrow> threads_inv t"
  using env_may_serve env_tracked by (metis threads_inv_def)

lemma quiet_key:
  assumes "threads_inv s" and "rm_routeMap (ms_mgr s) k = None \<or> (\<exists>i. rm_routeMap (ms_mgr s) k = Some i \<and> ms_closed s i)"
  shows "keys_quiet {k} s"
  using assms by (auto simp: keys_quiet_def threads_inv_def tracked_def may_serve_def)

lemma quiet_union: "keys_quiet (A \<union> B) s \<longleftrightarrow> keys_quiet A s \<and> keys_quiet B s"
  by (auto simp: keys_quiet_def)

lemma quiet_mono: "keys_quiet A s \<Longrightarrow> B \<subseteq> A \<Longrightarrow> keys_quiet B s"
  by (auto simp: keys_quiet_def)

text \<open>\<open>stopRoute\<close> returns: its key is quiet, whether it failed or not.\<close>

lemma stop_route_returns_ok:
  assumes ok: "stop_job_ok job s" and ne: "rj_stop job \<noteq> []" and q: "keys_quiet {hd (rj_stop job)} s"
  shows "\<exists>job'. stop_route_returns err job s = watch_at (WatchStop job' KeyLookup) s \<and> stop_job_ok job' s"
proof -
  obtain k ks where ks: "rj_stop job = k # ks" using ne by (cases "rj_stop job") auto
  have "keys_quiet (start_keys (rj_start job) - set ks) s"
    by (rule quiet_mono [of "(start_keys (rj_start job) - set (rj_stop job)) \<union> {k}"])
      (use ok q ks in \<open>auto simp: keys_quiet_def stop_job_ok_def\<close>)
  moreover have "keys_quiet (set (rj_stopped job @ [k])) s"
    using ok q ks by (auto simp: keys_quiet_def stop_job_ok_def)
  ultimately show ?thesis
    using ok ks by (cases err) (auto simp: stop_route_returns_def Let_def stop_job_ok_def)
qed

text \<open>A step of the goroutine that only calls a listener or moves on.\<close>

definition watch_good :: "('t, 'w) manager_system \<Rightarrow> ('t, 'w) manager_system \<Rightarrow> bool" where
  "watch_good s t \<longleftrightarrow> threads_inv t \<and> watch_ok (ms_watch t) t \<and> ms_stop t = ms_stop s \<and>
     (\<forall>pc. stopper_ok pc s \<longrightarrow> stopper_ok pc t)"

lemma watch_goodI:
  assumes "env_step s u" and "threads_inv u" and "ms_stop u = ms_stop s" and "ms_watch s \<noteq> WatchExit" and "watch_ok pc u"
  shows "watch_good s (watch_at pc u)"
proof -
  have "watch_ok pc (watch_at pc u)"
  proof (cases pc)
    case (WatchStop job st)
    with assms(5) show ?thesis
      by (cases st) (auto simp: stop_job_ok_def keys_quiet_def may_serve_def key_at_def)
  next
    case (WatchStart job st)
    with assms(5) show ?thesis
      by (cases st) (auto simp: keys_quiet_def may_serve_def key_at_def fresh_def tracked_def)
  qed (use assms(5) in \<open>auto simp: stop_job_ok_def keys_quiet_def may_serve_def key_at_def\<close>)
  moreover have "stop_mono s (watch_at pc u)"
    using env_stop_mono [OF assms(1)] assms(4) by (auto simp: stop_mono_def)
  ultimately show ?thesis using assms(2,3) stop_mono_ok by (auto simp: watch_good_def)
qed

lemma stop_route_step_good:
  assumes inv: "threads_inv s" and w: "ms_watch s = WatchStop job pc" and ok: "watch_ok (WatchStop job pc) s"
    and step: "stop_route_step inp job pc s = Some t"
  shows "watch_good s t"
proof -
  have job: "stop_job_ok job s" and pc: "stop_route_ok job pc s" using ok by simp_all
  have linv: "listeners_inv s" using inv by (simp add: threads_inv_def)
  have len: "i < heap_len s" if "rm_routeMap (ms_mgr s) k = Some i" for i k
    using linv that by (simp add: listeners_inv_def)
  have move: "watch_good s (watch_at p u)"
    if "env_step s u" "listeners_inv u" "ms_stop u = ms_stop s" "watch_ok p u" for p u
    by (rule watch_goodI [OF that(1) env_threads_inv [OF that(1,2) inv] that(3) _ that(4)]) (simp add: w)
  have ret: "watch_good s (stop_route_returns err job u)"
    if u: "env_step s u" "listeners_inv u" "ms_stop u = ms_stop s" "rj_stop job \<noteq> []"
        "rm_routeMap (ms_mgr s) (hd (rj_stop job)) = None \<or>
         (\<exists>i. rm_routeMap (ms_mgr s) (hd (rj_stop job)) = Some i \<and> ms_closed u i)" for err u
  proof -
    have "keys_quiet {hd (rj_stop job)} u"
      by (rule quiet_key [OF env_threads_inv [OF u(1,2) inv]]) (use u in \<open>simp add: env_step_def\<close>)
    moreover have "stop_job_ok job u"
      using env_watch_ok [OF u(1), of "WatchStop job KeyLookup"] job by simp
    ultimately obtain job' where "stop_route_returns err job u = watch_at (WatchStop job' KeyLookup) u" "stop_job_ok job' u"
      using stop_route_returns_ok u(4) by blast
    then show ?thesis using move [OF u(1-3)] by simp
  qed
  have mv: "stop_job_ok job u" if "env_step s u" for u
    using env_watch_ok [OF that, of "WatchStop job KeyLookup"] job by simp
  show ?thesis
  proof (cases pc)
    case KeyLookup
    then show ?thesis
      using step job linv ret [of s] move [of s] by (cases inp) (auto split: list.splits option.splits)
  next
    case (KeyMark i)
    with pc len have i: "i < heap_len s" by auto
    from KeyMark step have "inp = Proceed" by (cases inp) simp_all
    with KeyMark step have t: "t = watch_at (WatchStop job (KeyShutdown i)) (set_state i StateStopping s)" by simp
    show ?thesis unfolding t
      by (rule move) (use KeyMark pc i linv mv in \<open>simp_all add: call_env_step call_inv\<close>)
  next
    case (KeyShutdown i)
    with pc len have i: "i < heap_len s" by auto
    from KeyShutdown step obtain err where inp: "inp = ShutdownResult err" by (cases inp) simp_all
    show ?thesis
    proof (cases err)
      case None
      with KeyShutdown step inp have t: "t = watch_at (WatchStop job (KeyClose i)) (shut_server i s)" by (simp add: Let_def)
      show ?thesis unfolding t
        by (rule move) (use KeyShutdown pc i linv mv in \<open>simp_all add: call_env_step call_inv\<close>)
    next
      case (Some e)
      with KeyShutdown step inp have t: "t = stop_route_returns (Some (shutdown_failed e)) job (shut_server i s)"
        by (simp add: Let_def)
      show ?thesis unfolding t
        by (rule ret) (use KeyShutdown pc i linv in \<open>simp_all add: call_env_step call_inv\<close>)
    qed
  next
    case (KeyClose i)
    with pc len have i: "i < heap_len s" by auto
    from KeyClose step have "inp = Proceed" by (cases inp) simp_all
    with KeyClose step have t: "t = watch_at (WatchStop job (KeySet i)) (shut_closer i s)" by simp
    show ?thesis unfolding t
      by (rule move) (use KeyClose pc i linv mv in \<open>simp_all add: call_env_step call_inv\<close>)
  next
    case (KeySet i)
    with pc len have i: "i < heap_len s" by auto
    from KeySet step have "inp = Proceed" by (cases inp) simp_all
    with KeySet step have t: "t = stop_route_returns None job (set_state i StateStopped s)" by simp
    show ?thesis unfolding t
      by (rule ret) (use KeySet pc i linv in \<open>simp_all add: call_env_step call_inv\<close>)
  qed
qed

text \<open>The goroutine allocates, registers and starts a listener.\<close>

definition allocated :: "'t route_listener \<Rightarrow> ('t, 'w) manager_system \<Rightarrow> ('t, 'w) manager_system" where
  "allocated l s = s\<lparr>ms_mgr := snd (add_listener l (ms_mgr s))\<rparr>"

lemma allocated_sel [simp]:
  "rm_routes (ms_mgr (allocated l s)) = rm_routes (ms_mgr s)" "rm_routeMap (ms_mgr (allocated l s)) = rm_routeMap (ms_mgr s)"
  "rm_wg (ms_mgr (allocated l s)) = rm_wg (ms_mgr s)" "heap_len (allocated l s) = Suc (heap_len s)"
  "rm_bound (ms_mgr (allocated l s)) = rm_bound (ms_mgr s)" "ms_run (allocated l s) = ms_run s"
  "ms_closed (allocated l s) = ms_closed s" "ms_watch (allocated l s) = ms_watch s" "ms_stop (allocated l s) = ms_stop s"
  "ms_ctxDone (allocated l s) = ms_ctxDone s"
  "j < heap_len s \<Longrightarrow> key_at (allocated l s) j = key_at s j" "j < heap_len s \<Longrightarrow> port_of (allocated l s) j = port_of s j"
  "j < heap_len s \<Longrightarrow> is_stopped (allocated l s) j = is_stopped s j"
  "key_at (allocated l s) (heap_len s) = routeKey (rl_route l)"
  "is_stopped (allocated l s) (heap_len s) \<longleftrightarrow> rl_state l = StateStopped"
  by (auto simp: allocated_def add_listener_def observe rl_at_def nth_append)

lemma allocated_inv:
  assumes inv: "threads_inv s" and l: "rl_state l \<noteq> StateStopped"
  shows "threads_inv (allocated l s)" and "keys_quiet K s \<Longrightarrow> keys_quiet K (allocated l s)"
proof -
  have len: "ms_run s j \<noteq> None \<Longrightarrow> j < heap_len s" for j using inv by (simp add: threads_inv_def listeners_inv_def)
  have "may_serve (allocated l s) j \<longleftrightarrow> may_serve s j" "live (allocated l s) j \<longleftrightarrow> live s j"
    "may_serve s j \<Longrightarrow> key_at (allocated l s) j = key_at s j" for j
    using len [of j] by (auto simp: may_serve_def live_def)
  note same = this
  have track: "\<forall>j. may_serve (allocated l s) j \<longrightarrow> tracked (allocated l s) j"
    using inv same by (auto simp: threads_inv_def tracked_def)
  have bound: "rm_bound (ms_mgr s) p = Some i \<longleftrightarrow> ms_run s i = Some RunServe \<and> \<not> ms_closed s i \<and> port_of (allocated l s) i = p" for p i
    using inv len [of i] by (cases "ms_run s i = None") (auto simp: threads_inv_def listeners_inv_def)
  have closed: "i < Suc (heap_len s) \<and> is_stopped (allocated l s) i \<longrightarrow> ms_closed s i" for i
    using inv l by (cases "i < heap_len s") (auto simp: threads_inv_def listeners_inv_def less_Suc_eq)
  have live: "live (allocated l s) = live s" using same(2) by (simp add: fun_eq_iff)
  have "listeners_inv (allocated l s)"
    unfolding listeners_inv_def allocated_sel(1-7) live
    using inv bound closed by (auto simp: threads_inv_def listeners_inv_def less_SucI)
  with track show "threads_inv (allocated l s)" by (simp add: threads_inv_def)
  show "keys_quiet K s \<Longrightarrow> keys_quiet K (allocated l s)" using same by (auto simp: keys_quiet_def)
qed

definition registered :: "nat \<Rightarrow> route \<Rightarrow> ('t, 'w) manager_system \<Rightarrow> ('t, 'w) manager_system" where
  "registered i r s = on_manager (\<lambda>m. m\<lparr>rm_routes := drop_stopped m @ [i], rm_routeMap := (rm_routeMap m)(routeKey r \<mapsto> i)\<rparr>) s"

lemma registered_sel [simp]:
  "rm_routes (ms_mgr (registered i r s)) = filter (\<lambda>j. \<not> is_stopped s j) (rm_routes (ms_mgr s)) @ [i]"
  "rm_routeMap (ms_mgr (registered i r s)) = (rm_routeMap (ms_mgr s))(routeKey r \<mapsto> i)"
  "rm_wg (ms_mgr (registered i r s)) = rm_wg (ms_mgr s)" "heap_len (registered i r s) = heap_len s"
  "rm_bound (ms_mgr (registered i r s)) = rm_bound (ms_mgr s)" "ms_run (registered i r s) = ms_run s"
  "ms_closed (registered i r s) = ms_closed s" "ms_watch (registered i r s) = ms_watch s" "ms_stop (registered i r s) = ms_stop s"
  "ms_ctxDone (registered i r s) = ms_ctxDone s" "key_at (registered i r s) = key_at s" "port_of (registered i r s) = port_of s"
  "is_stopped (registered i r s) = is_stopped s" "live (registered i r s) = live s" "may_serve (registered i r s) = may_serve s"
  "keys_quiet K (registered i r s) = keys_quiet K s" "fresh j r' (registered i r s) = fresh j r' s"
  by (auto simp: registered_def on_manager_def drop_stopped_def observe live_def may_serve_def keys_quiet_def fresh_def fun_eq_iff)

lemma registered_inv:
  assumes inv: "threads_inv s" and fresh: "fresh i r s" and q: "keys_quiet {routeKey r} s"
  shows "threads_inv (registered i r s)" and "tracked (registered i r s) i"
proof -
  have "tracked (registered i r s) j" if j: "may_serve s j" for j
  proof -
    have "\<not> is_stopped s j" "key_at s j \<noteq> routeKey r"
      using inv j q by (auto simp: threads_inv_def listeners_inv_def may_serve_def keys_quiet_def)
    with inv j show ?thesis by (simp add: threads_inv_def tracked_def)
  qed
  moreover have "listeners_inv (registered i r s)"
    using inv fresh by (auto simp: threads_inv_def listeners_inv_def fresh_def)
  ultimately show "threads_inv (registered i r s)" by (simp add: threads_inv_def)
  show "tracked (registered i r s) i" using fresh by (simp add: tracked_def fresh_def)
qed

definition spawned :: "nat \<Rightarrow> ('t, 'w) manager_system \<Rightarrow> ('t, 'w) manager_system" where
  "spawned i s = (on_manager (\<lambda>m. m\<lparr>rm_wg := rm_wg m + 1\<rparr>) s)\<lparr>ms_run := (ms_run s)(i \<mapsto> RunStart)\<rparr>"

lemma spawned_sel [simp]:
  "rm_routes (ms_mgr (spawned i s)) = rm_routes (ms_mgr s)" "rm_routeMap (ms_mgr (spawned i s)) = rm_routeMap (ms_mgr s)"
  "rm_wg (ms_mgr (spawned i s)) = Suc (rm_wg (ms_mgr s))" "heap_len (spawned i s) = heap_len s"
  "rm_bound (ms_mgr (spawned i s)) = rm_bound (ms_mgr s)" "ms_run (spawned i s) = (ms_run s)(i \<mapsto> RunStart)"
  "ms_closed (spawned i s) = ms_closed s" "ms_watch (spawned i s) = ms_watch s" "ms_stop (spawned i s) = ms_stop s"
  "ms_ctxDone (spawned i s) = ms_ctxDone s" "key_at (spawned i s) = key_at s" "port_of (spawned i s) = port_of s"
  "is_stopped (spawned i s) = is_stopped s" "tracked (spawned i s) j = tracked s j"
  by (auto simp: spawned_def on_manager_def observe tracked_def fun_eq_iff)

lemma spawned_inv:
  assumes inv: "threads_inv s" and fresh: "fresh i r s" and tr: "tracked s i"
  shows "threads_inv (spawned i s)" and "keys_quiet K s \<Longrightarrow> routeKey r \<notin> K \<Longrightarrow> keys_quiet K (spawned i s)"
proof -
  have i: "ms_run s i = None" "i < heap_len s" "key_at s i = routeKey r" using fresh by (auto simp: fresh_def)
  have "Collect (live (spawned i s)) = insert i (Collect (live s))" "i \<notin> Collect (live s)"
    using i by (auto simp: live_def)
  then have "card (Collect (live (spawned i s))) = Suc (card (Collect (live s)))"
    using inv live_finite [of s] by (simp add: threads_inv_def)
  moreover have "rm_bound (ms_mgr s) p = Some j \<longleftrightarrow>
      ((ms_run s)(i \<mapsto> RunStart)) j = Some RunServe \<and> \<not> ms_closed s j \<and> port_of s j = p" for p j
    using inv i by (auto simp: threads_inv_def listeners_inv_def)
  ultimately have "listeners_inv (spawned i s)"
    using inv i unfolding listeners_inv_def spawned_sel by (simp add: threads_inv_def listeners_inv_def)
  moreover have "tracked s j" if "may_serve (spawned i s) j" for j
    using that tr inv by (auto simp: may_serve_def threads_inv_def split: if_splits)
  ultimately show "threads_inv (spawned i s)" by (simp add: threads_inv_def)
  show "keys_quiet K s \<Longrightarrow> routeKey r \<notin> K \<Longrightarrow> keys_quiet K (spawned i s)"
    using i by (auto simp: keys_quiet_def may_serve_def split: if_splits)
qed

lemma watch_goodI2:
  assumes "stop_mono s (watch_at pc u)" and "threads_inv u" and "ms_stop u = ms_stop s" and "watch_ok pc (watch_at pc u)"
  shows "watch_good s (watch_at pc u)"
  using assms stop_mono_ok by (auto simp: watch_good_def)

lemma start_route_returns_eq:
  "rj_start job = r # rs \<Longrightarrow> \<exists>job'. start_route_returns err job s = watch_at (WatchStart job' RouteCreate) s \<and> rj_start job' = rs"
  by (cases err) (auto simp: start_route_returns_def Let_def)

lemma logged_inv [simp]: "threads_inv (s\<lparr>ms_reloads := rs\<rparr>) = threads_inv s"
proof -
  have "port_of (s\<lparr>ms_reloads := rs\<rparr>) = port_of s" "key_at (s\<lparr>ms_reloads := rs\<rparr>) = key_at s"
    "is_stopped (s\<lparr>ms_reloads := rs\<rparr>) = is_stopped s" "live (s\<lparr>ms_reloads := rs\<rparr>) = live s"
    "may_serve (s\<lparr>ms_reloads := rs\<rparr>) = may_serve s"
    by (simp_all add: observe live_def may_serve_def fun_eq_iff)
  then show ?thesis by (simp add: threads_inv_def listeners_inv_def tracked_def)
qed

lemma reload_returns_good: "threads_inv s \<Longrightarrow> ms_watch s \<noteq> WatchExit \<Longrightarrow> watch_good s (reload_returns err s)"
  unfolding reload_returns_def by (rule watch_goodI2) simp_all

lemma start_route_step_good:
  assumes inv: "threads_inv s" and w: "ms_watch s = WatchStart job pc" and ok: "watch_ok (WatchStart job pc) s"
    and step: "start_route_step inp job pc s = Some t"
  shows "watch_good s t"
proof -
  have dist: "distinct (map routeKey (rj_start job))" and pc: "start_route_ok job pc s" using ok by simp_all
  have nex: "ms_watch s \<noteq> WatchExit" by (simp add: w)
  have returns: "watch_good s (start_route_returns err job s)"
    if ne: "rj_start job \<noteq> []" and q: "keys_quiet (start_keys (tl (rj_start job))) s" for err
  proof -
    obtain r rs where rs: "rj_start job = r # rs" using ne by (cases "rj_start job") auto
    from start_route_returns_eq [OF rs] obtain job' where
      eq: "start_route_returns err job s = watch_at (WatchStart job' RouteCreate) s" "rj_start job' = rs" by blast
    show ?thesis unfolding eq(1)
      by (rule watch_goodI2) (use inv nex dist rs eq(2) q in simp_all)
  qed
  show ?thesis
  proof (cases pc)
    case RouteCreate
    with step have "inp = Proceed" by (cases inp) simp_all
    show ?thesis
    proof (cases "rj_start job")
      case Nil
      with step RouteCreate \<open>inp = Proceed\<close> show ?thesis using reload_returns_good [OF inv nex] by auto
    next
      case (Cons r rs)
      define l where "l = createListener (ms_getCfg s) (ms_mgr s) r"
      have t: "t = watch_at (WatchStart job (RouteRegister (heap_len s))) (allocated l s)"
        using step RouteCreate \<open>inp = Proceed\<close> Cons by (simp add: allocated_def add_listener_def l_def)
      have l: "rl_state l \<noteq> StateStopped" "rl_route l = r" by (simp_all add: l_def createListener_def)
      have none: "ms_run s (heap_len s) = None" using inv by (auto simp: threads_inv_def listeners_inv_def)
      show ?thesis unfolding t
        by (rule watch_goodI2)
          (use inv nex dist pc RouteCreate Cons l none in \<open>simp_all add: allocated_inv fresh_def\<close>)
    qed
  next
    case (RouteRegister i)
    with step have "inp = Proceed" by (cases inp) simp_all
    with step RouteRegister have t: "t = watch_at (WatchStart job (RouteSpawn i)) (registered i (hd (rj_start job)) s)"
      by (simp add: registered_def)
    have q: "keys_quiet {routeKey (hd (rj_start job))} s" "rj_start job \<noteq> []" "fresh i (hd (rj_start job)) s"
      "keys_quiet (start_keys (rj_start job)) s"
      using pc RouteRegister by (auto simp: start_keys_def intro: quiet_mono)
    show ?thesis unfolding t
      by (rule watch_goodI2) (use inv nex dist q registered_inv [OF inv q(3,1)] in simp_all)
  next
    case (RouteSpawn i)
    with step have "inp = Proceed" by (cases inp) simp_all
    with step RouteSpawn have t: "t = watch_at (WatchStart job (RouteWait i)) (spawned i s)"
      by (auto simp: spawned_def watch_at_def on_manager_def)
    have q: "rj_start job \<noteq> []" "fresh i (hd (rj_start job)) s" "keys_quiet (start_keys (rj_start job)) s" "tracked s i"
      using pc RouteSpawn by auto
    have tl: "keys_quiet (start_keys (tl (rj_start job))) s" "routeKey (hd (rj_start job)) \<notin> start_keys (tl (rj_start job))"
      using q(1,3) dist by (cases "rj_start job"; auto simp: start_keys_def intro: quiet_mono)+
    show ?thesis unfolding t
      by (rule watch_goodI2) (use inv nex dist q tl spawned_inv [OF inv q(2,4)] in simp_all)
  next
    case (RouteWait i)
    then have q: "rj_start job \<noteq> []" "keys_quiet (start_keys (tl (rj_start job))) s" using pc by auto
    from step RouteWait consider
        "t = watch_at (WatchStart job (RouteResult i)) s" | "t = start_route_returns (Some startup_timeout) job s"
      by (cases inp) (auto split: if_splits)
    then show ?thesis
    proof cases
      case 1
      show ?thesis unfolding 1 by (rule watch_goodI2) (use inv nex dist q in simp_all)
    next
      case 2
      then show ?thesis using returns [OF q] by simp
    qed
  next
    case (RouteResult i)
    then have q: "rj_start job \<noteq> []" "keys_quiet (start_keys (tl (rj_start job))) s" using pc by auto
    from step RouteResult have "t = start_route_returns (start_result (rl_at (ms_mgr s) i)) job s" by (cases inp) simp_all
    then show ?thesis using returns [OF q] by simp
  qed
qed

lemma detect_job_ok:
  assumes inv: "threads_inv s" and new: "visits_keys newOrder new" and old: "visits_keys oldOrder (active_routes (ms_mgr s))"
  shows "stop_job_ok (reload_job_of (detectChanges newOrder oldOrder (active_routes (ms_mgr s)) new)) s"
proof -
  let ?ch = "detectChanges newOrder oldOrder (active_routes (ms_mgr s)) new"
  note orders = new [unfolded visits_keys_range] old [unfolded visits_keys_range]
  have "key_at s i \<notin> start_keys (added ?ch)" if i: "may_serve s i" for i
  proof -
    have "i \<in> set (rm_routes (ms_mgr s))" using inv i by (simp add: threads_inv_def tracked_def)
    then have "key_at s i \<in> dom (route_map (active_routes (ms_mgr s)))"
      by (auto simp: route_map_dom active_routes_def key_at_def)
    then show ?thesis
      using detectChanges_added [OF orders(1)] by (auto simp: start_keys_def)
  qed
  then show ?thesis
    using changes_distinct [OF orders]
    by (auto simp: stop_job_ok_def reload_job_of_def keys_quiet_def start_keys_def image_Un)
qed

definition cleaned :: "string list \<Rightarrow> ('t, 'w) manager_system \<Rightarrow> ('t, 'w) manager_system" where
  "cleaned ks s = on_manager (cleanupStoppedRoutes ks) s"

lemma cleaned_sel [simp]:
  "rm_routes (ms_mgr (cleaned ks s)) = filter (\<lambda>j. key_at s j \<notin> set ks) (rm_routes (ms_mgr s))"
  "rm_routeMap (ms_mgr (cleaned ks s)) = rm_routeMap (ms_mgr s) |` (- set ks)"
  "rm_wg (ms_mgr (cleaned ks s)) = rm_wg (ms_mgr s)" "heap_len (cleaned ks s) = heap_len s"
  "rm_bound (ms_mgr (cleaned ks s)) = rm_bound (ms_mgr s)" "ms_run (cleaned ks s) = ms_run s"
  "ms_closed (cleaned ks s) = ms_closed s" "ms_watch (cleaned ks s) = ms_watch s" "ms_stop (cleaned ks s) = ms_stop s"
  "ms_ctxDone (cleaned ks s) = ms_ctxDone s" "key_at (cleaned ks s) = key_at s" "port_of (cleaned ks s) = port_of s"
  "is_stopped (cleaned ks s) = is_stopped s" "live (cleaned ks s) = live s" "may_serve (cleaned ks s) = may_serve s"
  "keys_quiet K (cleaned ks s) = keys_quiet K s"
  by (auto simp: cleaned_def on_manager_def cleanup_sel observe key_of_def rt_def live_def may_serve_def keys_quiet_def fun_eq_iff)

lemma cleaned_inv:
  assumes inv: "threads_inv s" and q: "keys_quiet (set ks) s"
  shows "threads_inv (cleaned ks s)"
proof -
  have "tracked (cleaned ks s) j" if "may_serve s j" for j
    using inv q that by (auto simp: threads_inv_def tracked_def keys_quiet_def)
  moreover have "listeners_inv (cleaned ks s)"
    using inv by (auto simp: threads_inv_def listeners_inv_def restrict_map_def split: if_splits)
  ultimately show ?thesis by (simp add: threads_inv_def)
qed

lemma watcher_step_good:
  assumes inv: "threads_inv s" and ok: "watch_ok (ms_watch s) s" and mok: "manager_ok (MWatch inp) s"
    and step: "watcher_step inp s = Some t"
  shows "watch_good s t"
proof (cases "ms_watch s")
  case WatchSelect
  from WatchSelect step consider "t = watch_at WatchExit s" | "t = watch_at WatchConfig s"
    by (cases inp) (auto simp: watcher_step_def split: if_splits)
  then show ?thesis using WatchSelect inv by cases (auto intro!: watch_goodI2)
next
  case WatchConfig
  from WatchConfig step consider "t = reload_returns (Some no_configuration) s" | cfg where "t = watch_at (WatchRoutes cfg) s"
    by (cases inp) (auto simp: watcher_step_def split: option.splits)
  then show ?thesis using WatchConfig inv reload_returns_good [of s] by cases (auto intro!: watch_goodI2)
next
  case (WatchRoutes cfg)
  with step obtain newOrder oldOrder where inp: "inp = Orders newOrder oldOrder"
    by (cases inp) (auto simp: watcher_step_def)
  let ?ch = "detectChanges newOrder oldOrder (active_routes (ms_mgr s)) (cfg_routes cfg)"
  have job: "stop_job_ok (reload_job_of ?ch) s"
    by (rule detect_job_ok [OF inv]) (use mok WatchRoutes inp in simp_all)
  have nex: "ms_watch s \<noteq> WatchExit" by (simp add: WatchRoutes)
  from step WatchRoutes inp consider "t = reload_returns None s" | "t = watch_at (WatchStop (reload_job_of ?ch) KeyLookup) s"
    by (auto simp: watcher_step_def Let_def split: if_splits)
  then show ?thesis
  proof cases
    case 1
    then show ?thesis using reload_returns_good [OF inv nex] by simp
  next
    case 2
    show ?thesis unfolding 2
      by (rule watch_goodI2) (use inv nex job in \<open>simp_all add: stop_job_ok_def\<close>)
  qed
next
  case (WatchStop job pc)
  show ?thesis
    by (rule stop_route_step_good [OF inv WatchStop]) (use ok step WatchStop in \<open>simp_all add: watcher_step_def\<close>)
next
  case (WatchCleanup job)
  with step have t: "t = watch_at (WatchStart job RouteCreate) (cleaned (rj_stopped job) s)"
    by (cases inp) (auto simp: watcher_step_def cleaned_def)
  have "keys_quiet (set (rj_stopped job)) s" "keys_quiet (start_keys (rj_start job)) s" "distinct (map routeKey (rj_start job))"
    using ok WatchCleanup by (auto simp: stop_job_ok_def)
  then show ?thesis
    unfolding t using WatchCleanup inv by (intro watch_goodI2) (simp_all add: cleaned_inv)
next
  case (WatchStart job pc)
  show ?thesis
    by (rule start_route_step_good [OF inv WatchStart]) (use ok step WatchStart in \<open>simp_all add: watcher_step_def\<close>)
next
  case WatchExit
  with step show ?thesis by (cases inp) (auto simp: watcher_step_def)
qed

section \<open>Callers of Stop keep the invariant\<close>

lemma watch_ok_stopper [simp]:
  "watch_ok pc (stopper_at k x s) = watch_ok pc s" "threads_inv (stopper_at k x s) = threads_inv s"
  "stop_mono s (stopper_at k x u) = stop_mono s u" "stopper_ok y (stopper_at k x s) = stopper_ok y s"
  "env_step s (stopper_at k x u) = env_step s u"
proof -
  have o: "port_of (stopper_at k x s) = port_of s" "key_at (stopper_at k x s) = key_at s"
    "is_stopped (stopper_at k x s) = is_stopped s" "live (stopper_at k x s) = live s"
    "may_serve (stopper_at k x s) = may_serve s" for s :: "('a, 'b) manager_system"
    by (simp_all add: observe live_def may_serve_def fun_eq_iff)
  then have q: "keys_quiet K (stopper_at k x s) = keys_quiet K s" "tracked (stopper_at k x s) i = tracked s i"
    "fresh i r (stopper_at k x s) = fresh i r s" for K i r
    by (simp_all add: keys_quiet_def tracked_def fresh_def)
  show "threads_inv (stopper_at k x s) = threads_inv s"
    by (simp add: threads_inv_def listeners_inv_def o q)
  show "stop_mono s (stopper_at k x u) = stop_mono s u" by (simp add: stop_mono_def)
  show "env_step s (stopper_at k x u) = env_step s u" by (simp add: env_step_def o)
  show "stopper_ok y (stopper_at k x s) = stopper_ok y s"
    by (cases "(y, s)" rule: stopper_ok.cases) simp_all
  show "watch_ok pc (stopper_at k x s) = watch_ok pc s"
  proof (cases pc)
    case (WatchStop job st)
    then show ?thesis by (cases st) (simp_all add: stop_job_ok_def q)
  next
    case (WatchStart job st)
    then show ?thesis by (cases st) (simp_all add: q)
  qed (simp_all add: stop_job_ok_def q)
qed

text \<open>A step of a caller: what it does to the system, and where it gets.\<close>

lemma manager_inv_alt: "manager_inv s \<longleftrightarrow> threads_inv s \<and> watch_ok (ms_watch s) s \<and> (\<forall>k. stopper_ok (ms_stop s k) s)"
  by (auto simp: manager_inv_def threads_inv_def)

lemma stopper_okD: "manager_inv s \<Longrightarrow> ms_stop s k = pc \<Longrightarrow> stopper_ok pc s"
  by (auto simp: manager_inv_alt)

lemma stopper_moves:
  assumes inv: "manager_inv s" and e: "env_step s u" and t: "threads_inv u" "ms_stop u = ms_stop s" and ok: "stopper_ok pc u"
  shows "manager_inv (stopper_at k pc u)"
proof -
  have "watch_ok (ms_watch u) u" using inv env_watch_ok [OF e] e by (simp add: manager_inv_alt env_step_def)
  moreover have "stopper_ok (ms_stop s j) u" for j
    using inv stop_mono_ok [OF env_stop_mono [OF e]] by (simp add: manager_inv_alt)
  ultimately show ?thesis using t ok by (simp add: manager_inv_alt)
qed

lemma begin_env: "Stop_begin (ms_mgr s) = (Inr routes, m) \<Longrightarrow>
    env_step s (s\<lparr>ms_mgr := m, ms_ctxDone := True\<rparr>) \<and> (listeners_inv s \<longrightarrow> listeners_inv (s\<lparr>ms_mgr := m, ms_ctxDone := True\<rparr>)) \<and>
    routes = rm_routes (ms_mgr s)"
  by (auto simp: Stop_begin_def env_step_def listeners_inv_def observe live_def [abs_def] fun_eq_iff split: if_splits)

lemma shutdown_step_inv:
  assumes inv: "manager_inv s" and k: "ms_stop s k = StopperShut (i # rest) pc"
  shows "manager_inv (shutdown_step k i rest pc s)"
proof -
  have ok: "stopper_ok (StopperShut (i # rest) pc) s" by (rule stopper_okD [OF inv k])
  then have i: "i < heap_len s" and th: "threads_inv s" using inv by (auto simp: manager_inv_alt)
  have l: "listeners_inv s" using th by (simp add: threads_inv_def)
  have go: "manager_inv (stopper_at k p u)"
    if "env_step s u" "listeners_inv u" "ms_stop u = ms_stop s" "stopper_ok p u" for p u
    by (rule stopper_moves [OF inv that(1) env_threads_inv [OF that(1,2) th] that(3,4)])
  show ?thesis
    using ok i l by (cases pc) (auto intro!: go simp: call_env_step call_inv)
qed

lemma stopper_step_inv:
  assumes inv: "manager_inv s" and step: "stopper_step k deadline s = Some t"
  shows "manager_inv t"
proof -
  have ok: "stopper_ok (ms_stop s k) s" and th: "threads_inv s" using inv by (auto simp: manager_inv_alt)
  note go = stopper_moves [OF inv env_step_refl th refl]
  show ?thesis
  proof (cases "ms_stop s k")
    case StopperIdle
    show ?thesis
    proof (cases "Stop_begin (ms_mgr s)")
      case (Pair res m)
      show ?thesis
      proof (cases res)
        case (Inl e)
        with step StopperIdle Pair have "t = stopper_at k (StopperDone (Some e)) s" by (simp add: stopper_step_def)
        then show ?thesis using go by simp
      next
        case (Inr routes)
        note b = begin_env [OF Pair [unfolded Inr]]
        have t: "t = stopper_at k (StopperShut routes ShutMark) (s\<lparr>ms_mgr := m, ms_ctxDone := True\<rparr>)"
          using step StopperIdle Pair Inr by (simp add: stopper_step_def)
        have e: "env_step s (s\<lparr>ms_mgr := m, ms_ctxDone := True\<rparr>)" and l: "listeners_inv (s\<lparr>ms_mgr := m, ms_ctxDone := True\<rparr>)"
          and routes: "routes = rm_routes (ms_mgr s)" using b th by (auto simp: threads_inv_def)
        have len: "heap_len (s\<lparr>ms_mgr := m, ms_ctxDone := True\<rparr>) = heap_len s" using e by (simp add: env_step_def)
        have "stopper_ok (StopperShut routes ShutMark) (s\<lparr>ms_mgr := m, ms_ctxDone := True\<rparr>)"
          using th len by (simp add: routes threads_inv_def listeners_inv_def)
        then show ?thesis unfolding t
          by (intro stopper_moves [OF inv e env_threads_inv [OF e l th]]) simp_all
      qed
    qed
  next
    case (StopperShut left pc)
    show ?thesis
    proof (cases left)
      case Nil
      with step StopperShut ok have "t = stopper_at k StopperReload s" "ms_ctxDone s" by (simp_all add: stopper_step_def)
      then show ?thesis using go by simp
    next
      case (Cons i rest)
      with step StopperShut have "t = shutdown_step k i rest pc s" by (simp add: stopper_step_def)
      then show ?thesis using shutdown_step_inv [OF inv] StopperShut Cons by simp
    qed
  next
    case StopperReload
    with step have "t = stopper_at k StopperWait s" "ms_watch s = WatchExit" by (auto simp: stopper_step_def split: if_splits)
    then show ?thesis using go by simp
  next
    case StopperWait
    with step consider "t = stopper_at k (StopperDone (Some (Sentinel ErrShutdownTimeout))) s"
      | "t = stopper_at k (StopperDone None) s" "rm_wg (ms_mgr s) = 0"
      by (auto simp: stopper_step_def split: if_splits)
    then show ?thesis using go ok StopperWait by cases simp_all
  next
    case (StopperDone res)
    with step show ?thesis by (simp add: stopper_step_def)
  qed
qed

section \<open>The system keeps the invariant\<close>

lemma run_inv_step:
  assumes inv: "manager_inv s" and e: "env_step s t" and l: "listeners_inv t" and st: "ms_stop t = ms_stop s"
  shows "manager_inv t"
proof -
  have "watch_ok (ms_watch t) t" using inv env_watch_ok [OF e] e by (simp add: manager_inv_alt env_step_def)
  moreover have "stopper_ok (ms_stop s j) t" for j
    using inv stop_mono_ok [OF env_stop_mono [OF e]] by (simp add: manager_inv_alt)
  ultimately show ?thesis using env_threads_inv [OF e l] inv st by (simp add: manager_inv_alt)
qed

lemma manager_exec_inv:
  assumes inv: "manager_inv s" and ok: "manager_ok a s" and step: "manager_exec a s = Some t"
  shows "manager_inv t"
proof -
  have th: "threads_inv s" using inv by (simp add: manager_inv_alt)
  then have l: "listeners_inv s" by (simp add: threads_inv_def)
  have len: "ms_run s j \<noteq> None \<Longrightarrow> j < heap_len s" for j using l by (simp add: listeners_inv_def)
  show ?thesis
  proof (cases a)
    case (MRun refuse i)
    with step have r: "run_thread refuse i s = Some t" by simp
    show ?thesis using run_inv_step [OF inv _ run_thread_inv [OF l r]] run_thread_effect [OF r len] by blast
  next
    case (MTimer i)
    with step have r: "timer_thread i s = Some t" by simp
    show ?thesis using run_inv_step [OF inv _ timer_thread_inv [OF l r]] timer_thread_effect [OF r len] by blast
  next
    case (MWatch inp)
    have "watch_good s t"
      by (rule watcher_step_good [OF th]) (use inv ok step MWatch in \<open>simp_all add: manager_inv_alt\<close>)
    then show ?thesis using inv by (simp add: watch_good_def manager_inv_alt)
  next
    case (MStop k deadline)
    with step show ?thesis using stopper_step_inv [OF inv] by simp
  next
    case (MConfig cfg)
    then have t: "t = s\<lparr>ms_getCfg := cfg\<rparr>" using step by simp
    show ?thesis
      by (rule run_inv_step [OF inv]) (use l in \<open>simp_all add: t env_step_def listeners_inv_def observe live_def [abs_def] fun_eq_iff\<close>)
  next
    case MCancel
    then have t: "t = s\<lparr>ms_ctxDone := True\<rparr>" using step by simp
    show ?thesis
      by (rule run_inv_step [OF inv]) (use l in \<open>simp_all add: t env_step_def listeners_inv_def observe live_def [abs_def] fun_eq_iff\<close>)
  qed
qed

text \<open>The manager when Start returns.\<close>

definition start_manager ::
  "'w option option \<Rightarrow> 't option \<Rightarrow> config \<Rightarrow> (route \<Rightarrow> config option) \<Rightarrow> ('t, 'w) route_manager \<Rightarrow> ('t, 'w) route_manager" where
  "start_manager wake tracker cfg at m =
     (let m = (case wake of None \<Rightarrow> m | Some opts \<Rightarrow> SetWakeOptions opts m)
      in snd (RouteManager_Start (Some cfg) at (SetIdleTracker tracker m)))"

inductive manager_init :: "('t, 'w) manager_system \<Rightarrow> bool" where
  start_returns: "NewRouteManager True True True True = Inr m0 \<Longrightarrow> distinct (map routeKey (cfg_routes cfg)) \<Longrightarrow>
    manager_init (manager_started getCfg (start_manager wake tracker cfg at m0))"

lemma start_manager_inv:
  fixes wake :: "'w option option" and tracker :: "'t option" and at :: "route \<Rightarrow> config option"
  assumes new: "NewRouteManager True True True True = Inr m0" and keys: "distinct (map routeKey (cfg_routes cfg))"
  defines "m \<equiv> start_manager wake tracker cfg at m0"
  shows "start_inv m" and "pending m = {0..<length (rm_heap m)}" and "active_routes m = cfg_routes cfg" and "rm_running m"
proof -
  define m1 where "m1 = m0\<lparr>rm_wakeOptions := wake, rm_idleTracker := tracker, rm_running := True\<rparr>"
  have m0: "m0 = \<lparr>rm_wakeOptions = None, rm_idleTracker = None, rm_metrics = None, rm_heap = [],
      rm_routes = [], rm_routeMap = Map.empty, rm_running = False, rm_wg = 0,
      rm_shutdownTimeout = defaultShutdownTimeout, rm_bound = Map.empty\<rparr>"
    using new by (simp add: NewRouteManager_def validateDependencies_def)
  have m: "m = start_listeners at (cfg_routes cfg) m1"
    by (cases wake) (simp_all add: m_def start_manager_def SetWakeOptions_def SetIdleTracker_def RouteManager_Start_def m1_def m0)
  have "start_inv m1" "pending m1 = {0..<length (rm_heap m1)}" "active_routes m1 = []"
    by (simp_all add: start_inv_def pending_def m1_def m0 active_routes_def serving_def)
  with start_listeners_inv [of m1 "cfg_routes cfg" at] keys
  show "start_inv m" "pending m = {0..<length (rm_heap m)}" "active_routes m = cfg_routes cfg" by (simp_all add: m)
  show "rm_running m" by (simp add: m m1_def)
qed

lemma manager_init_inv:
  assumes "manager_init s"
  shows "manager_inv s"
  using assms
proof cases
  case (start_returns m0 cfg getCfg wake tracker at)
  define m where "m = start_manager wake tracker cfg at m0"
  note start = start_manager_inv [OF start_returns(2,3), of wake tracker at, folded m_def]
  have s: "s = manager_started getCfg m" by (simp add: start_returns(1) m_def)
  have init: "rl_state (rl_at m i) = StateInitial" if "i < length (rm_heap m)" for i
  proof -
    have "i \<in> pending m" using that by (simp add: start(2))
    then show ?thesis by (simp add: pending_def)
  qed
  then have noserve: "\<not> serving m i" if "i < length (rm_heap m)" for i
    using that by (simp add: serving_def)
  have routes: "rm_routes m = [0..<length (rm_heap m)]" using start(1) by (simp add: start_inv_def)
  have "filter (serving m) (rm_routes m) = []" using noserve routes by (auto simp: filter_empty_conv)
  then have wg: "rm_wg m = length (rm_heap m)" using start by (simp add: start_inv_def)
  have bound: "rm_bound m p \<noteq> Some i" for p i
    using start(1) noserve by (auto simp: start_inv_def)
  have live: "Collect (live s) = {..<length (rm_heap m)}" by (auto simp: s live_def manager_started_def split: if_splits)
  have map: "rm_routeMap m k = Some i \<Longrightarrow> i < length (rm_heap m)" for k i
    using start(1) unfolding start_inv_def by blast
  have "listeners_inv s"
    unfolding listeners_inv_def live
    using init bound wg map by (simp add: s manager_started_def is_stopped_def routes)
  moreover have "tracked s i" if "may_serve s i" for i
    using that start(1) by (auto simp: s may_serve_def tracked_def manager_started_def start_inv_def key_at_def
        key_of_def rt_def split: if_splits)
  ultimately show ?thesis
    by (simp add: manager_inv_def) (simp add: s manager_started_def)
qed

interpretation managers: invariant_system manager_init manager_step manager_inv
proof
  show "manager_init s \<Longrightarrow> manager_inv s" for s :: "('a, 'b) manager_system" by (rule manager_init_inv)
  show "manager_inv s \<Longrightarrow> manager_step s t \<Longrightarrow> manager_inv t" for s t :: "('a, 'b) manager_system"
    by (erule manager_stepE) (rule manager_exec_inv)
qed

lemma manager_run_steps: "manager_run as s = Some t \<Longrightarrow> manager_step\<^sup>*\<^sup>* s t"
proof (induction as arbitrary: s)
  case Nil
  then show ?case by simp
next
  case (Cons a as)
  then show ?case
    by (auto split: option.splits if_splits intro: converse_rtranclp_into_rtranclp manager_step.intros)
qed

lemma manager_run_append:
  "manager_run (as @ bs) s = (case manager_run as s of None \<Rightarrow> None | Some t \<Rightarrow> manager_run bs t)"
  by (induction as arbitrary: s) (auto split: option.split)

text \<open>Only a caller itself changes where it is, and the result of a call stays.\<close>

lemma stopper_untouched:
  assumes ex: "manager_exec a s = Some t" and other: "\<And>d. a \<noteq> MStop k d"
  shows "ms_stop t k = ms_stop s k"
proof (cases a)
  case (MRun refuse i)
  with ex show ?thesis
    by (auto simp: run_thread_def put_listener_def wg_done_def Let_def split: option.splits if_splits)
next
  case (MTimer i)
  with ex show ?thesis by (auto simp: timer_thread_def put_listener_def split: option.splits)
next
  case (MWatch inp)
  with ex have step: "watcher_step inp s = Some t" by simp
  have "ms_stop t = ms_stop s"
  proof (cases "ms_watch s")
    case (WatchStop job pc)
    then show ?thesis using step
      by (cases pc; cases inp)
        (auto simp: watcher_step_def stop_route_returns_def set_state_def shut_server_def shut_closer_def Let_def
          split: list.splits option.splits)
  next
    case (WatchStart job pc)
    then show ?thesis using step
      by (cases pc; cases inp)
        (auto simp: watcher_step_def start_route_returns_def reload_returns_def on_manager_def Let_def
          split: list.splits option.splits if_splits prod.splits)
  qed (use step in \<open>auto simp: watcher_step_def reload_returns_def on_manager_def Let_def
      split: watch_input.splits option.splits if_splits\<close>)
  then show ?thesis by simp
next
  case (MStop j deadline)
  with ex other have st: "stopper_step j deadline s = Some t" and j: "j \<noteq> k" by auto
  have "ms_stop (shutdown_step j i rest pc s) k = ms_stop s k" for i rest pc
    using j by (cases pc) (auto simp: set_state_def shut_server_def shut_closer_def)
  then show ?thesis
    using st j by (auto simp: stopper_step_def split: stopper_pc.splits prod.splits sum.splits list.splits if_splits)
qed (use ex in auto)

lemma stopper_done_exec:
  assumes "manager_exec a s = Some t" and "ms_stop s k = StopperDone res"
  shows "ms_stop t k = StopperDone res"
proof -
  have "a \<noteq> MStop k d" for d using assms by (auto simp: stopper_step_def)
  with stopper_untouched [OF assms(1)] assms(2) show ?thesis by simp
qed

lemma stopper_done_steps: "manager_step\<^sup>*\<^sup>* s t \<Longrightarrow> ms_stop s k = StopperDone res \<Longrightarrow> ms_stop t k = StopperDone res"
  by (induction rule: rtranclp_induct) (auto elim!: manager_stepE dest: stopper_done_exec)

lemma stopped_system:
  assumes inv: "manager_inv s" and k: "ms_stop s k = StopperDone None"
  shows "rm_bound (ms_mgr s) = Map.empty" and "\<not> live s i" and "ms_watch s = WatchExit"
proof -
  have "stopper_ok (ms_stop s k) s" and l: "listeners_inv s" using inv by (auto simp: manager_inv_def)
  then have wg: "rm_wg (ms_mgr s) = 0" and "ms_watch s = WatchExit" by (simp_all add: k)
  then show "ms_watch s = WatchExit" by simp
  have none: "\<not> live s i" for i
    using l wg live_finite [OF l] by (auto simp: listeners_inv_def)
  then show "\<not> live s i" .
  show "rm_bound (ms_mgr s) = Map.empty"
  proof
    fix p
    show "rm_bound (ms_mgr s) p = None"
    proof (cases "rm_bound (ms_mgr s) p")
      case (Some j)
      then have "live s j" using l by (simp add: listeners_inv_def live_def)
      with none show ?thesis by simp
    qed simp
  qed
qed

end
