(* ===== verification/ManagerStop.thy ===== *)
theory ManagerStop
  imports ManagerThreads
begin

text \<open>
  Stop of the route manager against everything else that runs (\<open>internal/proxy/route_manager.go\<close>), on the
  threads of ManagerThreads: Stop can always be brought to its end, a successful Stop is final, no
  listener gets lost; and the run that shows what Stop misses.
\<close>

section \<open>Stop returns\<close>

text \<open>Schedules of the program's own threads.\<close>

fun own_action :: "manager_action \<Rightarrow> bool" where
  "own_action (MConfig cfg) \<longleftrightarrow> False"
| "own_action MCancel \<longleftrightarrow> False"
| "own_action _ \<longleftrightarrow> True"

definition can_reach :: "(manager_action \<Rightarrow> bool) \<Rightarrow> ('t, 'w) manager_system \<Rightarrow> (('t, 'w) manager_system \<Rightarrow> bool) \<Rightarrow> bool" where
  "can_reach A s P \<longleftrightarrow> (\<exists>as t. list_all A as \<and> manager_run as s = Some t \<and> manager_inv t \<and> P t)"

lemma can_reach_here: "manager_inv s \<Longrightarrow> P s \<Longrightarrow> can_reach A s P"
  unfolding can_reach_def by (intro exI [of _ "[]"] exI [of _ s]) simp

lemma can_reach_step:
  assumes inv: "manager_inv s" and a: "A a" "manager_ok a s" "manager_exec a s = Some t" and r: "can_reach A t P"
  shows "can_reach A s P"
proof -
  from r obtain as u where "list_all A as" "manager_run as t = Some u" "manager_inv u" "P u" by (auto simp: can_reach_def)
  with a show ?thesis unfolding can_reach_def by (intro exI [of _ "a # as"] exI [of _ u]) simp
qed

lemma can_reach_trans:
  assumes "can_reach A s P" and "\<And>t. manager_inv t \<Longrightarrow> P t \<Longrightarrow> can_reach A t Q"
  shows "can_reach A s Q"
proof -
  from assms(1) obtain as t where t: "list_all A as" "manager_run as s = Some t" "manager_inv t" "P t"
    by (auto simp: can_reach_def)
  from assms(2) [OF t(3,4)] obtain bs u where "list_all A bs" "manager_run bs t = Some u" "manager_inv u" "Q u"
    by (auto simp: can_reach_def)
  with t show ?thesis
    unfolding can_reach_def by (intro exI [of _ "as @ bs"] exI [of _ u]) (simp add: manager_run_append)
qed

text \<open>A measure decreases along a schedule that keeps \<open>P\<close> until \<open>Q\<close> holds.\<close>

lemma can_reach_measure:
  fixes f :: "('t, 'w) manager_system \<Rightarrow> nat"
  assumes step: "\<And>s. manager_inv s \<Longrightarrow> P s \<Longrightarrow> \<not> Q s \<Longrightarrow>
      \<exists>a t. A a \<and> manager_ok a s \<and> manager_exec a s = Some t \<and> P t \<and> f t < f s"
    and "manager_inv s" and "P s"
  shows "can_reach A s (\<lambda>t. P t \<and> Q t)"
  using assms(2,3)
proof (induction "f s" arbitrary: s rule: less_induct)
  case less
  show ?case
  proof (cases "Q s")
    case True
    with less.prems show ?thesis by (intro can_reach_here) simp_all
  next
    case False
    then obtain a t where a: "A a" "manager_ok a s" "manager_exec a s = Some t" "P t" "f t < f s"
      using step less.prems by blast
    have "manager_inv t" by (rule manager_exec_inv [OF less.prems(1) a(2,3)])
    with less.hyps a(4,5) have "can_reach A t (\<lambda>t. P t \<and> Q t)" by blast
    with can_reach_step less.prems(1) a(1-3) show ?thesis by blast
  qed
qed

fun stop_stage :: "stop_route_pc \<Rightarrow> nat" where
  "stop_stage KeyLookup = 5" | "stop_stage (KeyMark i) = 4" | "stop_stage (KeyShutdown i) = 3"
| "stop_stage (KeyClose i) = 2" | "stop_stage (KeySet i) = 1"

fun start_stage :: "start_route_pc \<Rightarrow> nat" where
  "start_stage RouteCreate = 5" | "start_stage (RouteRegister i) = 4" | "start_stage (RouteSpawn i) = 3"
| "start_stage (RouteWait i) = 2" | "start_stage (RouteResult i) = 1"

text \<open>The work left until a reload has decided what to do, and from then on.\<close>

fun watch_work :: "watcher_pc \<Rightarrow> nat" where
  "watch_work WatchExit = 0"
| "watch_work WatchSelect = 1"
| "watch_work (WatchStart job pc) = 2 + 6 * length (rj_start job) + start_stage pc"
| "watch_work (WatchCleanup job) = 8 + 6 * length (rj_start job)"
| "watch_work (WatchStop job pc) = 9 + 6 * length (rj_start job) + 6 * length (rj_stop job) + stop_stage pc"
| "watch_work _ = 0"

fun decided :: "watcher_pc \<Rightarrow> bool" where
  "decided WatchConfig \<longleftrightarrow> False"
| "decided (WatchRoutes cfg) \<longleftrightarrow> False"
| "decided _ \<longleftrightarrow> True"

lemma call_stop [simp]: "ms_stop (set_state i st s) = ms_stop s" "ms_stop (shut_server i s) = ms_stop s"
  "ms_stop (shut_closer i s) = ms_stop s" "ms_ctxDone (set_state i st s) = ms_ctxDone s"
  "ms_ctxDone (shut_server i s) = ms_ctxDone s" "ms_ctxDone (shut_closer i s) = ms_ctxDone s"
  by (simp_all add: set_state_def shut_server_def shut_closer_def)

lemma watch_decreases:
  assumes inv: "manager_inv s" and dec: "decided (ms_watch s)" and ctx: "ms_ctxDone s" and ne: "ms_watch s \<noteq> WatchExit"
  shows "\<exists>inp t. manager_ok (MWatch inp) s \<and> watcher_step inp s = Some t \<and> ms_ctxDone t \<and> decided (ms_watch t) \<and>
    ms_stop t = ms_stop s \<and> watch_work (ms_watch t) < watch_work (ms_watch s)"
proof -
  have ok: "watch_ok (ms_watch s) s" using inv by (simp add: manager_inv_def)
  have go: ?thesis
    if "manager_ok (MWatch inp) s" "\<exists>t. watcher_step inp s = Some t \<and> ms_ctxDone t \<and> decided (ms_watch t) \<and>
      ms_stop t = ms_stop s \<and> watch_work (ms_watch t) < watch_work (ms_watch s)" for inp
    using that by blast
  show ?thesis
  proof (cases "ms_watch s")
    case WatchSelect
    with ctx show ?thesis by (intro go [of CtxDone]) (simp_all add: watcher_step_def)
  next
    case (WatchStop job pc)
    have ret: "watch_work (ms_watch (stop_route_returns err job u)) < watch_work (ms_watch s)"
      "decided (ms_watch (stop_route_returns err job u))" "ms_ctxDone (stop_route_returns err job u) = ms_ctxDone u"
      "ms_stop (stop_route_returns err job u) = ms_stop u"
      if "rj_stop job \<noteq> []" for err and u :: "('a, 'b) manager_system"
      using that WatchStop by (cases "rj_stop job"; cases err; cases pc; simp add: stop_route_returns_def Let_def)+
    show ?thesis
    proof (cases pc)
      case KeyLookup
      then show ?thesis
        using WatchStop ctx ret
        by (intro go [of Proceed]; cases "rj_stop job"; cases "rm_routeMap (ms_mgr s) (hd (rj_stop job))")
          (simp_all add: watcher_step_def)
    next
      case (KeyShutdown i)
      then show ?thesis
        using WatchStop ctx by (intro go [of "ShutdownResult None"]) (simp_all add: watcher_step_def Let_def)
    qed (intro go [of Proceed]; use WatchStop ctx ret ok in \<open>simp add: watcher_step_def\<close>)+
  next
    case (WatchCleanup job)
    with ctx show ?thesis by (intro go [of Proceed]) (simp_all add: watcher_step_def on_manager_def)
  next
    case (WatchStart job pc)
    have ret: "watch_work (ms_watch (start_route_returns err job u)) < watch_work (ms_watch s)"
      "decided (ms_watch (start_route_returns err job u))" "ms_ctxDone (start_route_returns err job u) = ms_ctxDone u"
      "ms_stop (start_route_returns err job u) = ms_stop u"
      if "rj_start job \<noteq> []" for err and u :: "('a, 'b) manager_system"
      using that WatchStart by (cases "rj_start job"; cases err; cases pc; simp add: start_route_returns_def Let_def)+
    show ?thesis
    proof (cases pc)
      case RouteCreate
      then show ?thesis
        using WatchStart ctx
        by (intro go [of Proceed]; cases "rj_start job") (simp_all add: watcher_step_def reload_returns_def add_listener_def)
    next
      case (RouteWait i)
      then show ?thesis
        using WatchStart ctx ret ok by (intro go [of StartTimeout]) (simp_all add: watcher_step_def)
    qed (intro go [of Proceed]; use WatchStart ctx ret ok in \<open>simp add: watcher_step_def on_manager_def\<close>)+
  qed (use dec ne in simp_all)
qed

lemma watch_exits:
  assumes "manager_inv s" and "ms_ctxDone s"
  shows "can_reach own_action s (\<lambda>t. ms_stop t = ms_stop s \<and> ms_watch t = WatchExit)"
proof -
  let ?P = "\<lambda>u t. ms_ctxDone t \<and> decided (ms_watch t) \<and> ms_stop t = ms_stop u"
  have decided: "can_reach own_action u (\<lambda>t. ms_stop t = ms_stop u \<and> ms_watch t = WatchExit)"
    if u: "manager_inv u" "ms_ctxDone u" "decided (ms_watch u)" for u :: "('a, 'b) manager_system"
  proof -
    have "can_reach own_action u (\<lambda>t. ?P u t \<and> ms_watch t = WatchExit)"
    proof (rule can_reach_measure [where f = "\<lambda>t. watch_work (ms_watch t)"])
      fix t :: "('a, 'b) manager_system" assume t: "manager_inv t" "?P u t" "ms_watch t \<noteq> WatchExit"
      then obtain inp v where "manager_ok (MWatch inp) t" "watcher_step inp t = Some v" "?P u v"
          "watch_work (ms_watch v) < watch_work (ms_watch t)"
        using watch_decreases [of t] by auto
      then show "\<exists>a v. own_action a \<and> manager_ok a t \<and> manager_exec a t = Some v \<and> ?P u v \<and>
          watch_work (ms_watch v) < watch_work (ms_watch t)"
        by (intro exI [of _ "MWatch inp"] exI [of _ v]) simp
    qed (use u in simp_all)
    then show ?thesis by (auto simp: can_reach_def)
  qed
  have routes: "can_reach own_action u (\<lambda>t. ms_stop t = ms_stop u \<and> ms_watch t = WatchExit)"
    if u: "manager_inv u" "ms_ctxDone u" "ms_watch u = WatchRoutes cfg" for cfg and u :: "('a, 'b) manager_system"
  proof -
    define newOrder oldOrder where "newOrder = remdups (map routeKey (cfg_routes cfg))"
      and "oldOrder = remdups (map routeKey (active_routes (ms_mgr u)))"
    have ok: "manager_ok (MWatch (Orders newOrder oldOrder)) u"
      using u by (simp add: visits_keys_def newOrder_def oldOrder_def)
    have "\<exists>v. watcher_step (Orders newOrder oldOrder) u = Some v \<and> ms_ctxDone v \<and> decided (ms_watch v) \<and> ms_stop v = ms_stop u"
      using u by (auto simp: watcher_step_def Let_def reload_returns_def)
    then obtain v where v: "watcher_step (Orders newOrder oldOrder) u = Some v" "ms_ctxDone v" "decided (ms_watch v)"
      "ms_stop v = ms_stop u" by blast
    have "manager_inv v" by (rule manager_exec_inv [OF u(1) ok]) (simp add: v)
    from can_reach_step [OF u(1) _ ok _ decided [OF this v(2,3)]] v show ?thesis by simp
  qed
  show ?thesis
  proof (cases "ms_watch s")
    case WatchConfig
    obtain v where v: "watcher_step Proceed s = Some v" "ms_ctxDone v" "ms_stop v = ms_stop s"
      "decided (ms_watch v) \<or> (\<exists>cfg. ms_watch v = WatchRoutes cfg)"
      using WatchConfig assms by (cases "ms_getCfg s") (simp_all add: watcher_step_def reload_returns_def)
    have inv: "manager_inv v" by (rule manager_exec_inv [OF assms(1), of "MWatch Proceed"]) (simp_all add: v)
    have "can_reach own_action v (\<lambda>t. ms_stop t = ms_stop s \<and> ms_watch t = WatchExit)"
      using v(4)
    proof
      assume "decided (ms_watch v)"
      from decided [OF inv v(2) this] v(3) show ?thesis by simp
    next
      assume "\<exists>cfg. ms_watch v = WatchRoutes cfg"
      then obtain cfg where "ms_watch v = WatchRoutes cfg" ..
      from routes [OF inv v(2) this] v(3) show ?thesis by simp
    qed
    from can_reach_step [OF assms(1) _ _ _ this, of "MWatch Proceed"] v show ?thesis by simp
  next
    case (WatchRoutes cfg)
    then show ?thesis by (rule routes [OF assms])
  qed (use decided [OF assms] in simp_all)
qed

text \<open>A caller that does not wait for the deadline.\<close>

fun patient_action :: "manager_action \<Rightarrow> bool" where
  "patient_action (MStop k deadline) \<longleftrightarrow> \<not> deadline"
| "patient_action a \<longleftrightarrow> own_action a"

fun shut_work :: "stopper_pc \<Rightarrow> nat" where
  "shut_work (StopperShut left pc) =
     1 + 4 * length left + (case pc of ShutMark \<Rightarrow> 4 | ShutServer \<Rightarrow> 3 | ShutCloser \<Rightarrow> 2 | ShutSet \<Rightarrow> 1)"
| "shut_work _ = 0"

text \<open>The listeners that a caller has taken are closed or still to be closed.\<close>

fun shutting :: "nat set \<Rightarrow> stopper_pc \<Rightarrow> ('t, 'w) manager_system \<Rightarrow> bool" where
  "shutting I (StopperShut left pc) t \<longleftrightarrow> (\<forall>i \<in> I. i \<in> set left \<or> ms_closed t i)"
| "shutting I StopperReload t \<longleftrightarrow> (\<forall>i \<in> I. ms_closed t i)"
| "shutting I _ t \<longleftrightarrow> False"

lemma shut_decreases:
  assumes inv: "manager_inv s" and k: "ms_stop s k = StopperShut left pc" and sh: "shutting I (ms_stop s k) s"
  shows "\<exists>t. stopper_step k False s = Some t \<and> env_step s t \<and> shutting I (ms_stop t k) t \<and>
    shut_work (ms_stop t k) < shut_work (ms_stop s k)"
proof (cases left)
  case Nil
  with k sh show ?thesis by (simp add: stopper_step_def)
next
  case (Cons i rest)
  have ok: "stopper_ok (StopperShut left pc) s" by (rule stopper_okD [OF inv k])
  then have i: "i < heap_len s" using Cons by simp
  note e = call_env_step(1,2) [OF i] call_env_step(3) [of s i]
  show ?thesis
    using k sh ok Cons i e by (cases pc) (auto simp: stopper_step_def)
qed

lemma shutdown_completes:
  assumes "manager_inv s" and "ms_stop s k = StopperShut left pc" and "shutting I (ms_stop s k) s"
  shows "can_reach patient_action s (\<lambda>t. env_step s t \<and> ms_stop t k = StopperReload \<and> (\<forall>i \<in> I. ms_closed t i))"
proof -
  let ?P = "\<lambda>t. env_step s t \<and> shutting I (ms_stop t k) t"
  have "can_reach patient_action s (\<lambda>t. ?P t \<and> ms_stop t k = StopperReload)"
  proof (rule can_reach_measure [where f = "\<lambda>t. shut_work (ms_stop t k)"])
    fix t :: "('a, 'b) manager_system" assume t: "manager_inv t" "?P t" "ms_stop t k \<noteq> StopperReload"
    then obtain left pc where "ms_stop t k = StopperShut left pc" by (cases "ms_stop t k") auto
    from shut_decreases [OF t(1) this, of I] t(2) obtain v where "stopper_step k False t = Some v" "env_step t v"
        "shutting I (ms_stop v k) v" "shut_work (ms_stop v k) < shut_work (ms_stop t k)" by blast
    with t show "\<exists>a v. patient_action a \<and> manager_ok a t \<and> manager_exec a t = Some v \<and> ?P v \<and>
        shut_work (ms_stop v k) < shut_work (ms_stop t k)"
      by (intro exI [of _ "MStop k False"] exI [of _ v]) (auto intro: env_step_trans)
  qed (use assms in simp_all)
  then show ?thesis by (auto simp: can_reach_def)
qed

lemma can_reach_mono: "can_reach A s P \<Longrightarrow> (\<And>a. A a \<Longrightarrow> B a) \<Longrightarrow> (\<And>t. P t \<Longrightarrow> Q t) \<Longrightarrow> can_reach B s Q"
  unfolding can_reach_def list_all_iff by metis

lemma patient_own: "patient_action a \<Longrightarrow> own_action a"
  by (cases a) simp_all

text \<open>A call of Stop can always be completed.\<close>

lemma Stop_returns:
  assumes inv: "manager_inv s"
  shows "can_reach own_action s (\<lambda>t. \<exists>res. ms_stop t k = StopperDone res)"
proof -
  let ?Q = "\<lambda>t. \<exists>res. ms_stop t k = StopperDone res"
  have wait: "can_reach own_action u ?Q" if u: "manager_inv u" "ms_stop u k = StopperWait" for u :: "('a, 'b) manager_system"
  proof -
    have st: "manager_exec (MStop k True) u = Some (stopper_at k (StopperDone (Some (Sentinel ErrShutdownTimeout))) u)"
      using u by (simp add: stopper_step_def)
    show ?thesis
      by (rule can_reach_step [OF u(1) _ _ st]) (use manager_exec_inv [OF u(1) _ st] in \<open>auto intro: can_reach_here\<close>)
  qed
  have reload: "can_reach own_action u ?Q" if u: "manager_inv u" "ms_stop u k = StopperReload" for u :: "('a, 'b) manager_system"
  proof -
    have "ms_ctxDone u" using stopper_okD [OF u(1), of k StopperReload] u by simp
    from watch_exits [OF u(1) this] show ?thesis
    proof (rule can_reach_trans)
      fix t :: "('a, 'b) manager_system" assume t: "manager_inv t" "ms_stop t = ms_stop u \<and> ms_watch t = WatchExit"
      then have st: "manager_exec (MStop k False) t = Some (stopper_at k StopperWait t)" using u by (simp add: stopper_step_def)
      show "can_reach own_action t ?Q"
        by (rule can_reach_step [OF t(1) _ _ st]) (use manager_exec_inv [OF t(1) _ st] in \<open>auto intro: wait\<close>)
    qed
  qed
  have shut: "can_reach own_action u ?Q" if u: "manager_inv u" "ms_stop u k = StopperShut left pc" for left pc
      and u :: "('a, 'b) manager_system"
  proof -
    have "can_reach own_action u (\<lambda>t. ms_stop t k = StopperReload)"
      by (rule can_reach_mono [OF shutdown_completes [OF u, of "{}"] patient_own]) (simp_all add: u)
    then show ?thesis by (rule can_reach_trans [OF _ reload])
  qed
  show ?thesis
  proof (cases "ms_stop s k")
    case StopperIdle
    show ?thesis
    proof (cases "rm_running (ms_mgr s)")
      case True
      then have st: "manager_exec (MStop k False) s = Some (stopper_at k (StopperShut (rm_routes (ms_mgr s)) ShutMark)
          (s\<lparr>ms_mgr := (ms_mgr s)\<lparr>rm_running := False\<rparr>, ms_ctxDone := True\<rparr>))"
        using StopperIdle by (simp add: stopper_step_def Stop_begin_def)
      show ?thesis
        by (rule can_reach_step [OF inv _ _ st]) (use manager_exec_inv [OF inv _ st] in \<open>auto intro: shut\<close>)
    next
      case False
      then have st: "manager_exec (MStop k False) s = Some (stopper_at k (StopperDone (Some (Sentinel ErrNotRunning))) s)"
        using StopperIdle by (simp add: stopper_step_def Stop_begin_def)
      show ?thesis
        by (rule can_reach_step [OF inv _ _ st]) (use manager_exec_inv [OF inv _ st] in \<open>auto intro: can_reach_here\<close>)
    qed
  qed (use inv shut reload wait in \<open>auto intro: can_reach_here\<close>)
qed

text \<open>When no reload is under way, Stop can succeed: it has taken every listener that serves.\<close>

fun run_work :: "run_pc option \<Rightarrow> nat" where
  "run_work (Some RunStart) = 3" | "run_work (Some RunListen) = 2" | "run_work (Some (RunFail e)) = 2"
| "run_work (Some RunServe) = 1" | "run_work (Some RunAnnounce) = 1" | "run_work _ = 0"

definition total_work :: "('t, 'w) manager_system \<Rightarrow> nat" where
  "total_work s = (\<Sum>i<heap_len s. run_work (ms_run s i))"

lemma run_decreases:
  assumes inv: "manager_inv s" and live: "live s i" and closed: "ms_closed s i"
  shows "\<exists>t. run_thread None i s = Some t \<and> env_step s t \<and> ms_stop t = ms_stop s \<and> total_work t < total_work s \<and>
    (\<forall>j. live t j \<longrightarrow> live s j)"
proof -
  have len: "ms_run s j \<noteq> None \<Longrightarrow> j < heap_len s" for j using inv by (simp add: manager_inv_def listeners_inv_def)
  obtain pc where pc: "ms_run s i = Some pc" "pc \<noteq> RunDone" using live by (auto simp: live_def)
  have i: "i < heap_len s" using len [of i] pc by simp
  obtain l where l: "run_step (bind_error None s i) (listener_view s i pc) = Some l" "run_work (Some (ls_run l)) < run_work (Some pc)"
    using pc closed by (cases pc) (auto simp: run_step_def listener_view_def)
  then obtain t where t: "run_thread None i s = Some t" "ms_run t = (ms_run s)(i \<mapsto> ls_run l)"
    using pc i by (auto simp: run_thread_def Let_def)
  from run_thread_effect [OF t(1) len] have e: "env_step s t" "ms_stop t = ms_stop s" by blast+
  have "total_work t = run_work (Some (ls_run l)) + (\<Sum>j \<in> {..<heap_len s} - {i}. run_work (ms_run s j))"
    using e(1) i by (simp add: total_work_def env_step_def sum.remove [of "{..<heap_len s}" i] t(2))
  moreover have "total_work s = run_work (Some pc) + (\<Sum>j \<in> {..<heap_len s} - {i}. run_work (ms_run s j))"
    using i by (simp add: total_work_def sum.remove [of "{..<heap_len s}" i] pc)
  ultimately have "total_work t < total_work s" using l(2) by simp
  moreover have "live t j \<longrightarrow> live s j" for j using t(2) live by (auto simp: live_def split: if_splits)
  ultimately show ?thesis using t(1) e by blast
qed

lemma goroutines_end:
  assumes "manager_inv s" and "\<And>i. live s i \<Longrightarrow> ms_closed s i" and "ms_stop s k = StopperWait"
  shows "can_reach patient_action s (\<lambda>t. ms_stop t k = StopperDone None)"
proof -
  let ?P = "\<lambda>t. ms_stop t k = StopperWait \<and> (\<forall>i. live t i \<longrightarrow> ms_closed t i)"
  have "can_reach patient_action s (\<lambda>t. ?P t \<and> (\<forall>i. \<not> live t i))"
  proof (rule can_reach_measure [where f = total_work])
    fix t :: "('a, 'b) manager_system" assume t: "manager_inv t" "?P t" "\<not> (\<forall>i. \<not> live t i)"
    then obtain i where i: "live t i" by blast
    with t obtain v where "run_thread None i t = Some v" "env_step t v" "ms_stop v = ms_stop t" "total_work v < total_work t"
        "\<forall>j. live v j \<longrightarrow> live t j"
      using run_decreases [of t i] by blast
    with t show "\<exists>a v. patient_action a \<and> manager_ok a t \<and> manager_exec a t = Some v \<and> ?P v \<and> total_work v < total_work t"
      by (intro exI [of _ "MRun None i"] exI [of _ v]) (auto simp: env_step_def)
  qed (use assms in simp_all)
  then show ?thesis
  proof (rule can_reach_trans)
    fix t :: "('a, 'b) manager_system" assume t: "manager_inv t" "?P t \<and> (\<forall>i. \<not> live t i)"
    then have "Collect (live t) = {}" by simp
    with t(1) have "rm_wg (ms_mgr t) = 0" unfolding manager_inv_def listeners_inv_def by (metis card.empty)
    with t have st: "manager_exec (MStop k False) t = Some (stopper_at k (StopperDone None) t)"
      by (simp add: stopper_step_def)
    show "can_reach patient_action t (\<lambda>t. ms_stop t k = StopperDone None)"
      by (rule can_reach_step [OF t(1) _ _ st]) (use manager_exec_inv [OF t(1) _ st] in \<open>auto intro: can_reach_here\<close>)
  qed
qed

lemma Stop_succeeds:
  assumes inv: "manager_inv s" and k: "ms_stop s k = StopperIdle" and running: "rm_running (ms_mgr s)"
    and watch: "ms_watch s = WatchSelect \<or> ms_watch s = WatchExit"
  shows "can_reach patient_action s (\<lambda>t. ms_stop t k = StopperDone None)"
proof -
  let ?Q = "\<lambda>t. ms_stop t k = StopperDone None"
  let ?closed = "\<lambda>t. \<forall>i. live t i \<longrightarrow> ms_closed t i"
  have wait: "can_reach patient_action u ?Q" if u: "manager_inv u" "?closed u" "ms_stop u k = StopperReload" "ms_watch u = WatchExit"
    for u :: "('a, 'b) manager_system"
  proof -
    have st: "manager_exec (MStop k False) u = Some (stopper_at k StopperWait u)" using u by (simp add: stopper_step_def)
    have inv': "manager_inv (stopper_at k StopperWait u)" by (rule manager_exec_inv [OF u(1) _ st]) simp
    have "can_reach patient_action (stopper_at k StopperWait u) ?Q"
      by (rule goroutines_end [OF inv']) (use u in \<open>simp_all add: live_def\<close>)
    with can_reach_step [OF u(1) _ _ st] show ?thesis by simp
  qed
  have exit: "can_reach patient_action u ?Q"
    if u: "manager_inv u" "?closed u" "ms_stop u k = StopperReload" "ms_watch u = WatchSelect \<or> ms_watch u = WatchExit"
    for u :: "('a, 'b) manager_system"
    using u(4)
  proof
    assume w: "ms_watch u = WatchSelect"
    have "ms_ctxDone u" using stopper_okD [OF u(1), of k StopperReload] u by simp
    with w have st: "manager_exec (MWatch CtxDone) u = Some (watch_at WatchExit u)" by (simp add: watcher_step_def)
    have inv': "manager_inv (watch_at WatchExit u)" by (rule manager_exec_inv [OF u(1) _ st]) simp
    have "can_reach patient_action (watch_at WatchExit u) ?Q"
      by (rule wait [OF inv']) (use u in simp_all)
    with can_reach_step [OF u(1) _ _ st] show ?thesis by simp
  qed (use wait u in blast)
  define u where "u = stopper_at k (StopperShut (rm_routes (ms_mgr s)) ShutMark)
      (s\<lparr>ms_mgr := (ms_mgr s)\<lparr>rm_running := False\<rparr>, ms_ctxDone := True\<rparr>)"
  have st: "manager_exec (MStop k False) s = Some u" using k running by (simp add: stopper_step_def Stop_begin_def u_def)
  have inv': "manager_inv u" by (rule manager_exec_inv [OF inv _ st]) simp
  have u: "ms_stop u k = StopperShut (rm_routes (ms_mgr u)) ShutMark" "ms_watch u = ms_watch s" by (simp_all add: u_def)
  have "can_reach patient_action u (\<lambda>t. env_step u t \<and> ms_stop t k = StopperReload \<and> (\<forall>i \<in> set (rm_routes (ms_mgr u)). ms_closed t i))"
    by (rule shutdown_completes [OF inv' u(1)]) (simp add: u)
  then have "can_reach patient_action u ?Q"
  proof (rule can_reach_trans)
    fix t :: "('a, 'b) manager_system"
    assume t: "manager_inv t" "env_step u t \<and> ms_stop t k = StopperReload \<and> (\<forall>i \<in> set (rm_routes (ms_mgr u)). ms_closed t i)"
    have "?closed t"
    proof (intro allI impI)
      fix i assume "live t i"
      show "ms_closed t i"
      proof (rule ccontr)
        assume "\<not> ms_closed t i"
        with \<open>live t i\<close> have "may_serve t i" by (simp add: may_serve_def live_def)
        with t(1) have "i \<in> set (rm_routes (ms_mgr t))" by (simp add: manager_inv_def tracked_def)
        with t(2) \<open>\<not> ms_closed t i\<close> show False by (simp add: env_step_def)
      qed
    qed
    then show "can_reach patient_action t ?Q"
      by (rule exit [OF t(1)]) (use t(2) u(2) watch in \<open>auto simp: env_step_def\<close>)
  qed
  with can_reach_step [OF inv _ _ st] show ?thesis by simp
qed

section \<open>Runs\<close>

text \<open>The manager of two routes that has just been started, with a third route in the stored configuration.\<close>

definition grown_cfg :: config where
  "grown_cfg = example_cfg [example_route ''a'' 80 ''http://u1'', example_route ''b'' 81 ''http://u2'',
     example_route ''d'' 82 ''http://u4'']"

definition example_system :: "(nat, nat) manager_system" where
  "example_system = manager_started (Some grown_cfg)
     (start_manager (Some (Some 1)) (Some 2) example_cfg1 (\<lambda>_. Some example_cfg1) empty_manager)"

lemma example_system_init: "manager_init example_system"
  unfolding example_system_def
  by (rule start_returns [OF example_new_manager distinct_ports_keys [OF example_ports(1)]])

text \<open>Both listeners serve; somebody stops the manager, and no reload comes in between.\<close>

definition both_serve :: "manager_action list" where
  "both_serve = [MRun None 0, MRun None 0, MRun None 1, MRun None 1]"

definition quiet_stop :: "manager_action list" where
  "quiet_stop = both_serve @ replicate 10 (MStop 0 False) @
     [MWatch CtxDone, MStop 0 False, MRun None 0, MRun None 1, MStop 0 False]"

lemma quiet_stop_run:
  "\<exists>s. manager_run quiet_stop example_system = Some s \<and> ms_stop s 0 = StopperDone None"
proof -
  have "map_option (\<lambda>s. ms_stop s 0) (manager_run quiet_stop example_system) = Some (StopperDone None)" by code_simp
  then show ?thesis by auto
qed

text \<open>A reload has read the configuration when Stop takes the listeners, and starts the new route while Stop
  shuts the old ones down.\<close>

definition late_route :: "manager_action list" where
  "late_route = both_serve @
     [MWatch Proceed, MWatch Proceed, MWatch (Orders [''a:80'', ''b:81'', ''d:82''] [''a:80'', ''b:81''])] @
     replicate 10 (MStop 0 False) @ replicate 5 (MWatch Proceed) @
     [MRun None 2, MRun None 2, MTimer 2, MTimer 2, MTimer 2] @ replicate 3 (MWatch Proceed) @
     [MWatch CtxDone, MStop 0 False, MRun None 0, MRun None 1, MStop 0 True]"

lemma late_route_run:
  "\<exists>s. manager_run late_route example_system = Some s \<and> ms_stop s 0 = StopperDone (Some (Sentinel ErrShutdownTimeout)) \<and>
     ms_watch s = WatchExit \<and> \<not> rm_running (ms_mgr s) \<and> ms_run s 2 = Some RunServe \<and> \<not> ms_closed s 2 \<and>
     rm_bound (ms_mgr s) 82 = Some 2"
proof -
  have "map_option (\<lambda>s. (ms_stop s 0, watch_exited (ms_watch s), rm_running (ms_mgr s), ms_run s 2, ms_closed s 2,
      rm_bound (ms_mgr s) 82)) (manager_run late_route example_system) =
    Some (StopperDone (Some (Sentinel ErrShutdownTimeout)), True, False, Some RunServe, False, Some 2)" by code_simp
  then show ?thesis by auto
qed

section \<open>Properties\<close>

text \<open>C5. A Stop that reports success is final: whatever the other threads did before and do
  afterwards, and although Stop takes the list of listeners while a reload may be changing it, once
  Stop has returned nil the reload goroutine and every listener goroutine have ended, and no
  port is bound then or later.\<close>

theorem successful_Stop_is_final:
  assumes "manager_init s0" and "manager_step\<^sup>*\<^sup>* s0 s" and "ms_stop s k = StopperDone None" and "manager_step\<^sup>*\<^sup>* s t"
  shows "rm_bound (ms_mgr t) = Map.empty \<and> ms_watch t = WatchExit \<and>
    (\<forall>i. ms_run t i = None \<or> ms_run t i = Some RunDone)"
proof -
  have inv: "manager_inv t" using managers.reachable_inv [OF assms(1)] assms(2,4) by (meson rtranclp_trans)
  have "ms_stop t k = StopperDone None" by (rule stopper_done_steps [OF assms(4,3)])
  with stopped_system [OF inv] show ?thesis by (auto simp: live_def)
qed

lemma successful_Stop_is_final_witness:
  "\<exists>s. manager_run quiet_stop example_system = Some s \<and> ms_stop s 0 = StopperDone None \<and>
     rm_bound (ms_mgr s) = Map.empty \<and> ms_watch s = WatchExit"
  using quiet_stop_run successful_Stop_is_final [OF example_system_init manager_run_steps _ rtranclp.rtrancl_refl] by blast





text \<open>Stop does not wait for a reload before it takes the list of listeners: a reload that starts a route
  after that leaves a listener that Stop does not shut down. Stop then reports the shutdown timeout, and
  nothing in the program will ever free the port.\<close>

definition abandoned :: "int \<Rightarrow> nat \<Rightarrow> ('t, 'w) manager_system \<Rightarrow> bool" where
  "abandoned p i s \<longleftrightarrow> rm_bound (ms_mgr s) p = Some i \<and> ms_watch s = WatchExit \<and> \<not> rm_running (ms_mgr s) \<and> ms_run s i = Some RunServe \<and> \<not> ms_closed s i \<and>
     (\<forall>k. ms_stop s k = StopperIdle \<or> (\<exists>res. ms_stop s k = StopperDone res))"

lemma abandoned_exec:
  assumes ab: "abandoned p i s" and ex: "manager_exec a s = Some t"
  shows "abandoned p i t"
proof (cases a)
  case (MRun refuse j)
  with ab ex have "j \<noteq> i" by (auto simp: abandoned_def run_thread_def run_step_def listener_view_def split: if_splits)
  moreover have "rm_bound (ms_mgr t) p = Some i"
    using MRun ab ex \<open>j \<noteq> i\<close>
    by (auto simp: abandoned_def run_thread_def put_listener_def wg_done_def Let_def run_step_def listener_view_def bind_error_def
        split: option.splits if_splits run_pc.splits)
  ultimately show ?thesis
    using MRun ab ex by (auto simp: abandoned_def run_thread_def put_listener_def wg_done_def Let_def split: option.splits if_splits)
next
  case (MTimer j)
  with ab ex have "ms_run t i = Some RunServe"
    by (auto simp: abandoned_def timer_thread_def put_listener_def timer_step_def listener_view_def
        split: option.splits timer_pc.splits if_splits)
  moreover have "rm_bound (ms_mgr t) p = Some i"
    using MTimer ab ex
    by (auto simp: abandoned_def timer_thread_def put_listener_def timer_step_def listener_view_def
        split: option.splits timer_pc.splits if_splits)
  ultimately show ?thesis
    using MTimer ab ex by (auto simp: abandoned_def timer_thread_def put_listener_def split: option.splits)
next
  case (MWatch inp)
  with ab ex show ?thesis by (cases inp) (simp_all add: abandoned_def watcher_step_def)
next
  case (MStop k deadline)
  from ab consider "ms_stop s k = StopperIdle" | res where "ms_stop s k = StopperDone res" by (auto simp: abandoned_def)
  then show ?thesis
  proof cases
    case 1
    with MStop ab ex have "t = stopper_at k (StopperDone (Some (Sentinel ErrNotRunning))) s"
      by (auto simp: stopper_step_def Stop_begin_def abandoned_def)
    with ab show ?thesis by (simp add: abandoned_def)
  next
    case 2
    with MStop ex show ?thesis by (simp add: stopper_step_def)
  qed
qed (use ab ex in \<open>auto simp: abandoned_def\<close>)

lemma abandoned_steps: "manager_step\<^sup>*\<^sup>* s t \<Longrightarrow> abandoned p i s \<Longrightarrow> abandoned p i t"
  by (induction rule: rtranclp_induct) (auto elim!: manager_stepE dest: abandoned_exec)

lemma others_untouched:
  "manager_run as s = Some t \<Longrightarrow> list_all (\<lambda>a. \<forall>d. a \<noteq> MStop k d) as \<Longrightarrow> ms_stop t k = ms_stop s k"
proof (induction as arbitrary: s)
  case (Cons a as)
  then show ?case using stopper_untouched [of a s] by (auto split: option.splits if_splits)
qed simp

theorem stop_abandons_listener:
  "\<exists>s. manager_run late_route example_system = Some s \<and> ms_stop s 0 = StopperDone (Some (Sentinel ErrShutdownTimeout)) \<and>
     (\<forall>t. manager_step\<^sup>*\<^sup>* s t \<longrightarrow> rm_bound (ms_mgr t) 82 = Some 2)"
proof -
  obtain s where s: "manager_run late_route example_system = Some s"
    "ms_stop s 0 = StopperDone (Some (Sentinel ErrShutdownTimeout))" "ms_watch s = WatchExit" "\<not> rm_running (ms_mgr s)"
    "ms_run s 2 = Some RunServe" "\<not> ms_closed s 2" "rm_bound (ms_mgr s) 82 = Some 2"
    using late_route_run by blast
  have "ms_stop s k = StopperIdle" if "k \<noteq> 0" for k
    using others_untouched [OF s(1), of k] that
    by (simp add: list_all_iff late_route_def both_serve_def example_system_def manager_started_def)
  then have "ms_stop s k = StopperIdle \<or> (\<exists>res. ms_stop s k = StopperDone res)" for k
    using s(2) by (cases "k = 0") auto
  with s(3-7) have "abandoned 82 2 s" by (simp add: abandoned_def)
  then have "rm_bound (ms_mgr t) 82 = Some 2" if "manager_step\<^sup>*\<^sup>* s t" for t
    using abandoned_steps [OF that] by (simp add: abandoned_def)
  with s(1,2) show ?thesis by blast
qed

end
