(* ===== verification/ManagerRuns.thy ===== *)
theory ManagerRuns
  imports ManagerThreads
begin

text \<open>
  The two models of the route manager (\<open>internal/proxy/route_manager.go\<close>) fit together: what RouteManager
  describes as one function per operation is carried out by the threads of ManagerThreads.
\<close>

section \<open>The sequential model is realised\<close>

text \<open>
  RouteManager describes a reload as one function in which every goroutine \<open>runListener\<close> runs until it
  serves or has failed. Here every history of that model is a schedule of the threads. Between
  reloads the threads are settled: each listener serves or has ended, and its timer is done.
\<close>

definition settled :: "('t, 'w) manager_system \<Rightarrow> bool" where
  "settled s \<longleftrightarrow> manager_inv s \<and>
     (\<forall>i < heap_len s. ms_timer s i = TimerDone \<and>
        (ms_run s i = Some RunDone \<or> (ms_run s i = Some RunServe \<and> \<not> ms_closed s i))) \<and>
     (\<forall>i \<ge> heap_len s. ms_timer s i = TimerNone \<and> \<not> ms_closed s i)"

text \<open>What a schedule leaves alone.\<close>

definition same_rest :: "('t, 'w) manager_system \<Rightarrow> ('t, 'w) manager_system \<Rightarrow> bool" where
  "same_rest s t \<longleftrightarrow> ms_reloads t = ms_reloads s \<and> ms_stop t = ms_stop s"

lemma same_rest_refl [simp]: "same_rest s s"
  by (simp add: same_rest_def)

lemma same_rest_trans: "same_rest s t \<Longrightarrow> same_rest t u \<Longrightarrow> same_rest s u"
  by (simp add: same_rest_def)

lemma manager_run_inv: "manager_inv s \<Longrightarrow> manager_run as s = Some t \<Longrightarrow> manager_inv t"
  by (rule managers.steps_inv [OF manager_run_steps])

text \<open>The goroutine of a listener and its timer, run one after the other, are \<open>runListener\<close>.\<close>

lemma listener_threads_run:
  fixes env :: net_env
  assumes i: "i < heap_len s" and run: "ms_run s i = Some RunStart" and open_: "\<not> ms_closed s i"
    and free: "rm_bound (ms_mgr s) (port_of s i) \<noteq> Some i"
  defines "m \<equiv> runListener env i (ms_mgr s)"
  shows "\<exists>as t. manager_run as s = Some t \<and> ms_mgr t = m \<and> same_rest s t \<and> ms_watch t = ms_watch s \<and>
    ms_run t = (ms_run s)(i \<mapsto> (if listen_error env i (ms_mgr s) = None then RunServe else RunDone)) \<and>
    ms_timer t = (ms_timer s)(i := TimerDone) \<and> ms_started t = (ms_started s)(i := True) \<and> ms_closed t = ms_closed s"
proof -
  have upd: "listen_error env i (upd_rl i f (ms_mgr s)) = listen_error env i (ms_mgr s)" if "\<And>l. rl_route (f l) = rl_route l" for f
    using i that by (auto simp: listen_error_def Let_def split: option.split)
  define refuse where "refuse = ne_refuse env (port_of s i)"
  define as where "as = (if listen_error env i (ms_mgr s) = None
    then [MRun refuse i, MRun refuse i, MTimer i, MTimer i, MTimer i]
    else [MRun refuse i, MRun refuse i, MRun refuse i, MRun refuse i, MTimer i])"
  show ?thesis
  proof (cases "listen_error env i (ms_mgr s)")
    case None
    then have b: "ne_refuse env (route_listen (rl_route (rm_heap (ms_mgr s) ! i))) = None"
      "rm_bound (ms_mgr s) (route_listen (rl_route (rm_heap (ms_mgr s) ! i))) = None"
      by (auto simp: listen_error_def Let_def rl_at_def split: option.splits if_splits)
    have m: "m = (upd_rl i (\<lambda>l. l\<lparr>rl_state := StateRunning\<rparr>) (upd_rl i (\<lambda>l. l\<lparr>rl_state := StateStarting\<rparr>) (ms_mgr s)))
        \<lparr>rm_bound := (rm_bound (ms_mgr s))(port_of s i \<mapsto> i)\<rparr>"
      using i None by (simp add: m_def runListener_def upd Let_def port_of_def)
    show ?thesis
      using i run open_ None b
      by (intro exI [of _ as])
        (simp add: as_def refuse_def m run_thread_def timer_thread_def run_step_def timer_step_def
          listener_view_def put_listener_def bind_error_def port_of_def upd_rl_def rl_at_def same_rest_def)
  next
    case (Some e)
    have "bind_error refuse s i = Some e"
      using Some by (cases "ne_refuse env (port_of s i)")
        (auto simp: bind_error_def refuse_def listen_error_def port_of_def Let_def split: if_splits)
    then have b': "refuse = Some e \<or> (refuse = None \<and> e = ''bind: address already in use'' \<and>
        (\<exists>y. rm_bound (ms_mgr s) (route_listen (rl_route (rm_heap (ms_mgr s) ! i))) = Some y))"
      by (cases refuse) (auto simp: bind_error_def port_of_def rl_at_def split: if_splits)
    have m: "m = (upd_rl i (\<lambda>l. l\<lparr>rl_state := StateFailed, rl_startErr := Some e\<rparr>)
        (upd_rl i (\<lambda>l. l\<lparr>rl_state := StateStarting\<rparr>) (ms_mgr s)))\<lparr>rm_wg := rm_wg (ms_mgr s) - 1\<rparr>"
      using i Some by (simp add: m_def runListener_def upd Let_def)
    show ?thesis
      using b' i run open_ Some free
      by (intro exI [of _ as], elim disjE)
        (simp_all add: as_def m run_thread_def timer_thread_def run_step_def timer_step_def wg_done_def
          listener_view_def put_listener_def bind_error_def port_of_def upd_rl_def rl_at_def same_rest_def)
  qed
qed

definition realises ::
  "('t, 'w) manager_system \<Rightarrow> (('t, 'w) route_manager \<Rightarrow> watcher_pc \<Rightarrow> ('t, 'w) manager_system \<Rightarrow> bool) \<Rightarrow> bool" where
  "realises s P \<longleftrightarrow> (\<exists>as t. manager_run as s = Some t \<and> settled t \<and> P (ms_mgr t) (ms_watch t) t)"

lemma realisesI: "manager_run as s = Some t \<Longrightarrow> settled t \<Longrightarrow> P (ms_mgr t) (ms_watch t) t \<Longrightarrow> realises s P"
  by (auto simp: realises_def)

lemma realises_trans:
  assumes "realises s P" and "\<And>t. settled t \<Longrightarrow> P (ms_mgr t) (ms_watch t) t \<Longrightarrow> realises t Q"
  shows "realises s Q"
proof -
  from assms(1) obtain as t where t: "manager_run as s = Some t" "settled t" "P (ms_mgr t) (ms_watch t) t"
    by (auto simp: realises_def)
  from assms(2) [OF t(2,3)] obtain bs u where "manager_run bs t = Some u" "settled u" "Q (ms_mgr u) (ms_watch u) u"
    by (auto simp: realises_def)
  with t show ?thesis by (intro realisesI [of "as @ bs"]) (simp_all add: manager_run_append)
qed

text \<open>\<open>stopRoute\<close> as a schedule; the goroutine of a listener that served ends in it.\<close>

lemma stopRoute_run:
  assumes st: "settled s" and w: "ms_watch s = WatchStop job KeyLookup" and job: "rj_stop job = key # keys"
  shows "realises s (\<lambda>m pc t. m = snd (stopRoute env key (ms_mgr s)) \<and> same_rest s t \<and>
    pc = WatchStop (case fst (stopRoute env key (ms_mgr s)) of
      Some e \<Rightarrow> job\<lparr>rj_stop := keys, rj_errs := rj_errs job @ [stop_failure key e]\<rparr>
    | None \<Rightarrow> job\<lparr>rj_stop := keys, rj_stopped := rj_stopped job @ [key]\<rparr>) KeyLookup)"
proof (cases "rm_routeMap (ms_mgr s) key")
  case None
  have run: "manager_run [MWatch Proceed] s = Some (stop_route_returns (Some (route_not_found key)) job s)"
    using w job None by (simp add: watcher_step_def)
  have inv: "manager_inv s" using st by (simp add: settled_def)
  show ?thesis
    by (rule realisesI [OF run])
      (use manager_run_inv [OF inv run] st job None in
        \<open>simp_all add: settled_def stop_route_returns_def Let_def stopRoute_def same_rest_def\<close>)
next
  case (Some i)
  have inv: "manager_inv s" using st by (simp add: settled_def)
  then have i: "i < heap_len s" using Some by (simp add: manager_inv_def listeners_inv_def)
  have ti: "ms_timer s i = TimerDone" and ri: "ms_run s i = Some RunDone \<or> (ms_run s i = Some RunServe \<and> \<not> ms_closed s i)"
    using st i by (auto simp: settled_def)
  have bound: "rm_bound (ms_mgr s) (port_of s i) = Some i \<longleftrightarrow> ms_run s i = Some RunServe \<and> \<not> ms_closed s i"
    using inv by (auto simp: manager_inv_def listeners_inv_def)
  define stop where "stop = (case ne_shutdown env i of
      None \<Rightarrow> [MWatch Proceed, MWatch Proceed, MWatch (ShutdownResult None), MWatch Proceed, MWatch Proceed]
    | Some e \<Rightarrow> [MWatch Proceed, MWatch Proceed, MWatch (ShutdownResult (Some e))])"
  define as where "as = stop @ (if ms_run s i = Some RunServe then [MRun None i] else [])"
  let ?P = "\<lambda>t. ms_mgr t = snd (stopRoute env key (ms_mgr s)) \<and> same_rest s t \<and>
    ms_watch t = WatchStop (case fst (stopRoute env key (ms_mgr s)) of
      Some e \<Rightarrow> job\<lparr>rj_stop := keys, rj_errs := rj_errs job @ [stop_failure key e]\<rparr>
    | None \<Rightarrow> job\<lparr>rj_stop := keys, rj_stopped := rj_stopped job @ [key]\<rparr>) KeyLookup \<and>
    ms_timer t = ms_timer s \<and> ms_closed t = (ms_closed s)(i := True) \<and>
    ms_run t = (if ms_run s i = Some RunServe then (ms_run s)(i \<mapsto> RunDone) else ms_run s) \<and> heap_len t = heap_len s"
  note defs = as_def stop_def watcher_step_def stop_route_returns_def Let_def set_state_def shut_server_def shut_closer_def
    watch_at_def run_thread_def run_step_def listener_view_def put_listener_def wg_done_def stopRoute_def release_def
    port_of_def upd_rl_def rl_at_def same_rest_def close_closer_def
  have "\<exists>t. manager_run as s = Some t \<and> ?P t"
  proof (cases "ms_run s i = Some RunServe")
    case True
    with ri bound have b: "rm_bound (ms_mgr s) (route_listen (rl_route (rm_heap (ms_mgr s) ! i))) = Some i"
      by (simp add: port_of_def rl_at_def)
    show ?thesis
      using w job Some i True b by (cases "ne_shutdown env i") (simp_all add: defs)
  next
    case False
    with bound have b: "rm_bound (ms_mgr s) (route_listen (rl_route (rm_heap (ms_mgr s) ! i))) \<noteq> Some i"
      by (simp add: port_of_def rl_at_def)
    show ?thesis
      using w job Some i False b by (cases "ne_shutdown env i") (simp_all add: defs)
  qed
  then obtain t where t: "manager_run as s = Some t" "?P t" by blast
  have "settled t"
    using st manager_run_inv [OF inv t(1)] t(2) i ri by (auto simp: settled_def)
  with t show ?thesis by (intro realisesI [OF t(1)]) simp_all
qed

lemma stop_routes_run:
  assumes "settled s" and "ms_watch s = WatchStop job KeyLookup" and "rj_stop job = keys"
    and "stop_routes env keys (ms_mgr s) = (errs, stopped, m')"
  shows "realises s (\<lambda>m pc t. m = m' \<and> same_rest s t \<and>
    pc = WatchStop (job\<lparr>rj_stop := [], rj_stopped := rj_stopped job @ stopped, rj_errs := rj_errs job @ errs\<rparr>) KeyLookup)"
  using assms
proof (induction keys arbitrary: s job errs stopped)
  case Nil
  then show ?case by (intro realisesI [of "[]"]) auto
next
  case (Cons key keys)
  obtain err m1 where stop: "stopRoute env key (ms_mgr s) = (err, m1)" by fastforce
  obtain errs1 stopped1 where rest: "stop_routes env keys m1 = (errs1, stopped1, m')"
    and res: "errs = (case err of Some e \<Rightarrow> stop_failure key e # errs1 | None \<Rightarrow> errs1)"
      "stopped = (case err of Some e \<Rightarrow> stopped1 | None \<Rightarrow> key # stopped1)"
    using Cons.prems(4) stop by (auto split: option.splits prod.splits)
  show ?case
  proof (rule realises_trans [OF stopRoute_run [OF Cons.prems(1,2,3), of env, unfolded stop fst_conv snd_conv]])
    fix t
    assume t: "settled t" "ms_mgr t = m1 \<and> same_rest s t \<and> ms_watch t = WatchStop (case err of
        Some e \<Rightarrow> job\<lparr>rj_stop := keys, rj_errs := rj_errs job @ [stop_failure key e]\<rparr>
      | None \<Rightarrow> job\<lparr>rj_stop := keys, rj_stopped := rj_stopped job @ [key]\<rparr>) KeyLookup"
    show "realises t (\<lambda>m pc u. m = m' \<and> same_rest s u \<and>
      pc = WatchStop (job\<lparr>rj_stop := [], rj_stopped := rj_stopped job @ stopped, rj_errs := rj_errs job @ errs\<rparr>) KeyLookup)"
      using Cons.IH [OF t(1), of "case err of
          Some e \<Rightarrow> job\<lparr>rj_stop := keys, rj_errs := rj_errs job @ [stop_failure key e]\<rparr>
        | None \<Rightarrow> job\<lparr>rj_stop := keys, rj_stopped := rj_stopped job @ [key]\<rparr>" errs1 stopped1] t(2) rest res
      by (cases err) (auto simp: realises_def same_rest_def)
  qed
qed

text \<open>\<open>startRoute\<close> as a schedule. The configuration is the one in force when the listener is made.\<close>

lemma startRoute_run:
  assumes st: "settled s" and w: "ms_watch s = WatchStart job RouteCreate" and job: "rj_start job = r # rs"
  shows "realises s (\<lambda>m pc t. m = snd (startRoute env getCfg r (ms_mgr s)) \<and> same_rest s t \<and>
    pc = WatchStart (case fst (startRoute env getCfg r (ms_mgr s)) of
      Some e \<Rightarrow> job\<lparr>rj_start := rs, rj_errs := rj_errs job @ [start_failure r e]\<rparr>
    | None \<Rightarrow> job\<lparr>rj_start := rs\<rparr>) RouteCreate)"
proof -
  have inv: "manager_inv s" using st by (simp add: settled_def)
  then have routes: "\<forall>j \<in> set (rm_routes (ms_mgr s)). j < heap_len s" by (simp add: manager_inv_def listeners_inv_def)
  define i where "i = heap_len s"
  define m2 where "m2 = (ms_mgr s)\<lparr>rm_heap := rm_heap (ms_mgr s) @ [createListener getCfg (ms_mgr s) r],
      rm_routes := drop_stopped (ms_mgr s) @ [i], rm_routeMap := (rm_routeMap (ms_mgr s))(routeKey r \<mapsto> i),
      rm_wg := rm_wg (ms_mgr s) + 1\<rparr>"
  define s3 where "s3 = s\<lparr>ms_mgr := m2, ms_getCfg := getCfg, ms_run := (ms_run s)(i \<mapsto> RunStart),
      ms_watch := WatchStart job (RouteWait i)\<rparr>"
  have at2: "rl_at m2 j = rl_at (ms_mgr s) j" if "j < i" for j
    using that by (simp add: m2_def rl_at_def i_def nth_append)
  have drop: "drop_stopped ((ms_mgr s)\<lparr>rm_heap := rm_heap (ms_mgr s) @ [l]\<rparr>) = drop_stopped (ms_mgr s)" for l
    using routes by (auto simp: drop_stopped_def rl_at_def nth_append intro!: filter_cong)
  have run3: "manager_run [MConfig getCfg, MWatch Proceed, MWatch Proceed, MWatch Proceed] s = Some s3"
    using w job
    by (simp add: watcher_step_def add_listener_def watch_at_def on_manager_def s3_def m2_def i_def createListener_def
        wrapWithWakeCoordinator_def drop)
  have s3: "i < heap_len s3" "ms_run s3 i = Some RunStart" "\<not> ms_closed s3 i" "rm_bound (ms_mgr s3) (port_of s3 i) \<noteq> Some i"
  proof -
    show "i < heap_len s3" "ms_run s3 i = Some RunStart" by (simp_all add: s3_def m2_def i_def)
    show "\<not> ms_closed s3 i" using st by (simp add: s3_def settled_def i_def)
    show "rm_bound (ms_mgr s3) (port_of s3 i) \<noteq> Some i"
      using inv by (auto simp: s3_def m2_def i_def manager_inv_def listeners_inv_def)
  qed
  from listener_threads_run [OF s3, of env] obtain as4 s4 where run4: "manager_run as4 s3 = Some s4"
    and s4: "ms_mgr s4 = runListener env i m2" "same_rest s3 s4" "ms_watch s4 = WatchStart job (RouteWait i)"
      "ms_run s4 = (ms_run s3)(i \<mapsto> (if listen_error env i m2 = None then RunServe else RunDone))"
      "ms_timer s4 = (ms_timer s3)(i := TimerDone)" "ms_started s4 = (ms_started s3)(i := True)" "ms_closed s4 = ms_closed s3"
    by (auto simp: s3_def)
  have start: "startRoute env getCfg r (ms_mgr s) =
      (if ne_slow env i then Some startup_timeout else start_result (rl_at (runListener env i m2) i), runListener env i m2)"
    by (simp add: startRoute_def add_listener_def m2_def i_def Let_def)
  define as5 where "as5 = (if ne_slow env i then [MWatch StartTimeout] else [MWatch Proceed, MWatch Proceed])"
  have run5: "manager_run as5 s4 = Some (start_route_returns (fst (startRoute env getCfg r (ms_mgr s))) job s4)"
    using s4 by (simp add: as5_def watcher_step_def start start_route_returns_def watch_at_def)
  let ?t = "start_route_returns (fst (startRoute env getCfg r (ms_mgr s))) job s4"
  have run: "manager_run ([MConfig getCfg, MWatch Proceed, MWatch Proceed, MWatch Proceed] @ as4 @ as5) s = Some ?t"
    using run3 run4 run5 by (simp only: manager_run_append option.case)
  have len: "heap_len s4 = Suc i" unfolding s4(1) by (subst runListener_effect(4)) (simp_all add: m2_def i_def)
  have "manager_inv ?t" by (rule manager_run_inv [OF inv run])
  moreover have "\<not> ms_closed s i \<and> ms_timer s i = TimerNone" using st by (simp add: settled_def i_def)
  ultimately have "settled ?t"
    using st len s4 by (auto simp: settled_def start_route_returns_def Let_def s3_def i_def less_Suc_eq)
  then show ?thesis
    by (rule realisesI [OF run])
      (use s4 job start in \<open>auto simp: start_route_returns_def Let_def same_rest_def s3_def split: option.split\<close>)
qed

lemma start_routes_run:
  assumes "settled s" and "ms_watch s = WatchStart job RouteCreate" and "rj_start job = rs"
    and "start_routes env at rs (ms_mgr s) = (errs, m')"
  shows "realises s (\<lambda>m pc t. m = m' \<and> same_rest s t \<and>
    pc = WatchStart (job\<lparr>rj_start := [], rj_errs := rj_errs job @ errs\<rparr>) RouteCreate)"
  using assms
proof (induction rs arbitrary: s job errs)
  case Nil
  then show ?case by (intro realisesI [of "[]"]) auto
next
  case (Cons r rs)
  obtain err m1 where start: "startRoute env (at r) r (ms_mgr s) = (err, m1)" by fastforce
  obtain errs1 where rest: "start_routes env at rs m1 = (errs1, m')"
    and res: "errs = (case err of Some e \<Rightarrow> start_failure r e # errs1 | None \<Rightarrow> errs1)"
    using Cons.prems(4) start by (auto split: option.splits prod.splits)
  show ?case
  proof (rule realises_trans [OF startRoute_run [OF Cons.prems(1,2,3), of env "at r", unfolded start fst_conv snd_conv]])
    fix t
    assume t: "settled t" "ms_mgr t = m1 \<and> same_rest s t \<and> ms_watch t = WatchStart (case err of
        Some e \<Rightarrow> job\<lparr>rj_start := rs, rj_errs := rj_errs job @ [start_failure r e]\<rparr>
      | None \<Rightarrow> job\<lparr>rj_start := rs\<rparr>) RouteCreate"
    show "realises t (\<lambda>m pc u. m = m' \<and> same_rest s u \<and>
      pc = WatchStart (job\<lparr>rj_start := [], rj_errs := rj_errs job @ errs\<rparr>) RouteCreate)"
      using Cons.IH [OF t(1), of "case err of
          Some e \<Rightarrow> job\<lparr>rj_start := rs, rj_errs := rj_errs job @ [start_failure r e]\<rparr>
        | None \<Rightarrow> job\<lparr>rj_start := rs\<rparr>" errs1] t(2) rest res
      by (cases err) (auto simp: realises_def same_rest_def)
  qed
qed

lemma settled_watch:
  assumes "settled s" and "manager_run as s = Some t"
    and "heap_len t = heap_len s" "ms_timer t = ms_timer s" "ms_run t = ms_run s" "ms_closed t = ms_closed s"
  shows "settled t"
  using assms manager_run_inv [of s as t] by (simp add: settled_def)

lemma handleReload_run:
  assumes st: "settled s" and w: "ms_watch s = WatchSelect"
    and new: "range_order newOrder (route_map (cfg_routes c))" and old: "range_order oldOrder (route_map (active_routes (ms_mgr s)))"
  shows "realises s (\<lambda>m pc t. m = snd (handleReload env newOrder oldOrder (Some c) at (ms_mgr s)) \<and> pc = WatchSelect \<and>
    ms_reloads t = ms_reloads s @ [fst (handleReload env newOrder oldOrder (Some c) at (ms_mgr s))] \<and> ms_stop t = ms_stop s)"
proof -
  define ch where "ch = detectChanges newOrder oldOrder (active_routes (ms_mgr s)) (cfg_routes c)"
  let ?as = "[MConfig (Some c), MWatch Proceed, MWatch Proceed, MWatch (Orders newOrder oldOrder)]"
  note keys = new [folded visits_keys_range] old [folded visits_keys_range]
  show ?thesis
  proof (cases "added ch = [] \<and> removed ch = [] \<and> modified ch = []")
    case True
    then have run: "manager_run ?as s = Some (reload_returns None (s\<lparr>ms_getCfg := Some c, ms_watch := WatchRoutes c\<rparr>))"
      using w keys by (simp add: watcher_step_def watch_at_def ch_def)
    show ?thesis
      by (rule realisesI [OF run settled_watch [OF st run]])
        (use True in \<open>simp_all add: reload_returns_def handleReload_def ch_def [symmetric] Let_def\<close>)
  next
    case False
    define s1 where "s1 = s\<lparr>ms_getCfg := Some c, ms_watch := WatchStop (reload_job_of ch) KeyLookup\<rparr>"
    have run1: "manager_run ?as s = Some s1"
      using False w keys by (auto simp: watcher_step_def watch_at_def Let_def ch_def [symmetric] s1_def)
    have st1: "settled s1" by (rule settled_watch [OF st run1]) (simp_all add: s1_def)
    obtain errs1 stopped m1 where stop: "stop_routes env (removed ch @ map routeKey (modified ch)) (ms_mgr s) = (errs1, stopped, m1)"
      by (metis prod_cases3)
    obtain errs2 m2 where start: "start_routes env at (added ch @ modified ch) (cleanupStoppedRoutes stopped m1) = (errs2, m2)"
      by fastforce
    have res: "handleReload env newOrder oldOrder (Some c) at (ms_mgr s) = (reload_outcome (errs1 @ errs2), m2)"
      using False stop start by (auto simp: handleReload_def ch_def [symmetric] applyRouteChanges_def Let_def)
    let ?job = "(reload_job_of ch)\<lparr>rj_stop := [], rj_stopped := stopped, rj_errs := errs1\<rparr>"
    have a: "realises s1 (\<lambda>m pc t. m = m1 \<and> same_rest s1 t \<and> pc = WatchStop ?job KeyLookup)"
      using stop_routes_run [OF st1, of "reload_job_of ch" "removed ch @ map routeKey (modified ch)" env errs1 stopped m1] stop
      by (simp add: s1_def reload_job_of_def)
    have b: "realises t (\<lambda>m pc u. m = m2 \<and> same_rest s1 u \<and>
        pc = WatchStart (?job\<lparr>rj_start := [], rj_errs := errs1 @ errs2\<rparr>) RouteCreate)"
      if t: "settled t" "ms_mgr t = m1 \<and> same_rest s1 t \<and> ms_watch t = WatchStop ?job KeyLookup" for t
    proof -
      define u where "u = t\<lparr>ms_mgr := cleanupStoppedRoutes stopped m1, ms_watch := WatchStart ?job RouteCreate\<rparr>"
      have run: "manager_run [MWatch Proceed, MWatch Proceed] t = Some u"
        using t by (simp add: watcher_step_def watch_at_def on_manager_def u_def)
      have "settled u" by (rule settled_watch [OF t(1) run]) (use t in \<open>simp_all add: u_def cleanup_sel\<close>)
      from start_routes_run [OF this, of ?job "added ch @ modified ch" env at errs2 m2] start
      have "realises u (\<lambda>m pc v. m = m2 \<and> same_rest u v \<and> pc = WatchStart (?job\<lparr>rj_start := [], rj_errs := errs1 @ errs2\<rparr>) RouteCreate)"
        by (simp add: u_def reload_job_of_def)
      moreover have "same_rest s1 u" using t by (simp add: u_def same_rest_def)
      ultimately obtain bs v where v: "manager_run bs u = Some v" "settled v" "ms_mgr v = m2" "same_rest s1 v"
          "ms_watch v = WatchStart (?job\<lparr>rj_start := [], rj_errs := errs1 @ errs2\<rparr>) RouteCreate"
        by (auto simp: realises_def intro: same_rest_trans)
      have run': "manager_run ([MWatch Proceed, MWatch Proceed] @ bs) t = Some v"
        by (simp only: manager_run_append run option.case v(1))
      show ?thesis by (rule realisesI [OF run' v(2)]) (use v in simp)
    qed
    have c: "realises t (\<lambda>m pc u. m = m2 \<and> pc = WatchSelect \<and> ms_reloads u = ms_reloads s @ [reload_outcome (errs1 @ errs2)] \<and>
        ms_stop u = ms_stop s)"
      if t: "settled t" "ms_mgr t = m2 \<and> same_rest s1 t \<and> ms_watch t = WatchStart (?job\<lparr>rj_start := [], rj_errs := errs1 @ errs2\<rparr>) RouteCreate" for t
    proof -
      have run: "manager_run [MWatch Proceed] t = Some (reload_returns (reload_outcome (errs1 @ errs2)) t)"
        using t by (simp add: watcher_step_def)
      show ?thesis
        by (rule realisesI [OF run settled_watch [OF t(1) run]])
          (use t in \<open>simp_all add: reload_returns_def same_rest_def s1_def\<close>)
    qed
    have "realises s1 (\<lambda>m pc u. m = m2 \<and> pc = WatchSelect \<and> ms_reloads u = ms_reloads s @ [reload_outcome (errs1 @ errs2)] \<and>
        ms_stop u = ms_stop s)"
      by (rule realises_trans [OF realises_trans [OF a b] c])
    then obtain bs u where u: "manager_run bs s1 = Some u" "settled u" "ms_mgr u = m2" "ms_watch u = WatchSelect"
        "ms_reloads u = ms_reloads s @ [reload_outcome (errs1 @ errs2)]" "ms_stop u = ms_stop s"
      by (auto simp: realises_def)
    have run: "manager_run (?as @ bs) s = Some u" by (simp only: manager_run_append run1 option.case u(1))
    show ?thesis by (rule realisesI [OF run u(2)]) (use u res in simp)
  qed
qed

lemma run_listeners_run:
  assumes "manager_inv s" and "distinct order" and "set order \<subseteq> {..<heap_len s}"
    and "\<forall>i \<in> set order. ms_run s i = Some RunStart \<and> \<not> ms_closed s i"
  shows "\<exists>as t. manager_run as s = Some t \<and> ms_mgr t = run_listeners env order (ms_mgr s) \<and> same_rest s t \<and>
    ms_watch t = ms_watch s \<and> ms_closed t = ms_closed s \<and> heap_len t = heap_len s \<and>
    (\<forall>i \<in> set order. ms_timer t i = TimerDone \<and> (ms_run t i = Some RunServe \<or> ms_run t i = Some RunDone)) \<and>
    (\<forall>i. i \<notin> set order \<longrightarrow> ms_timer t i = ms_timer s i \<and> ms_run t i = ms_run s i)"
  using assms
proof (induction order arbitrary: s)
  case Nil
  then show ?case by (intro exI [of _ "[]"]) (simp add: run_listeners_def)
next
  case (Cons i order)
  have i: "i < heap_len s" "ms_run s i = Some RunStart" "\<not> ms_closed s i" using Cons.prems by auto
  have "rm_bound (ms_mgr s) (port_of s i) \<noteq> Some i"
    using Cons.prems(1) i by (auto simp: manager_inv_def listeners_inv_def)
  from listener_threads_run [OF i this, of env] obtain as t where run: "manager_run as s = Some t"
    and t: "ms_mgr t = runListener env i (ms_mgr s)" "same_rest s t" "ms_watch t = ms_watch s"
      "ms_run t = (ms_run s)(i \<mapsto> (if listen_error env i (ms_mgr s) = None then RunServe else RunDone))"
      "ms_timer t = (ms_timer s)(i := TimerDone)" "ms_closed t = ms_closed s"
    by blast
  have len: "heap_len t = heap_len s" unfolding t(1) by (rule runListener_effect(4) [OF i(1)])
  have "\<exists>bs u. manager_run bs t = Some u \<and> ms_mgr u = run_listeners env order (ms_mgr t) \<and> same_rest t u \<and>
    ms_watch u = ms_watch t \<and> ms_closed u = ms_closed t \<and> heap_len u = heap_len t \<and>
    (\<forall>i \<in> set order. ms_timer u i = TimerDone \<and> (ms_run u i = Some RunServe \<or> ms_run u i = Some RunDone)) \<and>
    (\<forall>i. i \<notin> set order \<longrightarrow> ms_timer u i = ms_timer t i \<and> ms_run u i = ms_run t i)"
    by (rule Cons.IH [OF manager_run_inv [OF Cons.prems(1) run]])
      (use Cons.prems len t in \<open>auto split: if_splits\<close>)
  then obtain bs u where u: "manager_run bs t = Some u" "ms_mgr u = run_listeners env order (ms_mgr t)" "same_rest t u"
    "ms_watch u = ms_watch t" "ms_closed u = ms_closed t" "heap_len u = heap_len t"
    "\<forall>i \<in> set order. ms_timer u i = TimerDone \<and> (ms_run u i = Some RunServe \<or> ms_run u i = Some RunDone)"
    "\<forall>i. i \<notin> set order \<longrightarrow> ms_timer u i = ms_timer t i \<and> ms_run u i = ms_run t i" by blast
  have "i \<notin> set order" using Cons.prems(2) by simp
  with run u t len show ?case
    by (intro exI [of _ "as @ bs"] exI [of _ u])
      (auto simp: manager_run_append run_listeners_def intro: same_rest_trans)
qed

lemma boot_run:
  fixes env :: net_env and wake :: "'w option option" and tracker :: "'t option" and at :: "route \<Rightarrow> config option"
  assumes new: "NewRouteManager True True True True = Inr m0" and keys: "distinct (map routeKey (cfg_routes cfg))"
    and order: "start_order cfg order"
  shows "realises (manager_started (Some cfg) (start_manager wake tracker cfg at m0))
    (\<lambda>m pc t. m = boot_manager m0 wake tracker cfg at env order \<and> pc = WatchSelect \<and> ms_stop t = (\<lambda>k. StopperIdle))"
proof -
  define m where "m = start_manager wake tracker cfg at m0"
  define s where "s = manager_started (Some cfg) m"
  note start = start_manager_inv [OF new keys, of wake tracker at, folded m_def]
  have inv: "manager_inv s"
    unfolding s_def m_def by (rule manager_init_inv) (rule start_returns [OF new keys])
  have len: "length (rm_heap m) = length (cfg_routes cfg)"
    using start(1,3) by (metis active_routes_def diff_zero length_map length_upt start_inv_def)
  have mgr: "ms_mgr s = m" by (simp add: s_def manager_started_def)
  have order': "distinct order" "set order = {..<heap_len s}"
    using order by (simp_all add: start_order_def mgr len lessThan_atLeast0)
  have fresh: "set order \<subseteq> {..<heap_len s}" "\<forall>i \<in> set order. ms_run s i = Some RunStart \<and> \<not> ms_closed s i"
    using order'(2) by (simp_all add: s_def manager_started_def)
  obtain as t where run: "manager_run as s = Some t"
    and t: "ms_mgr t = run_listeners env order (ms_mgr s)" "same_rest s t" "ms_watch t = ms_watch s" "ms_closed t = ms_closed s"
      "heap_len t = heap_len s" "\<forall>i \<in> set order. ms_timer t i = TimerDone \<and> (ms_run t i = Some RunServe \<or> ms_run t i = Some RunDone)"
      "\<forall>i. i \<notin> set order \<longrightarrow> ms_timer t i = ms_timer s i \<and> ms_run t i = ms_run s i"
    using run_listeners_run [OF inv order'(1) fresh, of env] by blast
  have "settled t"
    using manager_run_inv [OF inv run] t order'(2) by (auto simp: settled_def s_def manager_started_def)
  moreover have "ms_mgr t = boot_manager m0 wake tracker cfg at env order"
    by (simp add: t(1) s_def manager_started_def m_def boot_manager_def start_manager_def)
  moreover have "ms_watch t = WatchSelect" "ms_stop t = (\<lambda>k. StopperIdle)"
    using t(2,3) by (simp_all add: s_def manager_started_def same_rest_def)
  ultimately show ?thesis
    by (intro realisesI [OF run [unfolded s_def m_def]] conjI)
qed

lemma reloaded_run:
  assumes "reloaded P m cs m'" and "settled s" and "ms_watch s = WatchSelect" and "ms_mgr s = m"
  shows "realises s (\<lambda>m'' pc t. m'' = m' \<and> pc = WatchSelect \<and> ms_stop t = ms_stop s)"
  using assms
proof (induction rule: reloaded.induct)
  case no_reload
  then show ?case by (intro realisesI [of "[]"]) auto
next
  case (one_reload cs m1 env c newOrder oldOrder at e m2)
  from one_reload.IH [OF one_reload.prems] show ?case
  proof (rule realises_trans)
    fix t assume t: "settled t" "ms_mgr t = m1 \<and> ms_watch t = WatchSelect \<and> ms_stop t = ms_stop s"
    then show "realises t (\<lambda>m'' pc u. m'' = m2 \<and> pc = WatchSelect \<and> ms_stop u = ms_stop s)"
      using handleReload_run [of t newOrder c oldOrder env at] one_reload.hyps by (auto simp: realises_def)
  qed
qed

section \<open>Properties\<close>

text \<open>C7. The threads implement the sequential model of the route manager: whatever Start with its
  goroutines and any sequence of reloads do in that model, whichever way the system answers and
  whatever configuration is in force when a listener is made, some schedule of the threads leads
  to the same manager, with every goroutine of a listener settled and the reload goroutine waiting.\<close>

theorem sequential_histories_are_realised:
  assumes "NewRouteManager True True True True = Inr m0" and "distinct (map route_listen (cfg_routes cfg))"
    and "start_order cfg order" and "reloaded P (boot_manager m0 wake tracker cfg at env order) cs m"
  shows "\<exists>s. manager_step\<^sup>*\<^sup>* (manager_started (Some cfg) (start_manager wake tracker cfg at m0)) s \<and>
    ms_mgr s = m \<and> ms_watch s = WatchSelect \<and> (\<forall>k. ms_stop s k = StopperIdle) \<and>
    (\<forall>i < length (rm_heap m). ms_timer s i = TimerDone \<and>
       (ms_run s i = Some RunDone \<or> (ms_run s i = Some RunServe \<and> \<not> ms_closed s i)))"
proof -
  let ?s0 = "manager_started (Some cfg) (start_manager wake tracker cfg at m0)"
  have "realises ?s0 (\<lambda>m' pc t. m' = m \<and> pc = WatchSelect \<and> ms_stop t = (\<lambda>k. StopperIdle))"
  proof (rule realises_trans [OF boot_run [OF assms(1) distinct_ports_keys [OF assms(2)] assms(3)]])
    fix t assume t: "settled t" "ms_mgr t = boot_manager m0 wake tracker cfg at env order \<and> ms_watch t = WatchSelect \<and>
        ms_stop t = (\<lambda>k. StopperIdle)"
    with reloaded_run [OF assms(4), of t] show "realises t (\<lambda>m' pc u. m' = m \<and> pc = WatchSelect \<and> ms_stop u = (\<lambda>k. StopperIdle))"
      by (auto simp: realises_def)
  qed
  then obtain as s where "manager_run as ?s0 = Some s" "settled s" "ms_mgr s = m" "ms_watch s = WatchSelect"
      "ms_stop s = (\<lambda>k. StopperIdle)"
    by (auto simp: realises_def)
  then show ?thesis
    using manager_run_steps by (intro exI [of _ s]) (auto simp: settled_def)
qed

lemma sequential_histories_are_realised_witness:
  "\<exists>s. manager_step\<^sup>*\<^sup>* (manager_started (Some example_cfg1)
        (start_manager (Some (Some 1)) (Some 2) example_cfg1 (\<lambda>_. Some example_cfg1) empty_manager)) s \<and>
     ms_mgr s = example_manager refusing_env \<and> ms_watch s = WatchSelect"
  using sequential_histories_are_realised [OF example_new_manager example_ports(1,3) no_reload]
  unfolding example_manager_def by blast

end
