(* ===== verification/Substitute.thy ===== *)
theory Substitute
  imports Prelude
begin

text \<open>
  Environment substitution, \<open>internal/config/substitute.go\<close>. The scanner is the meaning of the
  regular expression \<open>\$\{([^}:]+)(?::-([^}]*))?\}\<close> under leftmost-first matching: the
  name is the longest run without a closing brace or colon, so a match is unique where it starts.
  Every text is the rendering of a template, a list of literal characters and references, and
  substitution is the evaluation of that template.
\<close>

section \<open>The scanner\<close>

definition name_char :: "char \<Rightarrow> bool" where
  "name_char c \<longleftrightarrow> c \<noteq> CHR ''}'' \<and> c \<noteq> CHR '':''"

definition default_char :: "char \<Rightarrow> bool" where
  "default_char c \<longleftrightarrow> c \<noteq> CHR ''}''"

text \<open>The rest of a match after the name: the default, if the group took part, and the text after
  the match.\<close>

definition match_tail :: "string \<Rightarrow> (string option \<times> string) option" where
  "match_tail s =
     (case s of
        [] \<Rightarrow> None
      | c # r \<Rightarrow>
          if c = CHR ''}'' then Some (None, r)
          else (case r of
              [] \<Rightarrow> None
            | d # t \<Rightarrow>
                if c = CHR '':'' \<and> d = CHR ''-'' then
                  (case dropWhile default_char t of
                     [] \<Rightarrow> None
                   | _ # rest \<Rightarrow> Some (Some (takeWhile default_char t), rest))
                else None))"

text \<open>A match of the whole expression at the start of the text.\<close>

definition match_var :: "string \<Rightarrow> (string \<times> string option \<times> string) option" where
  "match_var s =
     (case s of
        c # d # r \<Rightarrow>
          if c = CHR ''$'' \<and> d = CHR ''{'' \<and> takeWhile name_char r \<noteq> [] then
            (case match_tail (dropWhile name_char r) of
               None \<Rightarrow> None
             | Some (dflt, rest) \<Rightarrow> Some (takeWhile name_char r, dflt, rest))
          else None
      | _ \<Rightarrow> None)"

text \<open>What the callback returns for a match. \<open>env\<close> is \<open>os.LookupEnv\<close>; a group that did not take
  part in the match is the empty string.\<close>

definition expand_var :: "(string \<rightharpoonup> string) \<Rightarrow> string \<Rightarrow> string option \<Rightarrow> string" where
  "expand_var env varName dflt =
     (let defaultValue = (case dflt of None \<Rightarrow> [] | Some d \<Rightarrow> d) in
      case env varName of
        Some envValue \<Rightarrow> envValue
      | None \<Rightarrow> defaultValue)"

lemma match_tail_shorter: "match_tail s = Some (d, rest) \<Longrightarrow> length rest < length s"
proof -
  have *: "dropWhile P t = x # rest \<Longrightarrow> length rest < length t" for P :: "char \<Rightarrow> bool" and t x
    using length_dropWhile_le [of P t] by simp
  show "match_tail s = Some (d, rest) \<Longrightarrow> length rest < length s"
    by (auto simp: match_tail_def split: list.splits if_splits dest!: *)
qed

lemma match_var_shorter: "match_var s = Some (n, d, rest) \<Longrightarrow> length rest < length s"
  using length_dropWhile_le [of name_char]
  by (auto simp: match_var_def split: list.splits if_splits option.splits dest!: match_tail_shorter)
    (meson le_less_trans less_SucI not_less_eq order_less_imp_le order_less_le_trans)

function SubstituteEnv :: "(string \<rightharpoonup> string) \<Rightarrow> string \<Rightarrow> string" where
  "SubstituteEnv env s =
     (case match_var s of
        Some (varName, dflt, rest) \<Rightarrow> expand_var env varName dflt @ SubstituteEnv env rest
      | None \<Rightarrow> (case s of [] \<Rightarrow> [] | c # cs \<Rightarrow> c # SubstituteEnv env cs))"
  by pat_completeness auto
termination
  by (relation "measure (\<lambda>(env, s). length s)") (auto dest: match_var_shorter)

declare SubstituteEnv.simps [simp del]

section \<open>Templates\<close>

datatype piece = Lit char | Ref string "string option"

fun piece_text :: "piece \<Rightarrow> string" where
  "piece_text (Lit c) = [c]"
| "piece_text (Ref n None) = ''${'' @ n @ ''}''"
| "piece_text (Ref n (Some d)) = ''${'' @ n @ '':-'' @ d @ ''}''"

fun piece_value :: "(string \<rightharpoonup> string) \<Rightarrow> piece \<Rightarrow> string" where
  "piece_value env (Lit c) = [c]"
| "piece_value env (Ref n d) = expand_var env n d"

fun well_formed :: "piece \<Rightarrow> bool" where
  "well_formed (Lit c) = True"
| "well_formed (Ref n d) = (n \<noteq> [] \<and> list_all name_char n \<and> (case d of None \<Rightarrow> True | Some t \<Rightarrow> list_all default_char t))"

definition render :: "piece list \<Rightarrow> string" where "render ps = concat (map piece_text ps)"

definition evaluate :: "(string \<rightharpoonup> string) \<Rightarrow> piece list \<Rightarrow> string" where
  "evaluate env ps = concat (map (piece_value env) ps)"

function template :: "string \<Rightarrow> piece list" where
  "template s =
     (case match_var s of
        Some (n, d, rest) \<Rightarrow> Ref n d # template rest
      | None \<Rightarrow> (case s of [] \<Rightarrow> [] | c # cs \<Rightarrow> Lit c # template cs))"
  by pat_completeness auto
termination
  by (relation "measure length") (auto dest: match_var_shorter)

declare template.simps [simp del]

lemma scan_nil [simp]: "SubstituteEnv env [] = []" "template [] = []"
  by (simp_all add: SubstituteEnv.simps [of env "[]"] template.simps [of "[]"] match_var_def)

lemma scan_literal:
  assumes "match_var (c # cs) = None"
  shows "SubstituteEnv env (c # cs) = c # SubstituteEnv env cs" and "template (c # cs) = Lit c # template cs"
  using assms by (simp_all add: SubstituteEnv.simps [of env "c # cs"] template.simps [of "c # cs"])

lemma scan_reference:
  assumes "match_var s = Some (n, d, rest)"
  shows "SubstituteEnv env s = expand_var env n d @ SubstituteEnv env rest"
    and "template s = Ref n d # template rest"
  using assms by (simp_all add: SubstituteEnv.simps [of env s] template.simps [of s])

lemma match_tail_text:
  "match_tail s = Some (d, rest) \<Longrightarrow>
     s = (case d of None \<Rightarrow> '''' | Some t \<Rightarrow> '':-'' @ t) @ ''}'' @ rest \<and>
     (case d of None \<Rightarrow> True | Some t \<Rightarrow> list_all default_char t)"
proof -
  have *: "t = takeWhile default_char t @ ''}'' @ rest"
    if "dropWhile default_char t = x # rest" for t x
    using that hd_dropWhile [of default_char t] takeWhile_dropWhile_id [of default_char t]
    by (simp add: default_char_def)
  have all: "list_all default_char (takeWhile default_char t)" for t
    by (auto simp: list_all_iff dest: set_takeWhileD)
  show "match_tail s = Some (d, rest) \<Longrightarrow>
     s = (case d of None \<Rightarrow> '''' | Some t \<Rightarrow> '':-'' @ t) @ ''}'' @ rest \<and>
     (case d of None \<Rightarrow> True | Some t \<Rightarrow> list_all default_char t)"
    by (auto simp: match_tail_def all split: list.splits if_splits dest!: *)
qed

lemma match_var_text:
  assumes "match_var s = Some (n, d, rest)"
  shows "s = piece_text (Ref n d) @ rest" and "well_formed (Ref n d)"
proof -
  obtain r where r: "s = ''${'' @ r" "n = takeWhile name_char r" "n \<noteq> []"
      "match_tail (dropWhile name_char r) = Some (d, rest)"
    using assms by (auto simp: match_var_def split: list.splits if_splits option.splits)
  have name: "list_all name_char n" by (auto simp: r(2) list_all_iff dest: set_takeWhileD)
  note tail = match_tail_text [OF r(4)]
  have "r = n @ dropWhile name_char r" by (simp add: r(2))
  with tail r(1) show "s = piece_text (Ref n d) @ rest"
    by (cases d) (metis append.assoc append_Nil piece_text.simps(2) option.simps(4),
        metis append.assoc piece_text.simps(3) option.simps(5))
  show "well_formed (Ref n d)" using name r(3) tail by simp
qed

lemma template_props:
  "render (template s) = s \<and> list_all well_formed (template s) \<and>
   SubstituteEnv env s = evaluate env (template s)"
proof (induction s rule: template.induct)
  case (1 s)
  show ?case
  proof (cases "match_var s")
    case None
    then show ?thesis
      using 1(1) [OF None] by (cases s) (simp_all add: scan_literal render_def evaluate_def)
  next
    case (Some p)
    obtain n d rest where p: "p = (n, d, rest)" by (metis prod_cases3)
    with Some have m: "match_var s = Some (n, d, rest)" by simp
    have "render (template rest) = rest \<and> list_all well_formed (template rest) \<and>
        SubstituteEnv env rest = evaluate env (template rest)"
      by (rule 1(2) [OF Some]) (auto simp: p)
    with match_var_text [OF m] m show ?thesis
      by (simp add: scan_reference render_def evaluate_def)
  qed
qed

section \<open>Rendering and evaluating\<close>

text \<open>A literal dollar is the only character that can start a match.\<close>

lemma match_var_ref:
  assumes "well_formed (Ref n d)"
  shows "match_var (piece_text (Ref n d) @ rest) = Some (n, d, rest)"
proof -
  have n: "n \<noteq> []" "\<forall>c \<in> set n. name_char c" using assms by (auto simp: list_all_iff)
  have stop: "\<not> name_char (CHR ''}'')" "\<not> name_char (CHR '':'')" "\<not> default_char (CHR ''}'')"
    by (simp_all add: name_char_def default_char_def)
  have take: "takeWhile name_char (n @ c # t) = n" "dropWhile name_char (n @ c # t) = c # t"
    if "\<not> name_char c" for c t
    using n that by (simp_all add: takeWhile_append2 dropWhile_append2)
  show ?thesis
  proof (cases d)
    case None
    then show ?thesis using n(1) by (simp add: match_var_def take stop match_tail_def)
  next
    case (Some t)
    then have t: "\<forall>c \<in> set t. default_char c" using assms by (simp add: list_all_iff)
    have "takeWhile default_char (t @ CHR ''}'' # rest) = t"
      "dropWhile default_char (t @ CHR ''}'' # rest) = CHR ''}'' # rest"
      using t stop by (simp_all add: takeWhile_append2 dropWhile_append2)
    with Some n(1) show ?thesis by (simp add: match_var_def take stop match_tail_def)
  qed
qed

lemma match_var_other: "c \<noteq> CHR ''$'' \<Longrightarrow> match_var (c # s) = None"
  by (simp add: match_var_def split: list.split)

fun plain_piece :: "piece \<Rightarrow> bool" where
  "plain_piece (Lit c) = (c \<noteq> CHR ''$'')"
| "plain_piece (Ref n d) = well_formed (Ref n d)"

lemma SubstituteEnv_render:
  "list_all plain_piece ps \<Longrightarrow> SubstituteEnv env (render ps) = evaluate env ps"
proof (induction ps)
  case Nil
  then show ?case by (simp add: render_def evaluate_def)
next
  case (Cons p ps)
  then have IH: "SubstituteEnv env (render ps) = evaluate env ps" by simp
  show ?case
  proof (cases p)
    case (Lit c)
    with Cons.prems have "match_var (c # render ps) = None" by (simp add: match_var_other)
    then have "SubstituteEnv env (c # render ps) = c # SubstituteEnv env (render ps)"
      by (simp add: scan_literal)
    with Lit IH show ?thesis by (simp add: render_def evaluate_def)
  next
    case (Ref n d)
    with Cons.prems have "match_var (piece_text (Ref n d) @ render ps) = Some (n, d, render ps)"
      by (intro match_var_ref) simp
    then have "SubstituteEnv env (piece_text (Ref n d) @ render ps) = expand_var env n d @ SubstituteEnv env (render ps)"
      by (rule scan_reference)
    with Ref IH show ?thesis by (simp add: render_def evaluate_def)
  qed
qed

section \<open>Properties\<close>


text \<open>C28. Conversely every text assembled from references and from literal characters other than the
  dollar sign is substituted piece by piece: values are not scanned again, and no reference is
  missed or merged with its neighbours.\<close>

theorem substitution_of_rendered_template:
  "list_all plain_piece ps \<Longrightarrow> SubstituteEnv env (render ps) = evaluate env ps"
  by (rule SubstituteEnv_render)

theorem substitution_of_rendered_template_witness:
  "SubstituteEnv [''HOST'' \<mapsto> ''${PORT}''] ''http://${HOST}:${PORT:-80}/'' = ''http://${PORT}:80/''"
  using substitution_of_rendered_template
    [of "map Lit ''http://'' @ [Ref ''HOST'' None, Lit (CHR '':''), Ref ''PORT'' (Some ''80''), Lit (CHR ''/'')]"
      "[''HOST'' \<mapsto> ''${PORT}'']"]
  by (simp add: render_def evaluate_def expand_var_def name_char_def default_char_def)

end
