(* ===== verification/GoBase64.thy ===== *)
theory GoBase64
  imports Prelude
begin

text \<open>
  \<open>encoding/base64\<close>'s \<open>StdEncoding\<close>, as the configuration validation uses it: padded, not strict
  about the unused bits of the last group, and skipping carriage returns and line feeds. A byte
  string is a list of characters.
\<close>

section \<open>The alphabet\<close>

definition b64_alphabet :: string where
  "b64_alphabet = ''ABCDEFGHIJKLMNOPQRSTUVWXYZabcdefghijklmnopqrstuvwxyz0123456789+/''"

definition b64_char :: "nat \<Rightarrow> char" where
  "b64_char n = b64_alphabet ! n"

definition b64_value :: "char \<Rightarrow> nat option" where
  "b64_value c =
     (let n = of_char c :: nat in
      if 65 \<le> n \<and> n \<le> 90 then Some (n - 65)
      else if 97 \<le> n \<and> n \<le> 122 then Some (n - 71)
      else if 48 \<le> n \<and> n \<le> 57 then Some (n + 4)
      else if n = 43 then Some 62
      else if n = 47 then Some 63
      else None)"

lemma b64_value_table: "map b64_value b64_alphabet = map Some [0..<64]"
  by (simp add: b64_alphabet_def b64_value_def upt_rec)

lemma b64_value_char [simp]: "n < 64 \<Longrightarrow> b64_value (b64_char n) = Some n"
proof -
  assume n: "n < 64"
  have len: "length b64_alphabet = 64" by (simp add: b64_alphabet_def)
  have "b64_value (b64_alphabet ! n) = map b64_value b64_alphabet ! n" using n len by simp
  also have "\<dots> = Some n" unfolding b64_value_table using n by simp
  finally show ?thesis by (simp add: b64_char_def)
qed

lemma b64_value_range: "b64_value c = Some n \<Longrightarrow> n < 64"
  by (auto simp: b64_value_def Let_def split: if_splits)

lemma b64_char_not_special [simp]:
  assumes "n < 64"
  shows "b64_char n \<noteq> CHR ''=''" "b64_char n \<noteq> CHR 0x0A" "b64_char n \<noteq> CHR 0x0D"
  using b64_value_char [OF assms] by (auto simp: b64_value_def)

section \<open>Decoding\<close>

definition byte_of :: "nat \<Rightarrow> char" where
  "byte_of n = char_of (n mod 256)"

fun b64_groups :: "string \<Rightarrow> string option" where
  "b64_groups [] = Some []"
| "b64_groups (a # b # c # d # r) =
     (case (b64_value a, b64_value b) of
        (Some x, Some y) \<Rightarrow>
          if c = CHR ''='' then
            (if d = CHR ''='' \<and> r = [] then Some [byte_of (x * 4 + y div 16)] else None)
          else (case b64_value c of
              None \<Rightarrow> None
            | Some z \<Rightarrow>
                if d = CHR ''='' then
                  (if r = [] then Some [byte_of (x * 4 + y div 16), byte_of (y * 16 + z div 4)] else None)
                else (case (b64_value d, b64_groups r) of
                    (Some w, Some bs) \<Rightarrow>
                      Some (byte_of (x * 4 + y div 16) # byte_of (y * 16 + z div 4) # byte_of (z * 64 + w) # bs)
                  | _ \<Rightarrow> None))
      | _ \<Rightarrow> None)"
| "b64_groups _ = None"

definition b64_decode :: "string \<Rightarrow> string option" where
  "b64_decode s = b64_groups (filter (\<lambda>c. c \<noteq> CHR 0x0A \<and> c \<noteq> CHR 0x0D) s)"

section \<open>Encoding\<close>

text \<open>The four groups of six bits of three bytes.\<close>

definition sextet1 :: "nat \<Rightarrow> nat" where "sextet1 x = x div 4"
definition sextet2 :: "nat \<Rightarrow> nat \<Rightarrow> nat" where "sextet2 x y = x mod 4 * 16 + y div 16"
definition sextet3 :: "nat \<Rightarrow> nat \<Rightarrow> nat" where "sextet3 y z = y mod 16 * 4 + z div 64"
definition sextet4 :: "nat \<Rightarrow> nat" where "sextet4 z = z mod 64"

fun b64_encode :: "string \<Rightarrow> string" where
  "b64_encode [] = []"
| "b64_encode [a] =
     [b64_char (sextet1 (of_char a)), b64_char (sextet2 (of_char a) 0), CHR ''='', CHR ''='']"
| "b64_encode [a, b] =
     [b64_char (sextet1 (of_char a)), b64_char (sextet2 (of_char a) (of_char b)),
      b64_char (sextet3 (of_char b) 0), CHR ''='']"
| "b64_encode (a # b # c # r) =
     b64_char (sextet1 (of_char a)) # b64_char (sextet2 (of_char a) (of_char b))
       # b64_char (sextet3 (of_char b) (of_char c)) # b64_char (sextet4 (of_char c)) # b64_encode r"

lemma byte_lt [simp]: "of_char c < (256 :: nat)"
  by (simp add: of_char_def)

lemma sextet_bounds [simp]:
  "x < 256 \<Longrightarrow> sextet1 x < 64" "y < 256 \<Longrightarrow> sextet2 x y < 64" "z < 256 \<Longrightarrow> sextet3 y z < 64" "sextet4 z < 64"
  unfolding sextet1_def sextet2_def sextet3_def sextet4_def by linarith+

lemma sextet_first: "y < 256 \<Longrightarrow> sextet1 x * 4 + sextet2 x y div 16 = x"
proof -
  assume "y < 256"
  then have "sextet2 x y div 16 = x mod 4" unfolding sextet2_def by linarith
  then show ?thesis by (simp add: sextet1_def)
qed

lemma sextet_second: "y < 256 \<Longrightarrow> z < 256 \<Longrightarrow> (sextet2 x y * 16 + sextet3 y z div 4) mod 256 = y"
proof -
  assume y: "y < 256" and z: "z < 256"
  have "sextet3 y z div 4 = y mod 16" using z unfolding sextet3_def by linarith
  moreover have "sextet2 x y * 16 = x mod 4 * 256 + y div 16 * 16" by (simp add: sextet2_def add_mult_distrib)
  ultimately have "sextet2 x y * 16 + sextet3 y z div 4 = x mod 4 * 256 + y" by simp
  with y show ?thesis by simp
qed

lemma sextet_third: "z < 256 \<Longrightarrow> (sextet3 y z * 64 + sextet4 z) mod 256 = z"
proof -
  assume z: "z < 256"
  have "sextet3 y z * 64 = y mod 16 * 256 + z div 64 * 64" by (simp add: sextet3_def add_mult_distrib)
  then have "sextet3 y z * 64 + sextet4 z = y mod 16 * 256 + z" by (simp add: sextet4_def)
  with z show ?thesis by simp
qed

lemma byte_of_sextets [simp]:
  "y < 256 \<Longrightarrow> byte_of (sextet1 (of_char a) * 4 + sextet2 (of_char a) y div 16) = a"
  "z < 256 \<Longrightarrow> byte_of (sextet2 x (of_char a) * 16 + sextet3 (of_char a) z div 4) = a"
  "byte_of (sextet3 x (of_char a) * 64 + sextet4 (of_char a)) = a"
  by (simp_all add: byte_of_def sextet_first sextet_second sextet_third)

lemma b64_groups_encode: "b64_groups (b64_encode s) = Some s"
  by (induction s rule: b64_encode.induct) simp_all

lemma b64_encode_chars: "c \<in> set (b64_encode s) \<Longrightarrow> c \<noteq> CHR 0x0A \<and> c \<noteq> CHR 0x0D"
  by (induction s rule: b64_encode.induct) auto

lemma b64_decode_encode: "b64_decode (b64_encode s) = Some s"
proof -
  have "filter (\<lambda>c. c \<noteq> CHR 0x0A \<and> c \<noteq> CHR 0x0D) (b64_encode s) = b64_encode s"
    by (rule filter_True) (use b64_encode_chars in blast)
  then show ?thesis by (simp add: b64_decode_def b64_groups_encode)
qed

end
