(* ===== verification/Validation.thy ===== *)
theory Validation
  imports ConfigTypes GoNet GoBase64 "HOL-Library.Multiset"
begin

text \<open>
  Validation of a configuration, \<open>internal/config/validation.go\<close>. A validation error keeps the
  arguments of its message: the field, and the offending value. The errors of all checks are
  collected in the order of the code; the loop over the server map runs in the order it is given.
\<close>

section \<open>Errors\<close>

datatype validation_error =
    URLEmpty string
  | URLInvalid string string url_error
  | URLScheme string string
  | URLNoHost string
  | PortOutOfRange string int
  | TimeoutNotPositive string duration
  | LogLevelInvalid string
  | LogFormatInvalid string
  | AuthNotBase64 string
  | AuthNotUserPassword string
  | RouteNameEmpty nat
  | RouteServerUnknown nat string

type_synonym validation_errors = "validation_error list"

definition errs_Add :: "validation_error option \<Rightarrow> validation_errors \<Rightarrow> validation_errors" where
  "errs_Add err v = (case err of None \<Rightarrow> v | Some e \<Rightarrow> v @ [e])"

definition HasErrors :: "validation_errors \<Rightarrow> bool" where
  "HasErrors v \<longleftrightarrow> length v > 0"

definition ValidationErrors_Unwrap :: "validation_errors \<Rightarrow> validation_error list" where
  "ValidationErrors_Unwrap v = v"

definition ErrorCount :: "validation_errors \<Rightarrow> nat" where
  "ErrorCount v = length v"

fun join_with :: "string \<Rightarrow> string list \<Rightarrow> string" where
  "join_with sep [] = []"
| "join_with sep [s] = s"
| "join_with sep (s # ss) = s @ sep @ join_with sep ss"

definition ValidationErrors_Error :: "(validation_error \<Rightarrow> string) \<Rightarrow> validation_errors \<Rightarrow> string" where
  "ValidationErrors_Error text v = (if v = [] then '''' else join_with ''; '' (map text v))"

section \<open>Single checks\<close>

definition validateURL :: "string \<Rightarrow> string \<Rightarrow> validation_error option" where
  "validateURL rawURL field =
     (if rawURL = [] then Some (URLEmpty field)
      else (case url_Parse rawURL of
          Inl e \<Rightarrow> Some (URLInvalid field rawURL e)
        | Inr parsed \<Rightarrow>
            if url_scheme parsed \<noteq> ''http'' \<and> url_scheme parsed \<noteq> ''https'' then Some (URLScheme field (url_scheme parsed))
            else if url_host parsed = [] then Some (URLNoHost field)
            else None))"

definition validatePort :: "int \<Rightarrow> string \<Rightarrow> validation_error option" where
  "validatePort port field =
     (if port < 1 \<or> port > 65535 then Some (PortOutOfRange field port) else None)"

definition validateTimeout :: "duration \<Rightarrow> string \<Rightarrow> validation_error option" where
  "validateTimeout timeout field =
     (if timeout \<le> 0 then Some (TimeoutNotPositive field timeout) else None)"

definition validateBasicAuthToken :: "string \<Rightarrow> string \<Rightarrow> validation_error option" where
  "validateBasicAuthToken token field =
     (case b64_decode token of
        None \<Rightarrow> Some (AuthNotBase64 field)
      | Some decoded \<Rightarrow>
          (case cut (CHR '':'') decoded of
             (user, password, found) \<Rightarrow>
               if \<not> found \<or> user = [] then Some (AuthNotUserPassword field) else None))"

definition validLogLevels :: "string list" where
  "validLogLevels = [''debug'', ''info'', ''warn'', ''error'']"

definition validLogFormats :: "string list" where
  "validLogFormats = [''json'', ''text'']"

section \<open>Settings\<close>

definition validateGwaihir :: "config \<Rightarrow> validation_errors \<Rightarrow> validation_errors" where
  "validateGwaihir c errs =
     (let g = set_gwaihir (cfg_settings c);
          errs = (if gw_url g \<noteq> [] then errs_Add (validateURL (gw_url g) ''settings.gwaihir.url'') errs else errs)
      in if gw_timeout g \<noteq> 0 then errs_Add (validateTimeout (gw_timeout g) ''settings.gwaihir.timeout'') errs
         else errs)"

definition validateLogging :: "config \<Rightarrow> validation_errors \<Rightarrow> validation_errors" where
  "validateLogging c errs =
     (let l = set_logging (cfg_settings c);
          errs = (if log_level l \<noteq> [] \<and> log_level l \<notin> set validLogLevels
                  then errs_Add (Some (LogLevelInvalid (log_level l))) errs else errs)
      in if log_format l \<noteq> [] \<and> log_format l \<notin> set validLogFormats
         then errs_Add (Some (LogFormatInvalid (log_format l))) errs else errs)"

definition validateObservability :: "config \<Rightarrow> validation_errors \<Rightarrow> validation_errors" where
  "validateObservability c errs =
     (let ob = set_observability (cfg_settings c);
          errs = (if ep_enabled (obs_healthCheck ob)
                  then errs_Add (validatePort (ep_port (obs_healthCheck ob)) ''settings.observability.healthCheck.port'') errs
                  else errs)
      in if ep_enabled (obs_metrics ob)
         then errs_Add (validatePort (ep_port (obs_metrics ob)) ''settings.observability.metrics.port'') errs
         else errs)"

definition validateSettings :: "config \<Rightarrow> validation_errors \<Rightarrow> validation_errors" where
  "validateSettings c errs = validateObservability c (validateLogging c (validateGwaihir c errs))"

section \<open>Servers\<close>

definition server_field :: "string \<Rightarrow> string \<Rightarrow> string" where
  "server_field name suffix = ''servers.'' @ name @ suffix"

definition validateWakeOnLan :: "string \<Rightarrow> server \<Rightarrow> validation_errors \<Rightarrow> validation_errors" where
  "validateWakeOnLan name srv errs =
     (let w = srv_wakeOnLan srv in
      if \<not> wol_enabled w then errs
      else
        let errs = (if wol_timeout w \<noteq> 0
                    then errs_Add (validateTimeout (wol_timeout w) (server_field name ''.wakeOnLan.timeout'')) errs
                    else errs)
        in if wol_debounce w \<noteq> 0
           then errs_Add (validateTimeout (wol_debounce w) (server_field name ''.wakeOnLan.debounce'')) errs
           else errs)"

definition validateSleepOnLan :: "string \<Rightarrow> server \<Rightarrow> validation_errors \<Rightarrow> validation_errors" where
  "validateSleepOnLan name srv errs =
     (let s = srv_sleepOnLan srv in
      if \<not> sol_enabled s then errs
      else
        let errs = errs_Add (validateURL (sol_endpoint s) (server_field name ''.sleepOnLan.endpoint'')) errs
        in if sol_idleTimeout s \<noteq> 0
           then errs_Add (validateTimeout (sol_idleTimeout s) (server_field name ''.sleepOnLan.idleTimeout'')) errs
           else errs)"

definition validateHealthCheck :: "string \<Rightarrow> server \<Rightarrow> validation_errors \<Rightarrow> validation_errors" where
  "validateHealthCheck name srv errs =
     (let h = srv_healthCheck srv in
      if hc_endpoint h = [] then errs
      else
        let errs = errs_Add (validateURL (hc_endpoint h) (server_field name ''.healthCheck.endpoint'')) errs;
            errs = (if hc_interval h \<noteq> 0
                    then errs_Add (validateTimeout (hc_interval h) (server_field name ''.healthCheck.interval'')) errs
                    else errs);
            errs = (if hc_timeout h \<noteq> 0
                    then errs_Add (validateTimeout (hc_timeout h) (server_field name ''.healthCheck.timeout'')) errs
                    else errs)
        in if SecretString_Value (hc_authToken h) \<noteq> []
           then errs_Add (validateBasicAuthToken (SecretString_Value (hc_authToken h))
                  (server_field name ''.healthCheck.authToken'')) errs
           else errs)"

definition validateServer :: "string \<Rightarrow> server \<Rightarrow> validation_errors \<Rightarrow> validation_errors" where
  "validateServer name srv errs =
     validateHealthCheck name srv (validateSleepOnLan name srv (validateWakeOnLan name srv errs))"

definition validateServers :: "string list \<Rightarrow> config \<Rightarrow> validation_errors \<Rightarrow> validation_errors" where
  "validateServers order c errs =
     fold (\<lambda>name errs. case cfg_servers c name of None \<Rightarrow> errs | Some srv \<Rightarrow> validateServer name srv errs) order errs"

section \<open>Routes\<close>

definition route_field :: "nat \<Rightarrow> string \<Rightarrow> string" where
  "route_field i suffix = ''routes['' @ itoa (int i) @ '']'' @ suffix"

definition validateRoute :: "config \<Rightarrow> nat \<Rightarrow> route \<Rightarrow> validation_errors \<Rightarrow> validation_errors" where
  "validateRoute c i r errs =
     (let errs = (if route_name r = [] then errs_Add (Some (RouteNameEmpty i)) errs else errs);
          errs = errs_Add (validatePort (route_listen r) (route_field i ''.listen'')) errs;
          errs = errs_Add (validateURL (route_upstream r) (route_field i ''.upstream'')) errs
      in if route_server r \<noteq> [] \<and> cfg_servers c (route_server r) = None
         then errs_Add (Some (RouteServerUnknown i (route_server r))) errs else errs)"

fun validateRoutes :: "config \<Rightarrow> nat \<Rightarrow> route list \<Rightarrow> validation_errors \<Rightarrow> validation_errors" where
  "validateRoutes c i [] errs = errs"
| "validateRoutes c i (r # rs) errs = validateRoutes c (Suc i) rs (validateRoute c i r errs)"

definition config_Validate :: "string list \<Rightarrow> config \<Rightarrow> validation_errors option" where
  "config_Validate order c =
     (let errs = validateRoutes c 0 (cfg_routes c) (validateServers order c (validateSettings c []))
      in if HasErrors errs then Some errs else None)"

section \<open>The errors of each part\<close>

text \<open>Every check appends to the errors found before it; \<open>appends f\<close> says so for a check \<open>f\<close>.\<close>

definition appends :: "(validation_errors \<Rightarrow> validation_errors) \<Rightarrow> bool" where
  "appends f \<longleftrightarrow> (\<forall>errs. f errs = errs @ f [])"

lemma appendsD: "appends f \<Longrightarrow> f errs = errs @ f []"
  unfolding appends_def by blast

lemma errs_Add_append: "errs_Add e errs = errs @ errs_Add e []"
  by (simp add: errs_Add_def split: option.split)

lemma appends_comp: "appends f \<Longrightarrow> appends g \<Longrightarrow> appends (\<lambda>errs. f (g errs))"
  unfolding appends_def by (metis append.assoc)

lemma appends_errs_Add: "appends (errs_Add e)"
  unfolding appends_def using errs_Add_append by blast

lemma appends_validateGwaihir: "appends (validateGwaihir c)"
  unfolding appends_def by (simp add: validateGwaihir_def Let_def errs_Add_def split: option.split)

lemma appends_validateLogging: "appends (validateLogging c)"
  unfolding appends_def by (simp add: validateLogging_def Let_def errs_Add_def split: option.split)

lemma appends_validateObservability: "appends (validateObservability c)"
  unfolding appends_def by (simp add: validateObservability_def Let_def errs_Add_def split: option.split)

lemma appends_validateWakeOnLan: "appends (validateWakeOnLan name srv)"
  unfolding appends_def by (simp add: validateWakeOnLan_def Let_def errs_Add_def split: option.split)

lemma appends_validateSleepOnLan: "appends (validateSleepOnLan name srv)"
  unfolding appends_def by (simp add: validateSleepOnLan_def Let_def errs_Add_def split: option.split)

lemma appends_validateHealthCheck: "appends (validateHealthCheck name srv)"
  unfolding appends_def by (simp add: validateHealthCheck_def Let_def errs_Add_def split: option.split)

lemma appends_validateRoute: "appends (validateRoute c i r)"
  unfolding appends_def by (simp add: validateRoute_def Let_def errs_Add_def split: option.split)

lemma appends_settings: "appends (validateSettings c)"
  unfolding validateSettings_def [abs_def]
  by (rule appends_comp [OF appends_validateObservability
        appends_comp [OF appends_validateLogging appends_validateGwaihir]])

lemma appends_server: "appends (validateServer name srv)"
  unfolding validateServer_def [abs_def]
  by (rule appends_comp [OF appends_validateHealthCheck
        appends_comp [OF appends_validateSleepOnLan appends_validateWakeOnLan]])

lemma validateServers_concat:
  "validateServers order c errs =
     errs @ concat (map (\<lambda>name. case cfg_servers c name of None \<Rightarrow> [] | Some srv \<Rightarrow> validateServer name srv []) order)"
proof (induction order arbitrary: errs)
  case Nil
  then show ?case by (simp add: validateServers_def)
next
  case (Cons name order)
  have "validateServers (name # order) c errs =
      validateServers order c (case cfg_servers c name of None \<Rightarrow> errs | Some srv \<Rightarrow> validateServer name srv errs)"
    by (simp add: validateServers_def)
  then show ?case
    using appendsD [OF appends_server, of name _ errs] by (simp only: Cons list.map concat.simps) (simp split: option.split)
qed

lemma validateRoutes_concat:
  "validateRoutes c i rs errs = errs @ concat (map (\<lambda>(j, r). validateRoute c j r []) (zip [i..<i + length rs] rs))"
proof (induction rs arbitrary: i errs)
  case Nil
  then show ?case by simp
next
  case (Cons r rs)
  have upt: "[i..<i + length (r # rs)] = i # [Suc i..<Suc i + length rs]"
    using upt_conv_Cons [of i "i + length (r # rs)"] by (simp del: upt_Suc)
  have "validateRoutes c i (r # rs) errs = validateRoute c i r errs @
      concat (map (\<lambda>(j, r). validateRoute c j r []) (zip [Suc i..<Suc i + length rs] rs))"
    by (simp only: validateRoutes.simps Cons)
  then show ?case
    using appendsD [OF appends_validateRoute, of c i r errs]
    by (simp only: upt zip_Cons_Cons list.map concat.simps prod.case append.assoc)
qed

definition all_errors :: "string list \<Rightarrow> config \<Rightarrow> validation_errors" where
  "all_errors order c = validateRoutes c 0 (cfg_routes c) (validateServers order c (validateSettings c []))"

lemma config_Validate_eq:
  "config_Validate order c = (if all_errors order c = [] then None else Some (all_errors order c))"
  by (simp add: config_Validate_def all_errors_def Let_def HasErrors_def)

lemma all_errors_concat:
  "all_errors order c = validateSettings c [] @
     concat (map (\<lambda>name. case cfg_servers c name of None \<Rightarrow> [] | Some srv \<Rightarrow> validateServer name srv []) order) @
     concat (map (\<lambda>(j, r). validateRoute c j r []) (zip [0..<length (cfg_routes c)] (cfg_routes c)))"
  by (simp add: all_errors_def validateRoutes_concat validateServers_concat)

section \<open>What a valid configuration satisfies\<close>

definition valid_url :: "string \<Rightarrow> bool" where
  "valid_url s \<longleftrightarrow> s \<noteq> [] \<and>
     (case url_Parse s of Inl _ \<Rightarrow> False | Inr u \<Rightarrow> url_scheme u \<in> {''http'', ''https''} \<and> url_host u \<noteq> [])"

definition valid_port :: "int \<Rightarrow> bool" where "valid_port p \<longleftrightarrow> 1 \<le> p \<and> p \<le> 65535"

text \<open>A duration may be left out (zero) but not be negative.\<close>

definition valid_duration :: "duration \<Rightarrow> bool" where "valid_duration d \<longleftrightarrow> 0 \<le> d"

definition valid_token :: "string \<Rightarrow> bool" where
  "valid_token t \<longleftrightarrow> (\<exists>user password. b64_decode t = Some (user @ CHR '':'' # password) \<and> user \<noteq> [] \<and> CHR '':'' \<notin> set user)"

definition valid_settings :: "settings_config \<Rightarrow> bool" where
  "valid_settings s \<longleftrightarrow>
     (gw_url (set_gwaihir s) = [] \<or> valid_url (gw_url (set_gwaihir s))) \<and>
     valid_duration (gw_timeout (set_gwaihir s)) \<and>
     log_level (set_logging s) \<in> {[], ''debug'', ''info'', ''warn'', ''error''} \<and>
     log_format (set_logging s) \<in> {[], ''json'', ''text''} \<and>
     (ep_enabled (obs_healthCheck (set_observability s)) \<longrightarrow> valid_port (ep_port (obs_healthCheck (set_observability s)))) \<and>
     (ep_enabled (obs_metrics (set_observability s)) \<longrightarrow> valid_port (ep_port (obs_metrics (set_observability s))))"

definition valid_server :: "server \<Rightarrow> bool" where
  "valid_server s \<longleftrightarrow>
     (wol_enabled (srv_wakeOnLan s) \<longrightarrow>
        valid_duration (wol_timeout (srv_wakeOnLan s)) \<and> valid_duration (wol_debounce (srv_wakeOnLan s))) \<and>
     (sol_enabled (srv_sleepOnLan s) \<longrightarrow>
        valid_url (sol_endpoint (srv_sleepOnLan s)) \<and> valid_duration (sol_idleTimeout (srv_sleepOnLan s))) \<and>
     (hc_endpoint (srv_healthCheck s) \<noteq> [] \<longrightarrow>
        valid_url (hc_endpoint (srv_healthCheck s)) \<and> valid_duration (hc_interval (srv_healthCheck s)) \<and>
        valid_duration (hc_timeout (srv_healthCheck s)) \<and>
        (SecretString_Value (hc_authToken (srv_healthCheck s)) = [] \<or>
           valid_token (SecretString_Value (hc_authToken (srv_healthCheck s)))))"

definition valid_route :: "config \<Rightarrow> route \<Rightarrow> bool" where
  "valid_route c r \<longleftrightarrow> route_name r \<noteq> [] \<and> valid_port (route_listen r) \<and> valid_url (route_upstream r) \<and>
     (route_server r = [] \<or> route_server r \<in> dom (cfg_servers c))"

definition valid_config :: "config \<Rightarrow> bool" where
  "valid_config c \<longleftrightarrow> valid_settings (cfg_settings c) \<and> (\<forall>s \<in> ran (cfg_servers c). valid_server s) \<and>
     (\<forall>r \<in> set (cfg_routes c). valid_route c r)"

lemma validateURL_iff: "validateURL s f = None \<longleftrightarrow> valid_url s"
  by (auto simp: validateURL_def valid_url_def split: sum.split)

lemma validatePort_iff: "validatePort p f = None \<longleftrightarrow> valid_port p"
  by (auto simp: validatePort_def valid_port_def)

lemma validateTimeout_iff: "validateTimeout d f = None \<longleftrightarrow> 0 < d"
  by (auto simp: validateTimeout_def)

lemma cut_decode: "cut sep s = (u, p, True) \<Longrightarrow> s = u @ sep # p \<and> sep \<notin> set u"
  by (induction s arbitrary: u p) (auto split: if_splits prod.splits)

lemma validateBasicAuthToken_iff: "validateBasicAuthToken t f = None \<longleftrightarrow> valid_token t"
proof
  assume ok: "validateBasicAuthToken t f = None"
  then obtain s where s: "b64_decode t = Some s"
    by (auto simp: validateBasicAuthToken_def split: option.splits)
  obtain u p found where c: "cut (CHR '':'') s = (u, p, found)" by (metis prod_cases3)
  with ok s have "found" "u \<noteq> []" by (auto simp: validateBasicAuthToken_def split: if_splits)
  with cut_decode [of "CHR '':''" s u p] c s show "valid_token t"
    unfolding valid_token_def by auto
next
  assume "valid_token t"
  then obtain u p where "b64_decode t = Some (u @ CHR '':'' # p)" "u \<noteq> []" "CHR '':'' \<notin> set u"
    by (auto simp: valid_token_def)
  then show "validateBasicAuthToken t f = None"
    by (simp add: validateBasicAuthToken_def cut_append)
qed

lemma errs_Add_nil_iff: "errs_Add e errs = [] \<longleftrightarrow> e = None \<and> errs = []"
  by (auto simp: errs_Add_def split: option.split)

lemmas check_iffs = errs_Add_nil_iff validateURL_iff validatePort_iff validateTimeout_iff
  validateBasicAuthToken_iff valid_duration_def

lemma validateSettings_iff: "validateSettings c [] = [] \<longleftrightarrow> valid_settings (cfg_settings c)"
proof -
  have "validateSettings c [] = validateGwaihir c [] @ validateLogging c [] @ validateObservability c []"
    unfolding validateSettings_def
    using appendsD [OF appends_validateLogging, of c "validateGwaihir c []"]
      appendsD [OF appends_validateObservability, of c "validateLogging c (validateGwaihir c [])"] by simp
  moreover have "validateGwaihir c [] = [] \<longleftrightarrow>
      (gw_url (set_gwaihir (cfg_settings c)) = [] \<or> valid_url (gw_url (set_gwaihir (cfg_settings c)))) \<and>
      valid_duration (gw_timeout (set_gwaihir (cfg_settings c)))"
    by (auto simp: validateGwaihir_def Let_def check_iffs)
  moreover have "validateLogging c [] = [] \<longleftrightarrow>
      log_level (set_logging (cfg_settings c)) \<in> {[], ''debug'', ''info'', ''warn'', ''error''} \<and>
      log_format (set_logging (cfg_settings c)) \<in> {[], ''json'', ''text''}"
    by (auto simp: validateLogging_def Let_def errs_Add_def validLogLevels_def validLogFormats_def)
  moreover have "validateObservability c [] = [] \<longleftrightarrow>
      (ep_enabled (obs_healthCheck (set_observability (cfg_settings c))) \<longrightarrow>
         valid_port (ep_port (obs_healthCheck (set_observability (cfg_settings c))))) \<and>
      (ep_enabled (obs_metrics (set_observability (cfg_settings c))) \<longrightarrow>
         valid_port (ep_port (obs_metrics (set_observability (cfg_settings c)))))"
    by (auto simp: validateObservability_def Let_def check_iffs)
  ultimately show ?thesis by (auto simp: valid_settings_def)
qed

lemma validateServer_iff: "validateServer name s [] = [] \<longleftrightarrow> valid_server s"
proof -
  have "validateServer name s [] = validateWakeOnLan name s [] @ validateSleepOnLan name s [] @ validateHealthCheck name s []"
    unfolding validateServer_def
    using appendsD [OF appends_validateSleepOnLan, of name s "validateWakeOnLan name s []"]
      appendsD [OF appends_validateHealthCheck, of name s "validateSleepOnLan name s (validateWakeOnLan name s [])"] by simp
  moreover have "validateWakeOnLan name s [] = [] \<longleftrightarrow> (wol_enabled (srv_wakeOnLan s) \<longrightarrow>
      valid_duration (wol_timeout (srv_wakeOnLan s)) \<and> valid_duration (wol_debounce (srv_wakeOnLan s)))"
    by (auto simp: validateWakeOnLan_def Let_def check_iffs)
  moreover have "validateSleepOnLan name s [] = [] \<longleftrightarrow> (sol_enabled (srv_sleepOnLan s) \<longrightarrow>
      valid_url (sol_endpoint (srv_sleepOnLan s)) \<and> valid_duration (sol_idleTimeout (srv_sleepOnLan s)))"
    by (auto simp: validateSleepOnLan_def Let_def check_iffs)
  moreover have "validateHealthCheck name s [] = [] \<longleftrightarrow> (hc_endpoint (srv_healthCheck s) \<noteq> [] \<longrightarrow>
      valid_url (hc_endpoint (srv_healthCheck s)) \<and> valid_duration (hc_interval (srv_healthCheck s)) \<and>
      valid_duration (hc_timeout (srv_healthCheck s)) \<and>
      (SecretString_Value (hc_authToken (srv_healthCheck s)) = [] \<or>
         valid_token (SecretString_Value (hc_authToken (srv_healthCheck s)))))"
    by (auto simp: validateHealthCheck_def Let_def check_iffs)
  ultimately show ?thesis by (simp add: valid_server_def)
qed

lemma validateRoute_iff: "validateRoute c i r [] = [] \<longleftrightarrow> valid_route c r"
  by (auto simp: validateRoute_def Let_def check_iffs valid_route_def)

lemma all_errors_nil_iff:
  assumes "range_order order (cfg_servers c)"
  shows "all_errors order c = [] \<longleftrightarrow> valid_config c"
proof -
  have "(\<forall>name \<in> set order. (case cfg_servers c name of None \<Rightarrow> [] | Some srv \<Rightarrow> validateServer name srv []) = [])
      \<longleftrightarrow> (\<forall>s \<in> ran (cfg_servers c). valid_server s)"
    using range_order_dom [OF assms] by (force simp: ran_def validateServer_iff split: option.split)
  moreover have "(\<forall>p \<in> set (zip [0..<length (cfg_routes c)] (cfg_routes c)). (case p of (j, r) \<Rightarrow> validateRoute c j r []) = [])
      \<longleftrightarrow> (\<forall>r \<in> set (cfg_routes c). valid_route c r)"
  proof -
    have "snd ` set (zip [0..<length (cfg_routes c)] (cfg_routes c)) = set (cfg_routes c)"
      by (metis length_upt list.set_map map_snd_zip minus_nat.diff_0)
    then show ?thesis
      by (force simp: validateRoute_iff)
  qed
  ultimately show ?thesis
    by (simp add: all_errors_concat valid_config_def validateSettings_iff)
qed

lemma all_errors_mset:
  assumes "range_order order (cfg_servers c)" and "range_order order' (cfg_servers c)"
  shows "mset (all_errors order c) = mset (all_errors order' c)"
proof -
  have "mset order = mset order'"
    using assms set_eq_iff_mset_eq_distinct [of order order'] by (simp add: range_order_def)
  then have "mset (concat (map f order)) = mset (concat (map f order'))" for f :: "string \<Rightarrow> validation_errors"
    by (metis mset_concat mset_map sum_mset_sum_list)
  then show ?thesis by (simp add: all_errors_concat)
qed

section \<open>Properties\<close>


definition sample_config :: config where
  "sample_config =
     \<lparr>cfg_settings = zero_settings,
      cfg_servers = [''nas'' \<mapsto> zero_server\<lparr>srv_sleepOnLan := zero_sol\<lparr>sol_enabled := True, sol_endpoint := ''http://nas/s''\<rparr>\<rparr>],
      cfg_routes = [\<lparr>route_name = ''web'', route_listen = 80, route_upstream = ''http://nas'', route_server = ''nas''\<rparr>]\<rparr>"


text \<open>The order in which the runtime visits the server map does not change the outcome of
  Validate: two visits report the same errors, as often, possibly in another order.\<close>
theorem Validate_errors_independent_of_map_order:
  assumes "range_order order (cfg_servers c)" and "range_order order' (cfg_servers c)"
  shows "map_option mset (config_Validate order c) = map_option mset (config_Validate order' c)"
  using all_errors_mset [OF assms] by (auto simp: config_Validate_eq)

lemma Validate_errors_independent_of_map_order_witness:
  "map_option mset (config_Validate [''a'', ''b'']
       (sample_config\<lparr>cfg_servers := [''a'' \<mapsto> zero_server, ''b'' \<mapsto> zero_server]\<rparr>)) =
   map_option mset (config_Validate [''b'', ''a'']
       (sample_config\<lparr>cfg_servers := [''a'' \<mapsto> zero_server, ''b'' \<mapsto> zero_server]\<rparr>))"
  by (rule Validate_errors_independent_of_map_order) (auto simp: range_order_def)

text \<open>Validation of an authentication token is the inverse of building one: the base64 encoding
  of \<open>user:password\<close> is accepted for every user name that is not empty and has no colon, and every
  password, colons included.\<close>
theorem encoded_credentials_are_accepted:
  assumes "user \<noteq> []" and "CHR '':'' \<notin> set user"
  shows "validateBasicAuthToken (b64_encode (user @ CHR '':'' # password)) field = None"
  unfolding validateBasicAuthToken_iff valid_token_def using assms b64_decode_encode by blast

lemma encoded_credentials_are_accepted_witness:
  "validateBasicAuthToken (b64_encode ''me:a:b'') ''f'' = None \<and> b64_encode ''me:a:b'' = ''bWU6YTpi''"
proof
  show "validateBasicAuthToken (b64_encode ''me:a:b'') ''f'' = None"
    using encoded_credentials_are_accepted [of "''me''" "''a:b''" "''f''"] by simp
  show "b64_encode ''me:a:b'' = ''bWU6YTpi''" by code_simp
qed

end
