(* ===== verification/ConfigManager.thy ===== *)
theory ConfigManager
  imports Validation Substitute Metrics Channel
begin

text \<open>
  Loading the configuration (\<open>internal/config/loader.go\<close>) and reloading it when the file changes
  (\<open>internal/config/manager.go\<close>). The watcher goroutine, the debounce timer, the goroutine of each
  reload, a caller of Stop and the consumer of the reload signal interleave; a step is one access
  to the state they share.
\<close>

section \<open>Load\<close>

text \<open>
  What \<open>Load\<close> finds around it: \<open>os.ReadFile\<close>, \<open>os.LookupEnv\<close>, the YAML decoder (with the order in
  which the runtime visits the decoded server map), and the texts of the errors that validation
  collects. A validation error is the sentinel of its errors; any other error is opaque here.
\<close>

type_synonym load_error = "validation_errors go_error"

record surroundings =
  sur_read :: "string \<Rightarrow> load_error + string"
  sur_env :: "string \<Rightarrow> string option"
  sur_unmarshal :: "string \<Rightarrow> load_error + config \<times> string list"
  sur_text :: "validation_error \<Rightarrow> string"

definition err_text :: "surroundings \<Rightarrow> load_error \<Rightarrow> string" where
  "err_text sur = error_text (ValidationErrors_Error (sur_text sur))"

definition Load :: "surroundings \<Rightarrow> string \<Rightarrow> load_error + config" where
  "Load sur path =
     (case sur_read sur path of
        Inl e \<Rightarrow> Inl (Errorf (''failed to read config file '' @ path @ '': '' @ err_text sur e) [e])
      | Inr data \<Rightarrow>
          let content = SubstituteEnv (sur_env sur) data in
          (case sur_unmarshal sur content of
             Inl e \<Rightarrow> Inl (Errorf (''failed to parse config file '' @ path @ '': '' @ err_text sur e) [e])
           | Inr (c, order) \<Rightarrow>
               (case config_Validate order c of
                  Some errs \<Rightarrow>
                    Inl (Errorf (''config validation failed: '' @ err_text sur (Sentinel errs)) [Sentinel errs])
                | None \<Rightarrow> Inr c)))"

text \<open>\<open>errors.As\<close> with a target of type \<open>*ValidationErrors\<close>.\<close>

fun IsValidationError :: "load_error \<Rightarrow> bool" where
  "IsValidationError (Sentinel errs) = True"
| "IsValidationError (Opaque m) = False"
| "IsValidationError (Errorf m es) = list_ex IsValidationError es"

text \<open>
  What the library functions promise: a visit of the decoded server map sees every key once, and
  no library error contains a \<open>ValidationErrors\<close> of this package.
\<close>

definition decoder_ok :: "surroundings \<Rightarrow> bool" where
  "decoder_ok sur \<longleftrightarrow>
     (\<forall>s c order. sur_unmarshal sur s = Inr (c, order) \<longrightarrow> range_order order (cfg_servers c)) \<and>
     (\<forall>s e. sur_unmarshal sur s = Inl e \<longrightarrow> \<not> IsValidationError e) \<and>
     (\<forall>p e. sur_read sur p = Inl e \<longrightarrow> \<not> IsValidationError e)"

lemma Load_Inr_iff:
  "Load sur path = Inr c \<longleftrightarrow>
     (\<exists>data order. sur_read sur path = Inr data \<and>
        sur_unmarshal sur (SubstituteEnv (sur_env sur) data) = Inr (c, order) \<and> config_Validate order c = None)"
  by (auto simp: Load_def Let_def split: sum.splits prod.splits option.splits)

lemma Load_valid:
  assumes "decoder_ok sur" and "Load sur path = Inr c"
  shows "valid_config c"
proof -
  from assms(2) obtain data order where
    "sur_unmarshal sur (SubstituteEnv (sur_env sur) data) = Inr (c, order)" and v: "config_Validate order c = None"
    unfolding Load_Inr_iff by blast
  with assms(1) have "range_order order (cfg_servers c)" by (simp add: decoder_ok_def)
  from all_errors_nil_iff [OF this] v show ?thesis
    by (simp add: config_Validate_eq split: if_splits)
qed

section \<open>The manager\<close>

text \<open>
  The \<open>atomic.Value\<close> holds a pointer to a configuration: the number of the allocation and what it
  points to. \<open>cm_done\<close> says that the channel is closed.
\<close>

type_synonym config_ptr = "nat \<times> config"

record config_manager =
  cm_config :: "config_ptr option"
  cm_path :: string
  cm_reloadCh :: "unit chan"
  cm_done :: bool
  cm_metrics :: registry

definition path_Base :: "string \<Rightarrow> string" where
  "path_Base p =
     (if p = [] then ''.''
      else let q = dropWhile (\<lambda>c. c = CHR ''/'') (rev p); b = rev (takeWhile (\<lambda>c. c \<noteq> CHR ''/'') q)
           in if b = [] then ''/'' else b)"

definition clean_elem :: "bool \<Rightarrow> string \<Rightarrow> string list \<Rightarrow> string list" where
  "clean_elem rooted e out =
     (if e = [] \<or> e = ''.'' then out
      else if e = ''..'' then
        (if out \<noteq> [] \<and> last out \<noteq> ''..'' then butlast out else if rooted then out else out @ [e])
      else out @ [e])"

definition path_Clean :: "string \<Rightarrow> string" where
  "path_Clean p =
     (let rooted = (p \<noteq> [] \<and> hd p = CHR ''/'');
          body = join_with ''/'' (fold (clean_elem rooted) (split_on (CHR ''/'') p) [])
      in if rooted then CHR ''/'' # body else if body = [] then ''.'' else body)"

definition path_Dir :: "string \<Rightarrow> string" where
  "path_Dir p = path_Clean (rev (dropWhile (\<lambda>c. c \<noteq> CHR ''/'') (rev p)))"

lemma path_examples:
  "path_Base ''/etc/smaug/config.yaml'' = ''config.yaml''" "path_Dir ''/etc/smaug/config.yaml'' = ''/etc/smaug''"
  "path_Base ''config.yaml'' = ''config.yaml''" "path_Dir ''config.yaml'' = ''.''"
  "path_Dir ''a/./b/../c.yaml'' = ''a''" "path_Base ''//'' = ''/''"
  by code_simp+

text \<open>\<open>watcherErr\<close> and \<open>addErr\<close> are the errors of creating the watcher and of watching the directory.\<close>

definition NewManager ::
  "surroundings \<Rightarrow> string option \<Rightarrow> string option \<Rightarrow> string \<Rightarrow> load_error + config_manager" where
  "NewManager sur watcherErr addErr path =
     (case Load sur path of
        Inl e \<Rightarrow> Inl (Errorf (''failed to load config '' @ path @ '': '' @ err_text sur e) [e])
      | Inr c \<Rightarrow>
          (case watcherErr of
             Some e \<Rightarrow> Inl (Errorf (''failed to create fsnotify watcher: '' @ e) [Opaque e])
           | None \<Rightarrow>
               (case addErr of
                  Some e \<Rightarrow> Inl (Errorf (''failed to add watcher for '' @ path_Dir path @ '': '' @ e) [Opaque e])
                | None \<Rightarrow> Inr \<lparr>cm_config = Some (0, c), cm_path = path, cm_reloadCh = make_chan 1,
                    cm_done = False, cm_metrics = None\<rparr>)))"

definition ConfigManager_SetMetrics :: "registry \<Rightarrow> config_manager \<Rightarrow> config_manager" where
  "ConfigManager_SetMetrics reg m = m\<lparr>cm_metrics := reg\<rparr>"

definition GetConfig :: "config_manager \<Rightarrow> config_ptr option" where
  "GetConfig m = cm_config m"

definition ReloadSignal :: "config_manager \<Rightarrow> unit chan" where
  "ReloadSignal m = cm_reloadCh m"

definition store_config :: "config_ptr \<Rightarrow> config_manager \<Rightarrow> config_manager" where
  "store_config p m = m\<lparr>cm_config := Some p\<rparr>"

definition signal_reload :: "config_manager \<Rightarrow> config_manager" where
  "signal_reload m =
     (case try_send () (cm_reloadCh m) of None \<Rightarrow> m | Some ch \<Rightarrow> m\<lparr>cm_reloadCh := ch\<rparr>)"

definition record_reload :: "bool \<Rightarrow> config_manager \<Rightarrow> config_manager" where
  "record_reload success m = m\<lparr>cm_metrics := RecordConfigReload success (cm_metrics m)\<rparr>"

text \<open>\<open>reload\<close> as one uninterrupted call; \<open>n\<close> is the address of the configuration it allocates.\<close>

definition config_reload :: "surroundings \<Rightarrow> nat \<Rightarrow> config_manager \<Rightarrow> config_manager" where
  "config_reload sur n m =
     (if cm_done m then m
      else (case Load sur (cm_path m) of
          Inl e \<Rightarrow> record_reload False m
        | Inr c \<Rightarrow> record_reload True (signal_reload (store_config (n, c) m))))"

section \<open>The goroutines\<close>

definition debounceDuration :: duration where "debounceDuration = 1 * second"

record file_event =
  ev_name :: string
  ev_write :: bool
  ev_create :: bool

datatype reload_pc = RCheck | RLoad | RStore config_ptr | RSignal | RRecord bool | RDone

datatype manager_stop_pc = MStopFresh | MStopWait | MStopClose | MStopReturned

datatype client_pc = ClientWait | ClientSignalled

text \<open>
  \<open>cs_watch\<close>: the watcher goroutine runs. \<open>cs_timer\<close>: when the pending timer is due. \<open>cs_client\<close> and
  \<open>cs_seen\<close>: the consumer of the signal, and the address of the configuration it took last.
  \<open>cs_event\<close> and \<open>cs_starts\<close> are history: the last event acted on, and when reloads began.
\<close>

record config_system =
  cs_mgr :: config_manager
  cs_sur :: surroundings
  cs_next :: nat
  cs_now :: time
  cs_watch :: bool
  cs_timer :: "time option"
  cs_reloads :: "reload_pc list"
  cs_stop :: manager_stop_pc
  cs_client :: client_pc
  cs_seen :: nat
  cs_event :: time
  cs_starts :: "time list"

definition boot_system :: "surroundings \<Rightarrow> time \<Rightarrow> config_manager \<Rightarrow> config_system" where
  "boot_system sur now m =
     \<lparr>cs_mgr = m, cs_sur = sur, cs_next = 1, cs_now = now, cs_watch = True, cs_timer = None, cs_reloads = [],
      cs_stop = MStopFresh, cs_client = ClientWait, cs_seen = 0, cs_event = now, cs_starts = []\<rparr>"

text \<open>One round of the loop of \<open>watch\<close> that takes an event.\<close>

definition watch_event :: "file_event \<Rightarrow> config_system \<Rightarrow> config_system" where
  "watch_event ev s =
     (if path_Base (ev_name ev) \<noteq> path_Base (cm_path (cs_mgr s)) then s
      else if ev_write ev \<or> ev_create ev
        then s\<lparr>cs_timer := Some (cs_now s + debounceDuration), cs_event := cs_now s\<rparr>
      else s)"

text \<open>The return of \<open>watch\<close>, with its deferred calls.\<close>

definition watch_return :: "config_system \<Rightarrow> config_system" where
  "watch_return s = s\<lparr>cs_timer := None, cs_watch := False\<rparr>"

text \<open>A round that takes something from the errors channel of the watcher: an error, which is only logged, or
  the closing of the channel.\<close>

definition watch_error :: "string option \<Rightarrow> config_system \<Rightarrow> config_system" where
  "watch_error err s = (case err of None \<Rightarrow> watch_return s | Some e \<Rightarrow> s)"

definition timer_fire :: "config_system \<Rightarrow> config_system option" where
  "timer_fire s =
     (case cs_timer s of
        Some due \<Rightarrow>
          if due \<le> cs_now s
          then Some (s\<lparr>cs_timer := None, cs_reloads := cs_reloads s @ [RCheck], cs_starts := cs_now s # cs_starts s\<rparr>)
          else None
      | None \<Rightarrow> None)"

text \<open>The steps of one goroutine running \<open>reload\<close>.\<close>

definition reload_step :: "nat \<Rightarrow> config_system \<Rightarrow> config_system option" where
  "reload_step i s =
     (if i < length (cs_reloads s) then
        (case cs_reloads s ! i of
           RCheck \<Rightarrow> Some (s\<lparr>cs_reloads := (cs_reloads s)[i := (if cm_done (cs_mgr s) then RDone else RLoad)]\<rparr>)
         | RLoad \<Rightarrow>
             (case Load (cs_sur s) (cm_path (cs_mgr s)) of
                Inl e \<Rightarrow> Some (s\<lparr>cs_reloads := (cs_reloads s)[i := RRecord False]\<rparr>)
              | Inr c \<Rightarrow> Some (s\<lparr>cs_reloads := (cs_reloads s)[i := RStore (cs_next s, c)], cs_next := Suc (cs_next s)\<rparr>))
         | RStore p \<Rightarrow>
             Some (s\<lparr>cs_mgr := store_config p (cs_mgr s), cs_reloads := (cs_reloads s)[i := RSignal]\<rparr>)
         | RSignal \<Rightarrow>
             Some (s\<lparr>cs_mgr := signal_reload (cs_mgr s), cs_reloads := (cs_reloads s)[i := RRecord True]\<rparr>)
         | RRecord b \<Rightarrow>
             Some (s\<lparr>cs_mgr := record_reload b (cs_mgr s), cs_reloads := (cs_reloads s)[i := RDone]\<rparr>)
         | RDone \<Rightarrow> None)
      else None)"

text \<open>The call of \<open>Stop\<close> that wins \<open>stopOnce\<close>: close done, wait for the watcher goroutine, close the watcher.\<close>

definition ConfigManager_Stop :: "config_system \<Rightarrow> config_system option" where
  "ConfigManager_Stop s =
     (case cs_stop s of
        MStopFresh \<Rightarrow> Some (s\<lparr>cs_mgr := (cs_mgr s)\<lparr>cm_done := True\<rparr>, cs_stop := MStopWait\<rparr>)
      | MStopWait \<Rightarrow> if cs_watch s then None else Some (s\<lparr>cs_stop := MStopClose\<rparr>)
      | MStopClose \<Rightarrow> Some (s\<lparr>cs_stop := MStopReturned\<rparr>)
      | MStopReturned \<Rightarrow> None)"

text \<open>The consumer: receive the signal, then read the configuration.\<close>

definition client_step :: "config_system \<Rightarrow> config_system option" where
  "client_step s =
     (case cs_client s of
        ClientWait \<Rightarrow>
          (case try_recv (ReloadSignal (cs_mgr s)) of
             None \<Rightarrow> None
           | Some (u, ch) \<Rightarrow> Some (s\<lparr>cs_mgr := (cs_mgr s)\<lparr>cm_reloadCh := ch\<rparr>, cs_client := ClientSignalled\<rparr>))
      | ClientSignalled \<Rightarrow>
          Some (s\<lparr>cs_client := ClientWait, cs_seen := (case GetConfig (cs_mgr s) of Some p \<Rightarrow> fst p | None \<Rightarrow> cs_seen s)\<rparr>))"

datatype config_action =
    CEdit surroundings
  | CTick duration
  | CEvent file_event
  | CFire
  | CReload nat
  | CWatchDone
  | CEventsClosed
  | CWatchError "string option"
  | CStop
  | CClient

fun config_exec :: "config_action \<Rightarrow> config_system \<Rightarrow> config_system option" where
  "config_exec (CEdit sur) s = Some (s\<lparr>cs_sur := sur\<rparr>)"
| "config_exec (CTick d) s = (if 0 \<le> d then Some (s\<lparr>cs_now := cs_now s + d\<rparr>) else None)"
| "config_exec (CEvent ev) s = (if cs_watch s then Some (watch_event ev s) else None)"
| "config_exec CFire s = timer_fire s"
| "config_exec (CReload i) s = reload_step i s"
| "config_exec CWatchDone s = (if cs_watch s \<and> cm_done (cs_mgr s) then Some (watch_return s) else None)"
| "config_exec CEventsClosed s = (if cs_watch s then Some (watch_return s) else None)"
| "config_exec (CWatchError err) s = (if cs_watch s then Some (watch_error err s) else None)"
| "config_exec CStop s = ConfigManager_Stop s"
| "config_exec CClient s = client_step s"

fun action_ok :: "config_action \<Rightarrow> bool" where
  "action_ok (CEdit sur) = decoder_ok sur"
| "action_ok _ = True"

inductive config_step :: "config_system \<Rightarrow> config_system \<Rightarrow> bool" where
  config_exec_step: "action_ok a \<Longrightarrow> config_exec a s = Some t \<Longrightarrow> config_step s t"

inductive_cases config_stepE: "config_step s t"

definition config_init :: "config_system \<Rightarrow> bool" where
  "config_init s \<longleftrightarrow> (\<exists>sur we ae path m reg now. decoder_ok sur \<and> NewManager sur we ae path = Inr m \<and>
     s = boot_system sur now (ConfigManager_SetMetrics reg m))"

fun config_run :: "config_action list \<Rightarrow> config_system \<Rightarrow> config_system option" where
  "config_run [] s = Some s"
| "config_run (a # as) s = (case config_exec a s of None \<Rightarrow> None | Some t \<Rightarrow> config_run as t)"

lemma config_run_steps:
  "list_all action_ok as \<Longrightarrow> config_run as s = Some t \<Longrightarrow> config_step\<^sup>*\<^sup>* s t"
proof (induction as arbitrary: s)
  case Nil
  then show ?case by simp
next
  case (Cons a as)
  then show ?case
    by (auto split: option.splits intro: converse_rtranclp_into_rtranclp config_exec_step)
qed

lemma config_run_append:
  "config_run (as @ bs) s = (case config_run as s of None \<Rightarrow> None | Some t \<Rightarrow> config_run bs t)"
  by (induction as arbitrary: s) (auto split: option.splits)

section \<open>Invariants\<close>

fun pc_valid :: "reload_pc \<Rightarrow> bool" where
  "pc_valid (RStore p) = valid_config (snd p)"
| "pc_valid _ = True"

text \<open>A signal is on its way to the consumer.\<close>

definition signal_underway :: "config_system \<Rightarrow> bool" where
  "signal_underway s \<longleftrightarrow> ch_buf (cm_reloadCh (cs_mgr s)) \<noteq> [] \<or> RSignal \<in> set (cs_reloads s) \<or>
     cs_client s = ClientSignalled"

definition config_inv :: "config_system \<Rightarrow> bool" where
  "config_inv s \<longleftrightarrow> decoder_ok (cs_sur s) \<and> list_all pc_valid (cs_reloads s) \<and>
     ch_cap (cm_reloadCh (cs_mgr s)) = 1 \<and>
     (\<exists>p. cm_config (cs_mgr s) = Some p \<and> valid_config (snd p) \<and> (fst p \<noteq> cs_seen s \<longrightarrow> signal_underway s))"

lemma list_all_update: "list_all P xs \<Longrightarrow> P x \<Longrightarrow> list_all P (xs[i := x])"
  unfolding list_all_iff using set_update_subset_insert [of xs i x] by blast

lemma set_update_keeps: "y \<in> set xs \<Longrightarrow> xs ! i \<noteq> y \<Longrightarrow> y \<in> set (xs[i := x])"
  by (metis in_set_conv_nth length_list_update nth_list_update_neq)

lemma config_inv_keep:
  assumes "config_inv s" and "cm_config (cs_mgr t) = cm_config (cs_mgr s)" and "cs_seen t = cs_seen s"
    and "decoder_ok (cs_sur t)" and "list_all pc_valid (cs_reloads t)" and "ch_cap (cm_reloadCh (cs_mgr t)) = 1"
    and "signal_underway s \<Longrightarrow> signal_underway t"
  shows "config_inv t"
  using assms unfolding config_inv_def by metis

lemma signal_reload_facts:
  assumes "ch_cap (cm_reloadCh m) = 1"
  shows "ch_buf (cm_reloadCh (signal_reload m)) \<noteq> []" and "ch_cap (cm_reloadCh (signal_reload m)) = 1"
    and "cm_config (signal_reload m) = cm_config m"
proof -
  have "ch_buf (cm_reloadCh (signal_reload m)) \<noteq> [] \<and> ch_cap (cm_reloadCh (signal_reload m)) = 1 \<and>
      cm_config (signal_reload m) = cm_config m"
  proof (cases "try_send () (cm_reloadCh m)")
    case None
    with assms chan.send_NoneD [OF None] show ?thesis by (auto simp: signal_reload_def)
  next
    case (Some ch)
    with assms chan.send_SomeD [OF Some] show ?thesis by (simp add: signal_reload_def)
  qed
  then show "ch_buf (cm_reloadCh (signal_reload m)) \<noteq> []" "ch_cap (cm_reloadCh (signal_reload m)) = 1"
    "cm_config (signal_reload m) = cm_config m" by blast+
qed

lemma reload_step_inv:
  assumes inv: "config_inv s" and st: "reload_step i s = Some t"
  shows "config_inv t"
proof -
  from st have i: "i < length (cs_reloads s)" by (simp add: reload_step_def split: if_splits)
  have base: "decoder_ok (cs_sur s)" "list_all pc_valid (cs_reloads s)" "ch_cap (cm_reloadCh (cs_mgr s)) = 1"
    using inv by (simp_all add: config_inv_def)
  have keep: "signal_underway s \<Longrightarrow> cs_reloads s ! i \<noteq> RSignal \<Longrightarrow>
      RSignal \<in> set ((cs_reloads s)[i := pc]) \<or> ch_buf (cm_reloadCh (cs_mgr s)) \<noteq> [] \<or> cs_client s = ClientSignalled" for pc
    unfolding signal_underway_def using set_update_keeps by metis
  show ?thesis
  proof (cases "cs_reloads s ! i")
    case RCheck
    with st i have "t = s\<lparr>cs_reloads := (cs_reloads s)[i := (if cm_done (cs_mgr s) then RDone else RLoad)]\<rparr>"
      by (simp add: reload_step_def)
    with RCheck base keep show ?thesis
      by (intro config_inv_keep [OF inv]) (auto intro!: list_all_update simp: signal_underway_def)
  next
    case RLoad
    show ?thesis
    proof (cases "Load (cs_sur s) (cm_path (cs_mgr s))")
      case (Inl e)
      with RLoad st i have "t = s\<lparr>cs_reloads := (cs_reloads s)[i := RRecord False]\<rparr>"
        by (simp add: reload_step_def)
      with RLoad base keep show ?thesis
        by (intro config_inv_keep [OF inv]) (auto intro!: list_all_update simp: signal_underway_def)
    next
      case (Inr c)
      with RLoad st i have "t = s\<lparr>cs_reloads := (cs_reloads s)[i := RStore (cs_next s, c)], cs_next := Suc (cs_next s)\<rparr>"
        by (simp add: reload_step_def)
      moreover have "valid_config c" by (rule Load_valid [OF base(1) Inr])
      ultimately show ?thesis using RLoad base keep
        by (intro config_inv_keep [OF inv]) (auto intro!: list_all_update simp: signal_underway_def)
    qed
  next
    case (RStore p)
    with st i have t: "t = s\<lparr>cs_mgr := store_config p (cs_mgr s), cs_reloads := (cs_reloads s)[i := RSignal]\<rparr>"
      by (simp add: reload_step_def)
    have "pc_valid (cs_reloads s ! i)" using base(2) i by (simp add: list_all_length)
    moreover have "RSignal \<in> set ((cs_reloads s)[i := RSignal])" using i by (rule set_update_memI)
    ultimately show ?thesis using RStore base
      by (auto simp: t config_inv_def store_config_def signal_underway_def intro: list_all_update)
  next
    case RSignal
    with st i have t: "t = s\<lparr>cs_mgr := signal_reload (cs_mgr s), cs_reloads := (cs_reloads s)[i := RRecord True]\<rparr>"
      by (simp add: reload_step_def)
    note signal_reload_facts [OF base(3)]
    with base show ?thesis
      by (intro config_inv_keep [OF inv]) (auto simp: t signal_underway_def intro: list_all_update)
  next
    case (RRecord b)
    with st i have "t = s\<lparr>cs_mgr := record_reload b (cs_mgr s), cs_reloads := (cs_reloads s)[i := RDone]\<rparr>"
      by (simp add: reload_step_def)
    with RRecord base keep show ?thesis
      by (intro config_inv_keep [OF inv]) (auto intro!: list_all_update simp: signal_underway_def record_reload_def)
  next
    case RDone
    with st i show ?thesis by (simp add: reload_step_def)
  qed
qed

lemma client_step_inv:
  assumes inv: "config_inv s" and st: "client_step s = Some t"
  shows "config_inv t"
proof (cases "cs_client s")
  case ClientWait
  with st obtain u ch where ch: "try_recv (cm_reloadCh (cs_mgr s)) = Some (u, ch)"
    and "t = s\<lparr>cs_mgr := (cs_mgr s)\<lparr>cm_reloadCh := ch\<rparr>, cs_client := ClientSignalled\<rparr>"
    by (auto simp: client_step_def ReloadSignal_def split: option.splits)
  with chan.recv_SomeD(2) [OF ch] inv show ?thesis
    by (auto simp: config_inv_def signal_underway_def)
next
  case ClientSignalled
  with st inv show ?thesis
    by (auto simp: client_step_def GetConfig_def config_inv_def)
qed

lemma config_exec_inv:
  assumes inv: "config_inv s" and ok: "action_ok a" and st: "config_exec a s = Some t"
  shows "config_inv t"
proof (cases a)
  case (CReload i)
  with st reload_step_inv [OF inv] show ?thesis by simp
next
  case CClient
  with st client_step_inv [OF inv] show ?thesis by simp
qed (use inv ok st in \<open>auto simp: config_inv_def signal_underway_def watch_event_def watch_return_def watch_error_def timer_fire_def
       ConfigManager_Stop_def split: if_splits option.splits manager_stop_pc.splits\<close>)

lemma NewManager_Inr_iff:
  "NewManager sur we ae path = Inr m \<longleftrightarrow> we = None \<and> ae = None \<and>
     (\<exists>c. Load sur path = Inr c \<and> m = \<lparr>cm_config = Some (0, c), cm_path = path, cm_reloadCh = make_chan 1,
        cm_done = False, cm_metrics = None\<rparr>)"
  by (cases "Load sur path") (auto simp: NewManager_def split: option.split)

lemma config_initE:
  assumes "config_init s"
  obtains sur c path reg now where "decoder_ok sur" and "Load sur path = Inr c"
    and "s = boot_system sur now \<lparr>cm_config = Some (0, c), cm_path = path, cm_reloadCh = make_chan 1,
        cm_done = False, cm_metrics = reg\<rparr>"
  using assms by (auto simp: config_init_def NewManager_Inr_iff ConfigManager_SetMetrics_def)

lemma config_inv_init: "config_init s \<Longrightarrow> config_inv s"
  by (elim config_initE) (simp add: boot_system_def config_inv_def Load_valid)

interpretation configs: invariant_system config_init config_step config_inv
  by unfold_locales (auto intro: config_inv_init config_exec_inv elim!: config_stepE)

section \<open>Time\<close>

fun spaced :: "duration \<Rightarrow> time list \<Rightarrow> bool" where
  "spaced d (t # u # ts) \<longleftrightarrow> u + d \<le> t \<and> spaced d (u # ts)"
| "spaced d _ \<longleftrightarrow> True"

definition latest_by :: "time \<Rightarrow> time list \<Rightarrow> bool" where
  "latest_by t ts \<longleftrightarrow> (case ts of [] \<Rightarrow> True | u # _ \<Rightarrow> u \<le> t)"

definition debounce_inv :: "config_system \<Rightarrow> bool" where
  "debounce_inv s \<longleftrightarrow> cs_event s \<le> cs_now s \<and> latest_by (cs_now s) (cs_starts s) \<and>
     spaced debounceDuration (cs_starts s) \<and> length (cs_starts s) = length (cs_reloads s) \<and>
     (\<forall>due. cs_timer s = Some due \<longrightarrow> due = cs_event s + debounceDuration \<and> latest_by (cs_event s) (cs_starts s)) \<and>
     (\<not> cs_watch s \<longrightarrow> cs_timer s = None) \<and>
     (cs_stop s = MStopClose \<or> cs_stop s = MStopReturned \<longrightarrow> \<not> cs_watch s) \<and>
     (cm_done (cs_mgr s) \<longleftrightarrow> cs_stop s \<noteq> MStopFresh)"

lemma spaced_Cons: "latest_by e ts \<Longrightarrow> spaced d ts \<Longrightarrow> e + d \<le> t \<Longrightarrow> spaced d (t # ts)"
  by (cases ts) (auto simp: latest_by_def)

lemma latest_by_mono: "latest_by t ts \<Longrightarrow> t \<le> u \<Longrightarrow> latest_by u ts"
  by (cases ts) (auto simp: latest_by_def)

lemma reload_step_frame:
  assumes "reload_step i s = Some t"
  shows "cs_event t = cs_event s \<and> cs_now t = cs_now s \<and> cs_starts t = cs_starts s \<and> cs_timer t = cs_timer s \<and>
    cs_watch t = cs_watch s \<and> cs_stop t = cs_stop s \<and> cm_done (cs_mgr t) = cm_done (cs_mgr s) \<and>
    length (cs_reloads t) = length (cs_reloads s)"
  using assms
  by (auto simp: reload_step_def store_config_def signal_reload_def record_reload_def
      split: if_splits reload_pc.splits sum.splits option.splits)

lemma client_step_frame:
  assumes "client_step s = Some t"
  shows "cs_event t = cs_event s \<and> cs_now t = cs_now s \<and> cs_starts t = cs_starts s \<and> cs_timer t = cs_timer s \<and>
    cs_watch t = cs_watch s \<and> cs_stop t = cs_stop s \<and> cm_done (cs_mgr t) = cm_done (cs_mgr s) \<and>
    cs_reloads t = cs_reloads s"
  using assms by (auto simp: client_step_def split: client_pc.splits option.splits)

lemma debounce_exec_inv:
  assumes inv: "debounce_inv s" and st: "config_exec a s = Some t"
  shows "debounce_inv t"
proof (cases a)
  case (CReload i)
  with st have "reload_step i s = Some t" by simp
  from reload_step_frame [OF this] inv show ?thesis unfolding debounce_inv_def by metis
next
  case CClient
  with st have "client_step s = Some t" by simp
  from client_step_frame [OF this] inv show ?thesis unfolding debounce_inv_def by metis
next
  case (CTick d)
  with inv st show ?thesis
    by (auto simp: debounce_inv_def intro: latest_by_mono [where t = "cs_now s"] split: if_splits)
next
  case CFire
  with st obtain due where due: "cs_timer s = Some due" "due \<le> cs_now s"
    and t: "t = s\<lparr>cs_timer := None, cs_reloads := cs_reloads s @ [RCheck], cs_starts := cs_now s # cs_starts s\<rparr>"
    by (auto simp: timer_fire_def split: option.splits if_splits)
  have "latest_by (cs_event s) (cs_starts s)" "spaced debounceDuration (cs_starts s)"
    "cs_event s + debounceDuration \<le> cs_now s"
    using inv due by (auto simp: debounce_inv_def)
  from spaced_Cons [OF this] inv t due show ?thesis
    by (auto simp: debounce_inv_def latest_by_def)
next
  case (CEdit sur)
  with inv st show ?thesis by (auto simp: debounce_inv_def)
next
  case (CEvent ev)
  with st have w: "cs_watch s" and t: "t = watch_event ev s" by (auto split: if_splits)
  from inv w have "latest_by (cs_now s) (cs_starts s)" by (simp add: debounce_inv_def)
  with inv w show ?thesis by (simp add: t watch_event_def debounce_inv_def)
next
  case CWatchDone
  with st have "t = watch_return s" by (auto split: if_splits)
  with inv show ?thesis by (simp add: watch_return_def debounce_inv_def)
next
  case CEventsClosed
  with st have "t = watch_return s" by (auto split: if_splits)
  with inv show ?thesis by (simp add: watch_return_def debounce_inv_def)
next
  case (CWatchError err)
  with st have "t = watch_return s \<or> t = s" by (auto simp: watch_error_def split: if_splits option.splits)
  with inv show ?thesis by (auto simp: watch_return_def debounce_inv_def)
next
  case CStop
  with st have stop: "ConfigManager_Stop s = Some t" by simp
  show ?thesis
  proof (cases "cs_stop s")
    case MStopFresh
    with stop have "t = s\<lparr>cs_mgr := (cs_mgr s)\<lparr>cm_done := True\<rparr>, cs_stop := MStopWait\<rparr>"
      by (simp add: ConfigManager_Stop_def)
    with inv show ?thesis by (simp add: debounce_inv_def)
  next
    case MStopWait
    with stop have "\<not> cs_watch s" "t = s\<lparr>cs_stop := MStopClose\<rparr>"
      by (auto simp: ConfigManager_Stop_def split: if_splits)
    with MStopWait inv show ?thesis by (simp add: debounce_inv_def)
  next
    case MStopClose
    with stop have "t = s\<lparr>cs_stop := MStopReturned\<rparr>" by (simp add: ConfigManager_Stop_def)
    with MStopClose inv show ?thesis by (simp add: debounce_inv_def)
  next
    case MStopReturned
    with stop show ?thesis by (simp add: ConfigManager_Stop_def)
  qed
qed

lemma debounce_inv_init: "config_init s \<Longrightarrow> debounce_inv s"
  by (elim config_initE) (simp add: boot_system_def debounce_inv_def latest_by_def)

interpretation debounced: invariant_system config_init config_step debounce_inv
  by unfold_locales (auto intro: debounce_inv_init debounce_exec_inv elim!: config_stepE)

section \<open>After Stop\<close>

text \<open>No reload is past its check of the done channel.\<close>

definition no_reload_underway :: "config_system \<Rightarrow> bool" where
  "no_reload_underway s \<longleftrightarrow> list_all (\<lambda>pc. pc = RCheck \<or> pc = RDone) (cs_reloads s)"

definition halted :: "config_system \<Rightarrow> bool" where
  "halted s \<longleftrightarrow> \<not> cs_watch s \<and> cs_timer s = None \<and> cm_done (cs_mgr s)"

lemma halted_exec:
  assumes h: "halted s" and st: "config_exec a s = Some t"
  shows "halted t \<and> cs_starts t = cs_starts s \<and>
    (no_reload_underway s \<longrightarrow> no_reload_underway t \<and> cm_config (cs_mgr t) = cm_config (cs_mgr s))"
proof (cases a)
  case (CReload i)
  with st have rs: "reload_step i s = Some t" by simp
  have "no_reload_underway t \<and> cm_config (cs_mgr t) = cm_config (cs_mgr s)" if idle: "no_reload_underway s"
  proof -
    from rs have i: "i < length (cs_reloads s)" by (simp add: reload_step_def split: if_splits)
    with idle have "cs_reloads s ! i = RCheck \<or> cs_reloads s ! i = RDone"
      unfolding no_reload_underway_def list_all_length by blast
    with rs i h have "t = s\<lparr>cs_reloads := (cs_reloads s)[i := RDone]\<rparr>"
      by (auto simp: reload_step_def halted_def)
    with idle show ?thesis by (simp add: no_reload_underway_def list_all_update)
  qed
  with reload_step_frame [OF rs] h show ?thesis by (simp add: halted_def)
next
  case CClient
  with st have cl: "client_step s = Some t" by simp
  then have "cm_config (cs_mgr t) = cm_config (cs_mgr s)"
    by (auto simp: client_step_def split: client_pc.splits option.splits)
  with client_step_frame [OF cl] h show ?thesis by (simp add: halted_def no_reload_underway_def)
qed (use h st in \<open>auto simp: halted_def no_reload_underway_def timer_fire_def ConfigManager_Stop_def
       split: if_splits manager_stop_pc.splits\<close>)

lemma halted_steps:
  assumes "config_step\<^sup>*\<^sup>* s t" and "halted s"
  shows "halted t \<and> cs_starts t = cs_starts s \<and>
    (no_reload_underway s \<longrightarrow> no_reload_underway t \<and> cm_config (cs_mgr t) = cm_config (cs_mgr s))"
  using assms
proof (induction rule: rtranclp_induct)
  case base
  then show ?case by simp
next
  case (step t u)
  from \<open>config_step t u\<close> obtain a where "config_exec a t = Some u" by (elim config_stepE)
  from halted_exec [OF _ this] step show ?case by simp
qed

section \<open>A reload on its own\<close>

lemma reload_alone:
  assumes i: "i < length (cs_reloads s)" and pc: "cs_reloads s ! i = RCheck"
  shows "\<exists>k t. k \<le> 5 \<and> config_run (replicate k (CReload i)) s = Some t \<and>
    cs_mgr t = config_reload (cs_sur s) (cs_next s) (cs_mgr s) \<and> cs_reloads t = (cs_reloads s)[i := RDone]"
proof (cases "cm_done (cs_mgr s)")
  case True
  with i pc have "config_run (replicate 1 (CReload i)) s = Some (s\<lparr>cs_reloads := (cs_reloads s)[i := RDone]\<rparr>)"
    by (simp add: reload_step_def)
  with True show ?thesis
    by (intro exI [of _ 1] exI [of _ "s\<lparr>cs_reloads := (cs_reloads s)[i := RDone]\<rparr>"]) (simp add: config_reload_def)
next
  case False
  show ?thesis
  proof (cases "Load (cs_sur s) (cm_path (cs_mgr s))")
    case (Inl e)
    let ?t = "s\<lparr>cs_reloads := (cs_reloads s)[i := RDone], cs_mgr := record_reload False (cs_mgr s)\<rparr>"
    have "config_run (replicate 3 (CReload i)) s = Some ?t"
      using i pc False Inl by (simp add: numeral_3_eq_3 reload_step_def)
    with False Inl show ?thesis
      by (intro exI [of _ 3] exI [of _ ?t]) (simp add: config_reload_def)
  next
    case (Inr c)
    let ?m = "record_reload True (signal_reload (store_config (cs_next s, c) (cs_mgr s)))"
    let ?t = "s\<lparr>cs_reloads := (cs_reloads s)[i := RDone], cs_next := Suc (cs_next s), cs_mgr := ?m\<rparr>"
    have "config_run (replicate 5 (CReload i)) s = Some ?t"
      using i pc False Inr by (simp add: eval_nat_numeral reload_step_def)
    with False Inr show ?thesis
      by (intro exI [of _ 5] exI [of _ ?t]) (simp add: config_reload_def)
  qed
qed

section \<open>The consumer catches up\<close>

lemma client_reads:
  assumes "cs_client s = ClientSignalled" and "cm_config (cs_mgr s) = Some p"
  shows "\<exists>t. config_exec CClient s = Some t \<and> cs_seen t = fst p \<and> cm_config (cs_mgr t) = Some p"
  using assms by (simp add: client_step_def GetConfig_def)

lemma client_receives:
  assumes "ch_buf (cm_reloadCh (cs_mgr s)) \<noteq> []" and "cs_client s = ClientWait"
  shows "\<exists>t. config_exec CClient s = Some t \<and> cs_client t = ClientSignalled \<and> cm_config (cs_mgr t) = cm_config (cs_mgr s)"
  using assms by (cases "ch_buf (cm_reloadCh (cs_mgr s))") (auto simp: client_step_def ReloadSignal_def try_recv_def)

lemma client_takes:
  assumes "ch_buf (cm_reloadCh (cs_mgr s)) \<noteq> [] \<or> cs_client s = ClientSignalled" and "cm_config (cs_mgr s) = Some p"
  shows "\<exists>as t. length as \<le> 2 \<and> list_all (\<lambda>a. a = CClient) as \<and> config_run as s = Some t \<and> cs_seen t = fst p"
proof (cases "cs_client s")
  case ClientSignalled
  from client_reads [OF this assms(2)] obtain t where "config_exec CClient s = Some t" "cs_seen t = fst p" by blast
  then show ?thesis by (intro exI [of _ "[CClient]"] exI [of _ t]) simp
next
  case ClientWait
  with assms client_receives obtain u where u: "config_exec CClient s = Some u" "cs_client u = ClientSignalled"
    "cm_config (cs_mgr u) = Some p" by force
  from client_reads [OF u(2,3)] obtain t where "config_exec CClient u = Some t" "cs_seen t = fst p" by blast
  with u show ?thesis by (intro exI [of _ "[CClient, CClient]"] exI [of _ t]) simp
qed

lemma client_catches_up:
  assumes inv: "config_inv s" and sig: "signal_underway s" and p: "cm_config (cs_mgr s) = Some p"
  shows "\<exists>as t. length as \<le> 3 \<and> config_run as s = Some t \<and> cs_seen t = fst p"
proof (cases "ch_buf (cm_reloadCh (cs_mgr s)) \<noteq> [] \<or> cs_client s = ClientSignalled")
  case True
  from client_takes [OF this p] show ?thesis by force
next
  case False
  with sig obtain i where i: "i < length (cs_reloads s)" "cs_reloads s ! i = RSignal"
    by (auto simp: signal_underway_def in_set_conv_nth)
  define u where "u = s\<lparr>cs_mgr := signal_reload (cs_mgr s), cs_reloads := (cs_reloads s)[i := RRecord True]\<rparr>"
  have cap: "ch_cap (cm_reloadCh (cs_mgr s)) = 1" using inv by (simp add: config_inv_def)
  have step: "config_exec (CReload i) s = Some u" using i by (simp add: reload_step_def u_def)
  have "ch_buf (cm_reloadCh (cs_mgr u)) \<noteq> [] \<or> cs_client u = ClientSignalled" "cm_config (cs_mgr u) = Some p"
    using signal_reload_facts [OF cap] p by (simp_all add: u_def)
  from client_takes [OF this] obtain as t where "length as \<le> 2" "config_run as u = Some t" "cs_seen t = fst p"
    by blast
  with step show ?thesis by (intro exI [of _ "CReload i # as"] exI [of _ t]) simp
qed

section \<open>Example\<close>

text \<open>A file of one character, which the decoder of the example turns into one of two configurations.\<close>

definition file_surroundings :: "string \<Rightarrow> surroundings" where
  "file_surroundings data =
     \<lparr>sur_read = (\<lambda>p. Inr data), sur_env = (\<lambda>v. None),
      sur_unmarshal = (\<lambda>s. if s = ''a'' then Inr (sample_config, [''nas''])
        else if s = ''b'' then Inr (sample_config\<lparr>cfg_routes := []\<rparr>, [''nas''])
        else Inl (Opaque ''yaml'')),
      sur_text = (\<lambda>e. [])\<rparr>"

definition file_written :: file_event where
  "file_written = \<lparr>ev_name = ''d/c'', ev_write = True, ev_create = False\<rparr>"

definition example_system :: config_system where
  "example_system = boot_system (file_surroundings ''a'') 0
     \<lparr>cm_config = Some (0, sample_config), cm_path = ''d/c'', cm_reloadCh = make_chan 1, cm_done = False,
      cm_metrics = Some []\<rparr>"

lemma file_surroundings_ok: "decoder_ok (file_surroundings data)"
  by (auto simp: decoder_ok_def file_surroundings_def range_order_def sample_config_def split: if_splits)

lemma example_init: "config_init example_system"
proof -
  have "Load (file_surroundings ''a'') ''d/c'' = Inr sample_config"
  proof -
    have "config_Validate [''nas''] sample_config = None" by code_simp
    moreover have "SubstituteEnv (\<lambda>v. None) ''a'' = ''a''" by code_simp
    ultimately show ?thesis by (simp add: Load_def file_surroundings_def)
  qed
  then show ?thesis
    unfolding config_init_def example_system_def
    by (intro exI [of _ "file_surroundings ''a''"] exI [of _ None] exI [of _ "''d/c''"] exI [of _ "Some []"])
      (auto simp: file_surroundings_ok NewManager_Inr_iff ConfigManager_SetMetrics_def)
qed

text \<open>The routes of the stored configuration, and of what a load of the file as it is now would give.\<close>

definition stored_routes :: "config_system \<Rightarrow> string list option" where
  "stored_routes s = map_option (\<lambda>p. map route_name (cfg_routes (snd p))) (cm_config (cs_mgr s))"

definition file_routes :: "config_system \<Rightarrow> string list option" where
  "file_routes s = (case Load (cs_sur s) (cm_path (cs_mgr s)) of Inl e \<Rightarrow> None | Inr c \<Rightarrow> Some (map route_name (cfg_routes c)))"

definition reloads_done :: "config_system \<Rightarrow> bool" where
  "reloads_done s \<longleftrightarrow> list_all (\<lambda>pc. case pc of RDone \<Rightarrow> True | _ \<Rightarrow> False) (cs_reloads s)"

section \<open>Properties\<close>

text \<open>C26. Load returns a configuration exactly when the file can be read, the YAML after substitution
  of the environment decodes, and the decoded configuration is valid, and then it returns the
  decoded one; IsValidationError recognises exactly the failures of the third kind.\<close>
theorem Load_result:
  assumes "decoder_ok sur"
  shows "(Load sur path = Inr c \<longleftrightarrow> (\<exists>data order. sur_read sur path = Inr data \<and>
        sur_unmarshal sur (SubstituteEnv (sur_env sur) data) = Inr (c, order) \<and> valid_config c)) \<and>
    (\<forall>e. Load sur path = Inl e \<longrightarrow> (IsValidationError e \<longleftrightarrow> (\<exists>data c order. sur_read sur path = Inr data \<and>
        sur_unmarshal sur (SubstituteEnv (sur_env sur) data) = Inr (c, order) \<and> \<not> valid_config c)))"
proof -
  have valid: "config_Validate order c = None \<longleftrightarrow> valid_config c"
    if "sur_unmarshal sur x = Inr (c, order)" for x c order
    using that assms all_errors_nil_iff [of order c] by (auto simp: decoder_ok_def config_Validate_eq)
  have lib: "sur_unmarshal sur x = Inl e \<Longrightarrow> \<not> IsValidationError e" "sur_read sur p = Inl e \<Longrightarrow> \<not> IsValidationError e"
    for x p e using assms by (auto simp: decoder_ok_def)
  show ?thesis
  proof (cases "sur_read sur path")
    case (Inl e)
    then show ?thesis using lib(2) by (auto simp: Load_def)
  next
    case (Inr data)
    show ?thesis
    proof (cases "sur_unmarshal sur (SubstituteEnv (sur_env sur) data)")
      case (Inl e)
      with \<open>sur_read sur path = Inr data\<close> show ?thesis using lib(1) by (auto simp: Load_def Let_def)
    next
      case (Inr co)
      then obtain d order where "sur_unmarshal sur (SubstituteEnv (sur_env sur) data) = Inr (d, order)" by (cases co) auto
      with \<open>sur_read sur path = Inr data\<close> valid [OF this] show ?thesis
        by (auto simp: Load_def Let_def split: option.splits)
    qed
  qed
qed

lemma Load_result_witness:
  "(\<exists>e. Load (file_surroundings ''x'') ''p'' = Inl e \<and> \<not> IsValidationError e) \<and>
   Load (file_surroundings ''a'') ''p'' = Inr sample_config"
proof
  have sub: "SubstituteEnv (\<lambda>v. None) ''a'' = ''a''" "SubstituteEnv (\<lambda>v. None) ''x'' = ''x''" by code_simp+
  have "config_Validate [''nas''] sample_config = None" by code_simp
  then have "valid_config sample_config"
    using Load_valid [OF file_surroundings_ok [of "''a''"], of "''p''" sample_config] sub
    by (simp add: Load_def file_surroundings_def)
  with Load_result [OF file_surroundings_ok [of "''a''"], of "''p''" sample_config] sub
  show "Load (file_surroundings ''a'') ''p'' = Inr sample_config" by (simp add: file_surroundings_def)
  have fails: "\<exists>e. Load (file_surroundings ''x'') ''p'' = Inl e"
    using sub by (simp add: Load_def file_surroundings_def)
  with Load_result [OF file_surroundings_ok [of "''x''"], of "''p''"] sub
  show "\<exists>e. Load (file_surroundings ''x'') ''p'' = Inl e \<and> \<not> IsValidationError e"
    by (auto simp: file_surroundings_def)
qed

text \<open>C24. From NewManager on, whatever happens to the file and however the goroutines interleave,
  GetConfig returns a configuration, never nil, and one that passes validation: a reload of a file that
  cannot be read, parsed or validated leaves the last valid configuration in place.\<close>
theorem GetConfig_always_valid:
  assumes "config_init s0" and "config_step\<^sup>*\<^sup>* s0 s"
  shows "\<exists>p. GetConfig (cs_mgr s) = Some p \<and> valid_config (snd p)"
  using configs.reachable_inv [OF assms] by (auto simp: config_inv_def GetConfig_def)

lemma GetConfig_always_valid_witness:
  "\<exists>s. config_run [CEvent file_written, CEdit (file_surroundings ''x''), CTick 1000000000, CFire, CReload 0, CReload 0]
      example_system = Some s \<and> stored_routes s = Some [''web''] \<and> (\<exists>p. GetConfig (cs_mgr s) = Some p \<and> valid_config (snd p))"
proof -
  let ?as = "[CEvent file_written, CEdit (file_surroundings ''x''), CTick 1000000000, CFire, CReload 0, CReload 0]"
  have "map_option stored_routes (config_run ?as example_system) = Some (Some [''web''])" by code_simp
  then obtain s where s: "config_run ?as example_system = Some s" "stored_routes s = Some [''web'']" by auto
  from config_run_steps [OF _ s(1)] have "config_step\<^sup>*\<^sup>* example_system s" by (simp add: file_surroundings_ok)
  from GetConfig_always_valid [OF example_init this] s show ?thesis by blast
qed

text \<open>C23. No reload is lost on the consumer of the signal: whenever the stored configuration is not the
  one the consumer took last, a signal is buffered, about to be sent or already received, and
  three steps of the goroutines concerned bring the consumer to the stored configuration, even though
  the channel holds one signal and further ones are dropped.\<close>
theorem reload_signal_not_lost:
  assumes "config_init s0" and "config_step\<^sup>*\<^sup>* s0 s" and "GetConfig (cs_mgr s) = Some p" and "fst p \<noteq> cs_seen s"
  shows "signal_underway s \<and> (\<exists>as t. length as \<le> 3 \<and> config_run as s = Some t \<and> cs_seen t = fst p)"
proof -
  have inv: "config_inv s" by (rule configs.reachable_inv [OF assms(1,2)])
  with assms(3,4) have "signal_underway s" by (auto simp: config_inv_def GetConfig_def)
  with client_catches_up [OF inv this] assms(3) show ?thesis by (simp add: GetConfig_def)
qed

lemma reload_signal_not_lost_witness:
  "\<exists>s. config_run ([CEvent file_written, CEdit (file_surroundings ''b''), CTick 1000000000, CFire] @
        [CReload 0, CReload 0, CReload 0]) example_system = Some s \<and> signal_underway s"
proof -
  let ?as = "[CEvent file_written, CEdit (file_surroundings ''b''), CTick 1000000000, CFire] @
      [CReload 0, CReload 0, CReload 0]"
  have "map_option (\<lambda>s. (cs_seen s, map_option fst (GetConfig (cs_mgr s)))) (config_run ?as example_system)
      = Some (0, Some 1)" by code_simp
  then obtain s p where s: "config_run ?as example_system = Some s" "GetConfig (cs_mgr s) = Some p"
    "fst p \<noteq> cs_seen s" by auto
  from config_run_steps [OF _ s(1)] have "config_step\<^sup>*\<^sup>* example_system s" by (simp add: file_surroundings_ok)
  from reload_signal_not_lost [OF example_init this s(2,3)] s show ?thesis by blast
qed

text \<open>C30. Debouncing: two reloads never begin less than one second apart, and none begins before a full
  second has passed since the last event acted on, however many events arrive.\<close>
theorem reloads_are_debounced:
  assumes "config_init s0" and "config_step\<^sup>*\<^sup>* s0 s"
  shows "spaced debounceDuration (cs_starts s) \<and>
    (\<forall>t. timer_fire s = Some t \<longrightarrow> cs_event s + debounceDuration \<le> cs_now s)"
  using debounced.reachable_inv [OF assms]
  by (auto simp: debounce_inv_def timer_fire_def split: option.splits if_splits)

lemma reloads_are_debounced_witness:
  "\<exists>s. config_run [CEvent file_written, CTick 999999999, CEvent file_written, CTick 1000000000, CFire, CEvent file_written,
       CTick 1500000000, CFire] example_system = Some s \<and> cs_starts s = [3499999999, 1999999999] \<and>
     spaced debounceDuration (cs_starts s)"
proof -
  let ?as = "[CEvent file_written, CTick 999999999, CEvent file_written, CTick 1000000000, CFire, CEvent file_written,
       CTick 1500000000, CFire]"
  have "map_option cs_starts (config_run ?as example_system) = Some [3499999999, 1999999999]" by code_simp
  then obtain s where s: "config_run ?as example_system = Some s" "cs_starts s = [3499999999, 1999999999]" by auto
  from config_run_steps [OF _ s(1)] have "config_step\<^sup>*\<^sup>* example_system s" by (simp add: file_surroundings_ok)
  from reloads_are_debounced [OF example_init this] s show ?thesis by blast
qed



text \<open>C29. Once Stop has returned no reload begins any more, and if no reload was past its check of the
  done channel at that moment the configuration never changes again.\<close>
theorem no_reload_begins_after_Stop:
  assumes "config_init s0" and "config_step\<^sup>*\<^sup>* s0 s" and "cs_stop s = MStopReturned" and "config_step\<^sup>*\<^sup>* s t"
  shows "cs_starts t = cs_starts s \<and> (no_reload_underway s \<longrightarrow> GetConfig (cs_mgr t) = GetConfig (cs_mgr s))"
proof -
  have "halted s"
    using debounced.reachable_inv [OF assms(1,2)] assms(3) by (simp add: debounce_inv_def halted_def)
  from halted_steps [OF assms(4) this] show ?thesis by (simp add: GetConfig_def)
qed

lemma no_reload_begins_after_Stop_witness:
  "\<exists>s t. config_run [CEvent file_written, CStop, CWatchDone, CStop, CStop] example_system = Some s \<and>
     config_exec (CTick 2000000000) s = Some t \<and> cs_starts t = cs_starts s"
proof -
  let ?as = "[CEvent file_written, CStop, CWatchDone, CStop, CStop]"
  have "map_option cs_stop (config_run ?as example_system) = Some MStopReturned" by code_simp
  then obtain s where s: "config_run ?as example_system = Some s" "cs_stop s = MStopReturned" by auto
  from config_run_steps [OF _ s(1)] have r: "config_step\<^sup>*\<^sup>* example_system s" by simp
  let ?t = "s\<lparr>cs_now := cs_now s + 2000000000\<rparr>"
  have st: "config_exec (CTick 2000000000) s = Some ?t" by simp
  then have "config_step\<^sup>*\<^sup>* s ?t" using config_exec_step [of "CTick 2000000000" s ?t] by auto
  from no_reload_begins_after_Stop [OF example_init r s(2) this] s st show ?thesis by blast
qed

text \<open>The comment on Stop promises more: a reload that is past its check when Stop is called is
  neither cancelled nor awaited, so it stores a new configuration and sends a signal after Stop has
  returned.\<close>
theorem reload_can_finish_after_Stop:
  "map_option (\<lambda>s. (cs_stop s, stored_routes s)) (config_run
     [CEvent file_written, CEdit (file_surroundings ''b''), CTick 1000000000, CFire, CReload 0, CReload 0,
      CStop, CWatchDone, CStop, CStop] example_system) = Some (MStopReturned, Some [''web'']) \<and>
   map_option (\<lambda>s. (cs_stop s, stored_routes s, ch_buf (ReloadSignal (cs_mgr s)))) (config_run
     [CEvent file_written, CEdit (file_surroundings ''b''), CTick 1000000000, CFire, CReload 0, CReload 0,
      CStop, CWatchDone, CStop, CStop, CReload 0, CReload 0] example_system) = Some (MStopReturned, Some [], [()])"
  by code_simp

text \<open>Two reloads can overlap when loading takes longer than the debounce time, and the older one
  can store last: then the manager settles on an outdated configuration, with no event, timer or
  reload left that would correct it, although the file has been valid and unchanged since.\<close>
theorem overlapping_reloads_can_settle_on_stale_config:
  "map_option (\<lambda>s. (stored_routes s, file_routes s, cs_timer s, reloads_done s)) (config_run
     [CEvent file_written, CTick 1000000000, CFire, CReload 0, CReload 0,
      CEdit (file_surroundings ''b''), CEvent file_written, CTick 1000000000, CFire,
      CReload 1, CReload 1, CReload 1, CReload 1, CReload 1, CReload 0, CReload 0, CReload 0] example_system)
     = Some (Some [''web''], Some [], None, True)"
  by code_simp

end
