(* ===== verification/GwaihirClient.thy ===== *)
theory GwaihirClient
  imports SleepClient Metrics
begin

text \<open>
  The REST client of the Wake-on-LAN service, \<open>internal/client/gwaihir\<close>: retry configuration and
  backoff (\<open>types.go\<close>), construction, and \<open>SendWoL\<close> with its retry loop and the handling of
  responses (\<open>client.go\<close>). The HTTP transport, the timers, the clock, \<open>encoding/json\<close>,
  \<open>rand.Float64\<close> and \<open>URL.ResolveReference\<close> are answers of an environment that threads the outside
  world; requests and waits are recorded in a trace.
\<close>

section \<open>Errors\<close>

datatype gwaihir_sentinel =
    ErrInvalidInput
  | ErrGwNetworkError
  | ErrInternalError
  | ErrAuthenticationFailed
  | ErrMachineNotFound
  | ErrWoLRequestFailed
  | ErrEmptyBaseURL
  | ErrInvalidBaseURL
  | ErrEmptyAPIKey
  | ErrGwInvalidTimeout
  | ErrGwNilLogger
  | ErrInvalidRetryConfig
  | CtxCanceled
  | CtxDeadlineExceeded

type_synonym gw_error = "gwaihir_sentinel go_error"

fun gw_sentinel_text :: "gwaihir_sentinel \<Rightarrow> string" where
  "gw_sentinel_text ErrInvalidInput = ''invalid input: machine ID must not be empty''"
| "gw_sentinel_text ErrGwNetworkError = ''network error: failed to communicate with Gwaihir service''"
| "gw_sentinel_text ErrInternalError = ''internal error: unexpected failure in client operation''"
| "gw_sentinel_text ErrAuthenticationFailed = ''authentication failed: invalid API key''"
| "gw_sentinel_text ErrMachineNotFound = ''machine not found: machine is not in the allowlist''"
| "gw_sentinel_text ErrWoLRequestFailed = ''WoL request failed: Gwaihir service returned an error''"
| "gw_sentinel_text ErrEmptyBaseURL = ''baseURL cannot be empty''"
| "gw_sentinel_text ErrInvalidBaseURL = ''baseURL is not a valid URL''"
| "gw_sentinel_text ErrEmptyAPIKey = ''apiKey cannot be empty''"
| "gw_sentinel_text ErrGwInvalidTimeout = ''timeout must be positive''"
| "gw_sentinel_text ErrGwNilLogger = ''logger cannot be nil''"
| "gw_sentinel_text ErrInvalidRetryConfig = ''invalid retry config: MaxAttempts must be >= 1 and BaseDelay must be > 0''"
| "gw_sentinel_text CtxCanceled = ''context canceled''"
| "gw_sentinel_text CtxDeadlineExceeded = ''context deadline exceeded''"

definition gw_text :: "gw_error \<Rightarrow> string" where
  "gw_text = error_text gw_sentinel_text"

section \<open>Retry configuration\<close>

definition defaultMaxAttempts :: int where "defaultMaxAttempts = 3"
definition defaultBaseDelay :: duration where "defaultBaseDelay = 1 * second"
definition maxBackoffDelay :: duration where "maxBackoffDelay = 60 * second"

record retry_config =
  rc_MaxAttempts :: int
  rc_BaseDelay :: duration

definition NewRetryConfig :: retry_config where
  "NewRetryConfig = \<lparr>rc_MaxAttempts = defaultMaxAttempts, rc_BaseDelay = defaultBaseDelay\<rparr>"

text \<open>\<open>show_duration\<close> is \<open>Duration.String\<close>, used in the text only.\<close>

definition RetryConfig_Validate :: "(duration \<Rightarrow> string) \<Rightarrow> retry_config \<Rightarrow> gw_error option" where
  "RetryConfig_Validate show_duration r =
     (if rc_MaxAttempts r < 1
      then Some (Errorf (gw_sentinel_text ErrInvalidRetryConfig @ '': MaxAttempts='' @ itoa (rc_MaxAttempts r)) [Sentinel ErrInvalidRetryConfig])
      else if rc_BaseDelay r \<le> 0
      then Some (Errorf (gw_sentinel_text ErrInvalidRetryConfig @ '': BaseDelay='' @ show_duration (rc_BaseDelay r)) [Sentinel ErrInvalidRetryConfig])
      else None)"

text \<open>The loop of \<open>Backoff\<close>; \<open>n\<close> doublings are left, and each wraps around in int64.\<close>

fun backoff_loop :: "nat \<Rightarrow> duration \<Rightarrow> duration" where
  "backoff_loop 0 delay = delay"
| "backoff_loop (Suc n) delay =
     (let delay = wrap64 (delay * 2) in if delay > maxBackoffDelay then maxBackoffDelay else backoff_loop n delay)"

definition backoff_delay :: "retry_config \<Rightarrow> int \<Rightarrow> duration" where
  "backoff_delay r retry =
     (let delay = backoff_loop (nat (retry - 1)) (rc_BaseDelay r)
      in if delay > maxBackoffDelay then maxBackoffDelay else delay)"

section \<open>The environment\<close>

record wol_request = http_request +
  req_body :: string

text \<open>
  A response: its status, the bytes its body delivers, and the error the read after them meets, if they
  do not end there. \<open>wol_reply\<close> is what \<open>httpClient.Do\<close> returns.
\<close>

record wol_response =
  wr_status :: int
  wr_bytes :: string
  wr_broken :: "string option"

type_synonym wol_reply = "string + wol_response"

datatype gw_act = ActRequest wol_request wol_reply | ActClose | ActSleep duration

record 'w gwaihir_env =
  ge_marshal :: "string \<Rightarrow> string + string"
  ge_unmarshal :: "string \<Rightarrow> string option"
  ge_resolve :: "string \<Rightarrow> string"
  ge_do :: "wol_request \<Rightarrow> 'w \<Rightarrow> wol_reply \<times> 'w"
  ge_sleep :: "duration \<Rightarrow> 'w \<Rightarrow> gwaihir_sentinel option \<times> 'w"
  ge_jitter :: "duration \<Rightarrow> 'w \<Rightarrow> duration \<times> 'w"
  ge_now :: "'w \<Rightarrow> time \<times> 'w"

record 'w gw_state =
  gs_world :: 'w
  gs_trace :: "gw_act list"
  gs_metrics :: registry

section \<open>The client\<close>

record gwaihir_client_config =
  gcc_BaseURL :: string
  gcc_APIKey :: string
  gcc_Timeout :: duration
  gcc_RetryConfig :: retry_config

record gwaihir_client =
  gc_baseURL :: string
  gc_apiKey :: string
  gc_timeout :: duration
  gc_retryConfig :: retry_config

text \<open>\<open>url_text\<close> is the text of an error of \<open>url.Parse\<close>.\<close>

definition gwaihir_validate ::
  "(url_error \<Rightarrow> string) \<Rightarrow> gwaihir_client_config \<Rightarrow> bool \<Rightarrow> gw_error option" where
  "gwaihir_validate url_text config hasLogger =
     (if gcc_BaseURL config = [] then Some (Sentinel ErrEmptyBaseURL)
      else (case url_Parse (gcc_BaseURL config) of
          Inl e \<Rightarrow> Some (Errorf (gw_sentinel_text ErrInvalidBaseURL @ '': '' @ url_text e)
                     [Sentinel ErrInvalidBaseURL, Opaque (url_text e)])
        | Inr _ \<Rightarrow>
            if gcc_APIKey config = [] then Some (Sentinel ErrEmptyAPIKey)
            else if gcc_Timeout config \<le> 0 then Some (Sentinel ErrGwInvalidTimeout)
            else if \<not> hasLogger then Some (Sentinel ErrGwNilLogger)
            else None))"

definition gwaihir_NewClient ::
  "(duration \<Rightarrow> string) \<Rightarrow> (url_error \<Rightarrow> string) \<Rightarrow> gwaihir_client_config \<Rightarrow> bool \<Rightarrow> gw_error + gwaihir_client" where
  "gwaihir_NewClient show_duration url_text config hasLogger =
     (case RetryConfig_Validate show_duration (gcc_RetryConfig config) of
        Some err \<Rightarrow> Inl err
      | None \<Rightarrow>
          (case gwaihir_validate url_text config hasLogger of
             Some err \<Rightarrow> Inl err
           | None \<Rightarrow> Inr \<lparr>gc_baseURL = gcc_BaseURL config, gc_apiKey = gcc_APIKey config,
               gc_timeout = gcc_Timeout config, gc_retryConfig = gcc_RetryConfig config\<rparr>))"

definition gwaihir_SetMetrics :: "registry \<Rightarrow> 'w gw_state \<Rightarrow> 'w gw_state" where
  "gwaihir_SetMetrics reg s = s\<lparr>gs_metrics := reg\<rparr>"

section \<open>One request\<close>

definition buildWoLURL :: "'w gwaihir_env \<Rightarrow> gwaihir_client \<Rightarrow> string" where
  "buildWoLURL env c =
     (case url_Parse (gc_baseURL c) of
        Inl _ \<Rightarrow> gc_baseURL c @ ''/wol''
      | Inr _ \<Rightarrow> ge_resolve env (gc_baseURL c))"

definition marshalWoLRequest :: "'w gwaihir_env \<Rightarrow> string \<Rightarrow> gw_error + string" where
  "marshalWoLRequest env machineID =
     (case ge_marshal env machineID of
        Inl e \<Rightarrow> Inl (Errorf (gw_sentinel_text ErrInternalError @ '': failed to marshal request: '' @ e)
                   [Sentinel ErrInternalError, Opaque e])
      | Inr body \<Rightarrow> Inr body)"

definition createHTTPRequest :: "string \<Rightarrow> string \<Rightarrow> gw_error + wol_request" where
  "createHTTPRequest url body =
     (case url_Parse url of
        Inl _ \<Rightarrow> Inl (Errorf (gw_sentinel_text ErrGwNetworkError @ '': failed to create request for '' @ url)
                   [Sentinel ErrGwNetworkError, Opaque ''parse''])
      | Inr _ \<Rightarrow> Inr \<lparr>req_method = ''POST'', req_url = url, req_headers = [], req_body = body\<rparr>)"

definition setRequestHeaders :: "gwaihir_client \<Rightarrow> wol_request \<Rightarrow> wol_request" where
  "setRequestHeaders c r =
     r\<lparr>req_headers := req_headers r @ [(''Content-Type'', ''application/json''), (''X-API-Key'', gc_apiKey c)]\<rparr>"

definition maxResponseBodySize :: int where "maxResponseBodySize = 1 * 1024 * 1024"

text \<open>\<open>io.ReadAll(io.LimitReader(body, maxResponseBodySize))\<close>: what lies behind the limit is not read.\<close>

definition read_limited :: "wol_response \<Rightarrow> string + string" where
  "read_limited resp =
     (if int (length (wr_bytes resp)) \<ge> maxResponseBodySize then Inr (take (nat maxResponseBodySize) (wr_bytes resp))
      else (case wr_broken resp of Some e \<Rightarrow> Inl e | None \<Rightarrow> Inr (wr_bytes resp)))"

definition executeHTTPRequest ::
  "'w gwaihir_env \<Rightarrow> wol_request \<Rightarrow> 'w gw_state \<Rightarrow> (gw_error + wol_response) \<times> 'w gw_state" where
  "executeHTTPRequest env r s =
     (let (a, w) = ge_do env r (gs_world s);
          s = s\<lparr>gs_world := w, gs_trace := gs_trace s @ [ActRequest r a]\<rparr>
      in (case a of
            Inl e \<Rightarrow> (Inl (Errorf (gw_sentinel_text ErrGwNetworkError @ '': '' @ req_url r @ '': '' @ e)
                        [Sentinel ErrGwNetworkError, Opaque e]), s)
          | Inr resp \<Rightarrow> (Inr resp, s)))"

definition readResponseBody :: "wol_response \<Rightarrow> gw_error + string" where
  "readResponseBody resp =
     (case read_limited resp of
        Inl e \<Rightarrow> Inl (Errorf (gw_sentinel_text ErrGwNetworkError @ '': failed to read response body: '' @ e)
                   [Sentinel ErrGwNetworkError, Opaque e])
      | Inr body \<Rightarrow> Inr body)"

definition closeResponseBody :: "'w gw_state \<Rightarrow> 'w gw_state" where
  "closeResponseBody s = s\<lparr>gs_trace := gs_trace s @ [ActClose]\<rparr>"

definition sendHTTPRequestAndReadResponse ::
  "'w gwaihir_env \<Rightarrow> wol_request \<Rightarrow> 'w gw_state \<Rightarrow> (int \<times> string \<times> gw_error option) \<times> 'w gw_state" where
  "sendHTTPRequestAndReadResponse env r s =
     (case executeHTTPRequest env r s of
        (Inl err, s) \<Rightarrow> ((0, [], Some err), s)
      | (Inr resp, s) \<Rightarrow>
          ((case readResponseBody resp of
              Inl err \<Rightarrow> (wr_status resp, [], Some err)
            | Inr respBody \<Rightarrow> (wr_status resp, respBody, None)), closeResponseBody s))"

definition executeWoLRequest ::
  "'w gwaihir_env \<Rightarrow> gwaihir_client \<Rightarrow> string \<Rightarrow> 'w gw_state \<Rightarrow> (int \<times> string \<times> gw_error option) \<times> 'w gw_state" where
  "executeWoLRequest env c machineID s =
     (case marshalWoLRequest env machineID of
        Inl e \<Rightarrow> ((0, [], Some e), s)
      | Inr body \<Rightarrow>
          (case createHTTPRequest (buildWoLURL env c) body of
             Inl e \<Rightarrow> ((0, [], Some e), s)
           | Inr r \<Rightarrow> sendHTTPRequestAndReadResponse env (setRequestHeaders c r) s))"

section \<open>Responses\<close>

definition status_error :: "'w gwaihir_env \<Rightarrow> gwaihir_sentinel \<Rightarrow> int \<Rightarrow> string \<Rightarrow> gw_error" where
  "status_error env e status body =
     (case ge_unmarshal env body of
        Some message \<Rightarrow> Errorf (gw_sentinel_text e @ '': '' @ itoa status @ '': '' @ message) [Sentinel e]
      | None \<Rightarrow> Errorf (gw_sentinel_text e @ '': '' @ itoa status) [Sentinel e])"

text \<open>Whether the confirmation parses only decides what is logged.\<close>

definition handleSuccessResponse :: "'w gwaihir_env \<Rightarrow> int \<Rightarrow> string \<Rightarrow> gw_error option" where
  "handleSuccessResponse env status body =
     (case ge_unmarshal env body of None \<Rightarrow> None | Some message \<Rightarrow> None)"

definition handleWoLResponse :: "'w gwaihir_env \<Rightarrow> int \<Rightarrow> string \<Rightarrow> gw_error option" where
  "handleWoLResponse env status body =
     (if status = 401 then Some (status_error env ErrAuthenticationFailed status body)
      else if status = 404 then Some (status_error env ErrMachineNotFound status body)
      else if status < 200 \<or> status \<ge> 300 then Some (status_error env ErrWoLRequestFailed status body)
      else handleSuccessResponse env status body)"

definition isSuccessStatus :: "int \<Rightarrow> bool" where
  "isSuccessStatus status \<longleftrightarrow> status \<ge> 200 \<and> status < 300"

definition isNonRetryableStatus :: "int \<Rightarrow> bool" where
  "isNonRetryableStatus status \<longleftrightarrow> status \<ge> 400 \<and> status < 500"

text \<open>What a response body may contribute to a log line.\<close>

definition truncateBody :: "string \<Rightarrow> string" where
  "truncateBody body =
     (if length body \<le> 200 then body else take 200 body @ map char_of [226::nat, 128, 166] @ '' [truncated]'')"

section \<open>The retry loop\<close>

definition Backoff :: "'w gwaihir_env \<Rightarrow> retry_config \<Rightarrow> int \<Rightarrow> 'w gw_state \<Rightarrow> duration \<times> 'w gw_state" where
  "Backoff env r retry s =
     (let delay = backoff_delay r retry; (jitter, w) = ge_jitter env delay (gs_world s)
      in (wrap64 (delay + jitter), s\<lparr>gs_world := w\<rparr>))"

definition sleepWithContext :: "'w gwaihir_env \<Rightarrow> duration \<Rightarrow> 'w gw_state \<Rightarrow> gwaihir_sentinel option \<times> 'w gw_state" where
  "sleepWithContext env d s =
     (let (r, w) = ge_sleep env d (gs_world s) in (r, s\<lparr>gs_world := w, gs_trace := gs_trace s @ [ActSleep d]\<rparr>))"

definition wait_before :: "'w gwaihir_env \<Rightarrow> gwaihir_client \<Rightarrow> int \<Rightarrow> 'w gw_state \<Rightarrow> gw_error option \<times> 'w gw_state" where
  "wait_before env c attempt s =
     (if attempt > 1 then
        (let (backoff, s) = Backoff env (gc_retryConfig c) (attempt - 1) s
         in (case sleepWithContext env backoff s of
               (Some e, s) \<Rightarrow> (Some (Errorf (''retry backoff interrupted: '' @ gw_sentinel_text e) [Sentinel e]), s)
             | (None, s) \<Rightarrow> (None, s)))
      else (None, s))"

text \<open>\<open>n\<close> attempts are left; \<open>lastErr\<close>, \<open>statusCode\<close> and \<open>respBody\<close> are the variables of the loop.\<close>

fun retry_loop ::
  "'w gwaihir_env \<Rightarrow> gwaihir_client \<Rightarrow> string \<Rightarrow> nat \<Rightarrow> int \<Rightarrow> gw_error option \<Rightarrow> int \<Rightarrow> string \<Rightarrow> 'w gw_state
     \<Rightarrow> gw_error option \<times> 'w gw_state" where
  "retry_loop env c machineID 0 attempt lastErr statusCode respBody s =
     ((if lastErr \<noteq> None \<and> statusCode = 0 then lastErr else handleWoLResponse env statusCode respBody), s)"
| "retry_loop env c machineID (Suc n) attempt lastErr statusCode respBody s =
     (case wait_before env c attempt s of
        (Some e, s) \<Rightarrow> (Some e, s)
      | (None, s) \<Rightarrow>
          (case executeWoLRequest env c machineID s of
             ((statusCode, respBody, Some reqErr), s) \<Rightarrow>
               retry_loop env c machineID n (attempt + 1) (Some reqErr) statusCode respBody s
           | ((statusCode, respBody, None), s) \<Rightarrow>
               if isSuccessStatus statusCode \<or> isNonRetryableStatus statusCode
               then (handleWoLResponse env statusCode respBody, s)
               else retry_loop env c machineID n (attempt + 1)
                 (Some (Errorf (gw_sentinel_text ErrWoLRequestFailed @ '': '' @ itoa statusCode) [Sentinel ErrWoLRequestFailed]))
                 statusCode respBody s))"

definition sendWithRetry :: "'w gwaihir_env \<Rightarrow> gwaihir_client \<Rightarrow> string \<Rightarrow> 'w gw_state \<Rightarrow> gw_error option \<times> 'w gw_state" where
  "sendWithRetry env c machineID s =
     retry_loop env c machineID (nat (rc_MaxAttempts (gc_retryConfig c))) 1 None 0 [] s"

definition SendWoL :: "'w gwaihir_env \<Rightarrow> gwaihir_client \<Rightarrow> string \<Rightarrow> 'w gw_state \<Rightarrow> gw_error option \<times> 'w gw_state" where
  "SendWoL env c machineID s =
     (if machineID = [] then (Some (Sentinel ErrInvalidInput), s)
      else
        let (startTime, w) = ge_now env (gs_world s);
            (err, s) = sendWithRetry env c machineID (s\<lparr>gs_world := w\<rparr>);
            (endTime, w) = ge_now env (gs_world s)
        in (err, s\<lparr>gs_world := w, gs_metrics := RecordAPICall ''send_wol'' (err = None) (time_sub endTime startTime) (gs_metrics s)\<rparr>))"

section \<open>Backoff\<close>

lemma backoff_loop_closed:
  "0 < d \<Longrightarrow> d < 2 ^ 62 \<Longrightarrow> min maxBackoffDelay (backoff_loop n d) = min maxBackoffDelay (d * 2 ^ n)"
proof (induction n arbitrary: d)
  case 0
  then show ?case by simp
next
  case (Suc n)
  have w: "wrap64 (d * 2) = d * 2"
    using Suc.prems by (intro wrap64_id) (simp_all add: min_int64_def max_int64_def)
  show ?case
  proof (cases "d * 2 > maxBackoffDelay")
    case True
    have "d * 2 ^ Suc n \<ge> d * 2" using Suc.prems by simp
    with True show ?thesis by (simp add: w)
  next
    case False
    then have "d * 2 < 2 ^ 62" by (simp add: maxBackoffDelay_def second_def)
    with Suc.IH [of "d * 2"] Suc.prems False show ?thesis by (simp add: w ac_simps)
  qed
qed

definition nominal_delay :: "duration \<Rightarrow> nat \<Rightarrow> duration" where
  "nominal_delay base k = min maxBackoffDelay (base * 2 ^ k)"

lemma backoff_delay_nominal:
  assumes "0 < rc_BaseDelay r" and "rc_BaseDelay r < 2 ^ 62"
  shows "backoff_delay r retry = nominal_delay (rc_BaseDelay r) (nat (retry - 1))"
  using backoff_loop_closed [OF assms, of "nat (retry - 1)"]
  by (simp add: backoff_delay_def nominal_delay_def Let_def min_def split: if_splits)

text \<open>The jitter is at most a tenth of the delay, since \<open>rand.Float64\<close> is below one.\<close>

definition jitter_ok :: "'w gwaihir_env \<Rightarrow> bool" where
  "jitter_ok env \<longleftrightarrow> (\<forall>d w. 0 \<le> d \<longrightarrow> 0 \<le> fst (ge_jitter env d w) \<and> 10 * fst (ge_jitter env d w) \<le> d)"

definition backs_off :: "duration \<Rightarrow> nat \<Rightarrow> duration \<Rightarrow> bool" where
  "backs_off base k d \<longleftrightarrow> 0 < d \<and> d \<le> 66 * second \<and> nominal_delay base k \<le> d \<and> 10 * d \<le> 11 * nominal_delay base k"

lemma Backoff_backs_off:
  assumes "0 < rc_BaseDelay r" and "rc_BaseDelay r < 2 ^ 62" and "jitter_ok env"
  shows "backs_off (rc_BaseDelay r) (nat (retry - 1)) (fst (Backoff env r retry s))"
proof -
  let ?n = "nominal_delay (rc_BaseDelay r) (nat (retry - 1))"
  have n: "0 < ?n" "?n \<le> 60 * second"
    using assms(1) by (simp_all add: nominal_delay_def maxBackoffDelay_def second_def)
  obtain j w where j: "ge_jitter env ?n (gs_world s) = (j, w)" by fastforce
  have b: "0 \<le> j" "10 * j \<le> ?n"
    using assms(3) [unfolded jitter_ok_def, rule_format, of ?n "gs_world s"] n(1) j by simp_all
  have "wrap64 (?n + j) = ?n + j"
    using n b by (intro wrap64_id) (simp_all add: min_int64_def max_int64_def second_def)
  then have "fst (Backoff env r retry s) = ?n + j"
    by (simp add: Backoff_def backoff_delay_nominal [OF assms(1,2)] j)
  then show ?thesis using n b by (simp add: backs_off_def)
qed

section \<open>The answers of the service\<close>

text \<open>A reply as the client sees it: a failure, or a status with the body or the failure to read it.\<close>

type_synonym wol_answer = "string + int \<times> (string + string)"

definition answer :: "wol_reply \<Rightarrow> wol_answer" where
  "answer a = (case a of Inl e \<Rightarrow> Inl e | Inr resp \<Rightarrow> Inr (wr_status resp, read_limited resp))"

fun answers :: "gw_act list \<Rightarrow> wol_answer list" where
  "answers [] = []"
| "answers (ActRequest r a # t) = answer a # answers t"
| "answers (ActClose # t) = answers t"
| "answers (ActSleep d # t) = answers t"

fun sleeps :: "gw_act list \<Rightarrow> duration list" where
  "sleeps [] = []"
| "sleeps (ActRequest r a # t) = sleeps t"
| "sleeps (ActClose # t) = sleeps t"
| "sleeps (ActSleep d # t) = d # sleeps t"

lemma answers_append [simp]: "answers (t @ u) = answers t @ answers u"
  by (induction t rule: answers.induct) auto

lemma sleeps_append [simp]: "sleeps (t @ u) = sleeps t @ sleeps u"
  by (induction t rule: sleeps.induct) auto

text \<open>An answer after which the request is sent again, if attempts are left.\<close>

fun transient :: "wol_answer \<Rightarrow> bool" where
  "transient (Inl e) = True"
| "transient (Inr (status, Inl e)) = True"
| "transient (Inr (status, Inr body)) = (\<not> isSuccessStatus status \<and> \<not> isNonRetryableStatus status)"

definition status_outcome :: "int \<Rightarrow> gwaihir_sentinel option" where
  "status_outcome status =
     (if status = 401 then Some ErrAuthenticationFailed else if status = 404 then Some ErrMachineNotFound
      else if isSuccessStatus status then None else Some ErrWoLRequestFailed)"

text \<open>The error that SendWoL reports when it stops at this answer.\<close>

fun outcome :: "wol_answer \<Rightarrow> gwaihir_sentinel option" where
  "outcome (Inl e) = Some ErrGwNetworkError"
| "outcome (Inr (status, Inl e)) = (if status = 0 then Some ErrGwNetworkError else status_outcome status)"
| "outcome (Inr (status, Inr body)) = status_outcome status"

definition fits :: "gw_error option \<Rightarrow> gwaihir_sentinel option \<Rightarrow> bool" where
  "fits r out \<longleftrightarrow> (case out of None \<Rightarrow> r = None | Some e \<Rightarrow> (\<exists>err. r = Some err \<and> errors_is err e))"

lemma fits_simps [simp]:
  "fits None None" "fits (Some err) (Some e) \<longleftrightarrow> errors_is err e" "\<not> fits (Some err) None" "\<not> fits None (Some e)"
  by (simp_all add: fits_def)

lemma handle_fits: "fits (handleWoLResponse env status body) (status_outcome status)"
  by (auto simp: fits_def handleWoLResponse_def handleSuccessResponse_def status_outcome_def status_error_def isSuccessStatus_def
      split: option.splits)

text \<open>The request can be built: marshalling a string and parsing the resolved URL do not fail.\<close>

definition requestable :: "'w gwaihir_env \<Rightarrow> gwaihir_client \<Rightarrow> string \<Rightarrow> bool" where
  "requestable env c machineID \<longleftrightarrow>
     (case ge_marshal env machineID of Inl _ \<Rightarrow> False | Inr _ \<Rightarrow> True) \<and>
     (case url_Parse (buildWoLURL env c) of Inl _ \<Rightarrow> False | Inr _ \<Rightarrow> True)"

fun answered :: "wol_answer \<Rightarrow> int \<Rightarrow> string \<Rightarrow> gw_error option \<Rightarrow> bool" where
  "answered (Inl e) st body err = (st = 0 \<and> fits err (Some ErrGwNetworkError))"
| "answered (Inr (status, Inl e)) st body err = (st = status \<and> fits err (Some ErrGwNetworkError))"
| "answered (Inr (status, Inr b)) st body err = (st = status \<and> body = b \<and> err = None)"

text \<open>What one exchange leaves in the trace: a body that was received is closed.\<close>

definition exchange :: "wol_request \<Rightarrow> wol_reply \<Rightarrow> gw_act list" where
  "exchange r a = ActRequest r a # (case a of Inl e \<Rightarrow> [] | Inr resp \<Rightarrow> [ActClose])"

lemma exchange_simps [simp]:
  "answers (exchange r a) = [answer a]" "sleeps (exchange r a) = []" "exchange r a \<noteq> []"
  by (simp_all add: exchange_def split: sum.split)

fun bodies_closed :: "gw_act list \<Rightarrow> bool" where
  "bodies_closed [] = True"
| "bodies_closed (ActRequest r (Inl e) # t) = bodies_closed t"
| "bodies_closed (ActRequest r (Inr resp) # ActClose # t) = bodies_closed t"
| "bodies_closed (ActSleep d # t) = bodies_closed t"
| "bodies_closed _ = False"

lemma bodies_closed_append: "bodies_closed t \<Longrightarrow> bodies_closed u \<Longrightarrow> bodies_closed (t @ u)"
  by (induction t rule: bodies_closed.induct) auto

lemma bodies_closed_exchange [simp]: "bodies_closed (exchange r a)"
  by (simp add: exchange_def split: sum.split)

lemma sendHTTPRequestAndReadResponse_answered:
  obtains a w st body err where
    "sendHTTPRequestAndReadResponse env r s = ((st, body, err), s\<lparr>gs_world := w, gs_trace := gs_trace s @ exchange r a\<rparr>)"
    and "answered (answer a) st body err" and "int (length body) \<le> maxResponseBodySize"
proof -
  obtain a w where a: "ge_do env r (gs_world s) = (a, w)" by fastforce
  show ?thesis
  proof (cases a)
    case (Inl e)
    show ?thesis
      by (rule that [where a = a and w = w and st = 0 and body = "[]"])
        (simp add: sendHTTPRequestAndReadResponse_def executeHTTPRequest_def a Inl exchange_def,
         simp_all add: Inl answer_def maxResponseBodySize_def)
  next
    case (Inr resp)
    show ?thesis
    proof (cases "read_limited resp")
      case (Inl e)
      show ?thesis
        by (rule that [where a = a and w = w and st = "wr_status resp" and body = "[]"])
          (simp add: sendHTTPRequestAndReadResponse_def executeHTTPRequest_def a Inr Inl readResponseBody_def
            closeResponseBody_def exchange_def, simp_all add: Inr Inl answer_def maxResponseBodySize_def)
    next
      case body: (Inr body)
      then have "int (length body) \<le> maxResponseBodySize"
        by (auto simp: read_limited_def min_def maxResponseBodySize_def split: if_splits option.splits)
      then show ?thesis
        by (rule that [where a = a and w = w and st = "wr_status resp" and body = body and err = None, rotated 2])
          (simp_all add: sendHTTPRequestAndReadResponse_def executeHTTPRequest_def a Inr body readResponseBody_def
            closeResponseBody_def exchange_def answer_def)
    qed
  qed
qed

lemma executeWoLRequest_answered:
  assumes "requestable env c machineID"
  obtains r a w st body err where
    "executeWoLRequest env c machineID s = ((st, body, err), s\<lparr>gs_world := w, gs_trace := gs_trace s @ exchange r a\<rparr>)"
    and "answered (answer a) st body err"
proof -
  obtain b where b: "ge_marshal env machineID = Inr b"
    using assms by (auto simp: requestable_def split: sum.splits)
  obtain u where u: "url_Parse (buildWoLURL env c) = Inr u"
    using assms by (auto simp: requestable_def split: sum.splits)
  define r where "r = setRequestHeaders c \<lparr>req_method = ''POST'', req_url = buildWoLURL env c, req_headers = [], req_body = b\<rparr>"
  have ex: "executeWoLRequest env c machineID s = sendHTTPRequestAndReadResponse env r s"
    by (simp add: executeWoLRequest_def marshalWoLRequest_def b createHTTPRequest_def u r_def)
  show ?thesis
    by (rule sendHTTPRequestAndReadResponse_answered [of env r s]) (rule that, simp_all add: ex)
qed

lemma wait_before_cases:
  obtains (first) "attempt \<le> 1" "wait_before env c attempt s = (None, s)"
  | (waited) d w where "attempt > 1"
      "wait_before env c attempt s = (None, s\<lparr>gs_world := w, gs_trace := gs_trace s @ [ActSleep d]\<rparr>)"
      "d = fst (Backoff env (gc_retryConfig c) (attempt - 1) s)"
  | (interrupted) d w err where "attempt > 1"
      "wait_before env c attempt s = (Some err, s\<lparr>gs_world := w, gs_trace := gs_trace s @ [ActSleep d]\<rparr>)"
      "d = fst (Backoff env (gc_retryConfig c) (attempt - 1) s)"
proof (cases "attempt > 1")
  case False
  then show ?thesis by (intro first) (auto simp: wait_before_def)
next
  case True
  obtain j wj where j: "ge_jitter env (backoff_delay (gc_retryConfig c) (attempt - 1)) (gs_world s) = (j, wj)" by fastforce
  define d where "d = fst (Backoff env (gc_retryConfig c) (attempt - 1) s)"
  have B: "Backoff env (gc_retryConfig c) (attempt - 1) s = (d, s\<lparr>gs_world := wj\<rparr>)"
    by (simp add: d_def Backoff_def Let_def j)
  obtain r w where r: "ge_sleep env d wj = (r, w)" by fastforce
  show ?thesis
  proof (cases r)
    case None
    with True B r show ?thesis
      by (intro waited [where d = d and w = w]) (simp_all add: wait_before_def sleepWithContext_def)
  next
    case (Some e)
    with True B r show ?thesis
      by (intro interrupted [where d = d and w = w]) (simp_all add: wait_before_def sleepWithContext_def)
  qed
qed

section \<open>The retry loop\<close>

definition interrupted :: "gw_act list \<Rightarrow> gw_error option \<Rightarrow> bool" where
  "interrupted t r \<longleftrightarrow> r \<noteq> None \<and> t \<noteq> [] \<and> (case last t of ActSleep d \<Rightarrow> True | _ \<Rightarrow> False)"

text \<open>How the loop ends: interrupted while waiting, or settled by the last answer, which is not
  transient unless all \<open>n\<close> attempts were made.\<close>

definition settled :: "nat \<Rightarrow> gw_act list \<Rightarrow> gw_error option \<Rightarrow> bool" where
  "settled n t r \<longleftrightarrow> interrupted t r \<or>
     (answers t \<noteq> [] \<and> fits r (outcome (last (answers t))) \<and> (transient (last (answers t)) \<longrightarrow> length (answers t) = n))"

lemma settled_prepend:
  assumes "settled n t r" and "length (answers u) = 1" and "t \<noteq> []"
  shows "settled (Suc n) (u @ t) r"
  using assms by (auto simp: settled_def interrupted_def)

lemma outcome_after_failure:
  assumes "answered a st body err" and "transient a" and "err' \<noteq> None"
    and "err \<noteq> None \<Longrightarrow> err' = err" and "err = None \<Longrightarrow> fits err' (Some ErrWoLRequestFailed)"
  shows "fits (if err' \<noteq> None \<and> st = 0 then err' else handleWoLResponse env st body) (outcome a)"
proof (cases a)
  case (Inl e)
  with assms show ?thesis by (auto simp: fits_def)
next
  case (Inr sb)
  then obtain status b where sb: "a = Inr (status, b)" by (cases sb) auto
  show ?thesis
  proof (cases b)
    case (Inl e)
    with assms sb show ?thesis using handle_fits [of env status body] by (auto simp: fits_def)
  next
    case (Inr bd)
    with assms sb show ?thesis using handle_fits [of env status body]
      by (auto simp: status_outcome_def isSuccessStatus_def)
  qed
qed

lemma retry_loop_settled:
  assumes "requestable env c machineID"
  shows "\<exists>t. gs_trace (snd (retry_loop env c machineID n attempt lastErr st body s)) = gs_trace s @ t \<and>
    length (answers t) \<le> n \<and> list_all transient (butlast (answers t)) \<and> bodies_closed t \<and>
    (if n = 0 then t = [] else t \<noteq> [] \<and> settled n t (fst (retry_loop env c machineID n attempt lastErr st body s)))"
proof (induction n arbitrary: attempt lastErr st body s)
  case 0
  then show ?case by simp
next
  case (Suc n)
  have main: "\<exists>t. gs_trace (snd R) = gs_trace s @ t \<and> length (answers t) \<le> Suc n \<and>
      list_all transient (butlast (answers t)) \<and> bodies_closed t \<and> t \<noteq> [] \<and> settled (Suc n) t (fst R)"
    if R: "R = (case executeWoLRequest env c machineID s' of
             ((statusCode, respBody, Some reqErr), s) \<Rightarrow>
               retry_loop env c machineID n (attempt + 1) (Some reqErr) statusCode respBody s
           | ((statusCode, respBody, None), s) \<Rightarrow>
               if isSuccessStatus statusCode \<or> isNonRetryableStatus statusCode
               then (handleWoLResponse env statusCode respBody, s)
               else retry_loop env c machineID n (attempt + 1)
                 (Some (Errorf (gw_sentinel_text ErrWoLRequestFailed @ '': '' @ itoa statusCode) [Sentinel ErrWoLRequestFailed]))
                 statusCode respBody s)"
      and s': "gs_trace s' = gs_trace s @ w" and w: "answers w = []" "bodies_closed w" for R s' w
  proof -
    obtain r a0 w' st1 body1 err where ex: "executeWoLRequest env c machineID s' =
        ((st1, body1, err), s'\<lparr>gs_world := w', gs_trace := gs_trace s' @ exchange r a0\<rparr>)"
      and ans0: "answered (answer a0) st1 body1 err" by (rule executeWoLRequest_answered [OF assms])
    define a where "a = answer a0"
    have ans: "answered a st1 body1 err" using ans0 by (simp add: a_def)
    define s1 where "s1 = s'\<lparr>gs_world := w', gs_trace := gs_trace s' @ exchange r a0\<rparr>"
    have tr1: "gs_trace s1 = gs_trace s @ w @ exchange r a0" by (simp add: s1_def s')
    show ?thesis
    proof (cases "transient a")
      case False
      with ans have "err = None" "isSuccessStatus st1 \<or> isNonRetryableStatus st1" and o: "outcome a = status_outcome st1"
        by (cases a rule: transient.cases; auto)+
      with ex R have "R = (handleWoLResponse env st1 body1, s1)" by (simp add: s1_def)
      then show ?thesis using tr1 w o False
        by (intro exI [of _ "w @ exchange r a0"]) (auto simp: settled_def handle_fits a_def [symmetric] bodies_closed_append)
    next
      case True
      define err' where "err' = (case err of Some e \<Rightarrow> err | None \<Rightarrow> Some (Errorf
        (gw_sentinel_text ErrWoLRequestFailed @ '': '' @ itoa st1) [Sentinel ErrWoLRequestFailed]))"
      have err': "err' \<noteq> None" "err \<noteq> None \<Longrightarrow> err' = err" "err = None \<Longrightarrow> fits err' (Some ErrWoLRequestFailed)"
        by (auto simp: err'_def fits_def split: option.splits)
      have "err = None \<Longrightarrow> \<not> (isSuccessStatus st1 \<or> isNonRetryableStatus st1)"
        using True ans by (cases a rule: transient.cases) (auto simp: fits_def)
      with ex R have R': "R = retry_loop env c machineID n (attempt + 1) err' st1 body1 s1"
        by (auto simp: s1_def err'_def split: option.split)
      from Suc.IH [of "attempt + 1" err' st1 body1 s1] R' obtain t where t: "gs_trace (snd R) = gs_trace s1 @ t"
        "length (answers t) \<le> n" "list_all transient (butlast (answers t))" "bodies_closed t"
        "if n = 0 then t = [] else t \<noteq> [] \<and> settled n t (fst R)" by auto
      let ?u = "w @ exchange r a0"
      have "settled (Suc n) (?u @ t) (fst R)"
      proof (cases "n = 0")
        case True
        with t(5) have "t = []" by simp
        from True R' have "fst R = (if err' \<noteq> None \<and> st1 = 0 then err' else handleWoLResponse env st1 body1)" by simp
        moreover have "fits (if err' \<noteq> None \<and> st1 = 0 then err' else handleWoLResponse env st1 body1) (outcome a)"
          by (rule outcome_after_failure [OF ans \<open>transient a\<close> err'(1)]) (use err'(2,3) in blast)+
        ultimately have "fits (fst R) (outcome a)" by (simp only:)
        with True \<open>t = []\<close> w show ?thesis by (simp add: settled_def a_def)
      next
        case False
        with t(5) w show ?thesis by (intro settled_prepend) auto
      qed
      moreover have "list_all transient (butlast (answers (?u @ t)))"
        using t(3) True w by (simp add: butlast_append a_def)
      moreover have "bodies_closed (?u @ t)" using t(4) w(2) by (simp add: bodies_closed_append)
      ultimately show ?thesis using t(1,2) tr1 w by (intro exI [of _ "?u @ t"]) simp
    qed
  qed
  show ?case
  proof (cases rule: wait_before_cases [of attempt env c s])
    case first
    with main [OF refl, of s "[]"] show ?thesis by simp
  next
    case (waited d w)
    with main [OF refl, of "s\<lparr>gs_world := w, gs_trace := gs_trace s @ [ActSleep d]\<rparr>" "[ActSleep d]"] show ?thesis by simp
  next
    case (interrupted d w err)
    then show ?thesis by (simp add: settled_def interrupted_def)
  qed
qed

section \<open>Waiting and metrics\<close>

fun waits_ok :: "duration \<Rightarrow> nat \<Rightarrow> duration list \<Rightarrow> bool" where
  "waits_ok base k [] = True"
| "waits_ok base k (d # ds) = (backs_off base k d \<and> waits_ok base (Suc k) ds)"

lemma executeWoLRequest_frame:
  "\<exists>t. gs_trace (snd (executeWoLRequest env c machineID s)) = gs_trace s @ t \<and> sleeps t = [] \<and>
     gs_metrics (snd (executeWoLRequest env c machineID s)) = gs_metrics s"
  by (auto simp: executeWoLRequest_def sendHTTPRequestAndReadResponse_def executeHTTPRequest_def closeResponseBody_def Let_def
      split: sum.splits prod.splits)

lemma retry_loop_waits:
  assumes "0 < rc_BaseDelay (gc_retryConfig c)" and "rc_BaseDelay (gc_retryConfig c) < 2 ^ 62" and "jitter_ok env"
    and "1 \<le> attempt"
  shows "\<exists>t. gs_trace (snd (retry_loop env c machineID n attempt lastErr st body s)) = gs_trace s @ t \<and>
    waits_ok (rc_BaseDelay (gc_retryConfig c)) (nat (attempt - 2)) (sleeps t) \<and>
    gs_metrics (snd (retry_loop env c machineID n attempt lastErr st body s)) = gs_metrics s"
  using assms(4)
proof (induction n arbitrary: attempt lastErr st body s)
  case 0
  then show ?case by simp
next
  case (Suc n)
  let ?base = "rc_BaseDelay (gc_retryConfig c)"
  have next': "nat (attempt + 1 - 2) = Suc (nat (attempt - 2))" if "attempt > 1" using that by simp
  have after: "\<exists>t. gs_trace (snd R) = gs_trace s' @ t \<and> waits_ok ?base (nat (attempt + 1 - 2)) (sleeps t) \<and>
      gs_metrics (snd R) = gs_metrics s'"
    if R: "R = (case executeWoLRequest env c machineID s' of
             ((statusCode, respBody, Some reqErr), s) \<Rightarrow>
               retry_loop env c machineID n (attempt + 1) (Some reqErr) statusCode respBody s
           | ((statusCode, respBody, None), s) \<Rightarrow>
               if isSuccessStatus statusCode \<or> isNonRetryableStatus statusCode
               then (handleWoLResponse env statusCode respBody, s)
               else retry_loop env c machineID n (attempt + 1)
                 (Some (Errorf (gw_sentinel_text ErrWoLRequestFailed @ '': '' @ itoa statusCode) [Sentinel ErrWoLRequestFailed]))
                 statusCode respBody s)" for R s'
  proof -
    obtain st1 body1 err s1 where ex: "executeWoLRequest env c machineID s' = ((st1, body1, err), s1)"
      by (metis prod.exhaust)
    from executeWoLRequest_frame [of env c machineID s'] ex obtain u where
      u: "gs_trace s1 = gs_trace s' @ u" "sleeps u = []" "gs_metrics s1 = gs_metrics s'" by auto
    from R ex have "R = (handleWoLResponse env st1 body1, s1) \<or>
        (\<exists>le. R = retry_loop env c machineID n (attempt + 1) le st1 body1 s1)"
      by (auto split: option.splits)
    then show ?thesis
    proof
      assume "R = (handleWoLResponse env st1 body1, s1)"
      with u show ?thesis by simp
    next
      assume "\<exists>le. R = retry_loop env c machineID n (attempt + 1) le st1 body1 s1"
      then obtain le where "R = retry_loop env c machineID n (attempt + 1) le st1 body1 s1" ..
      with Suc.IH [of "attempt + 1" le st1 body1 s1] Suc.prems obtain t where
        "gs_trace (snd R) = gs_trace s1 @ t" "waits_ok ?base (nat (attempt + 1 - 2)) (sleeps t)"
        "gs_metrics (snd R) = gs_metrics s1" by auto
      with u show ?thesis by (intro exI [of _ "u @ t"]) simp
    qed
  qed
  show ?case
  proof (cases rule: wait_before_cases [of attempt env c s])
    case first
    with Suc.prems have "nat (attempt - 2) = nat (attempt + 1 - 2)" by simp
    with after [OF refl, of s] first show ?thesis by simp
  next
    case (waited d w)
    have "backs_off ?base (nat (attempt - 2)) d"
      using Backoff_backs_off [OF assms(1,2,3), of "attempt - 1" s] waited(3) by (simp add: diff_diff_eq)
    moreover obtain t where "gs_trace (snd (retry_loop env c machineID (Suc n) attempt lastErr st body s)) =
        gs_trace s @ ActSleep d # t" "waits_ok ?base (nat (attempt + 1 - 2)) (sleeps t)"
        "gs_metrics (snd (retry_loop env c machineID (Suc n) attempt lastErr st body s)) = gs_metrics s"
      using after [OF refl, of "s\<lparr>gs_world := w, gs_trace := gs_trace s @ [ActSleep d]\<rparr>"] waited(2) by auto
    ultimately show ?thesis using next' [OF waited(1)]
      by (intro exI [of _ "ActSleep d # t"]) simp
  next
    case (interrupted d w err)
    have "backs_off ?base (nat (attempt - 2)) d"
      using Backoff_backs_off [OF assms(1,2,3), of "attempt - 1" s] interrupted(3) by (simp add: diff_diff_eq)
    with interrupted(2) show ?thesis by (intro exI [of _ "[ActSleep d]"]) simp
  qed
qed

lemma SendWoL_sendWithRetry:
  assumes "machineID \<noteq> []"
  shows "\<exists>w d. fst (SendWoL env c machineID s) = fst (sendWithRetry env c machineID (s\<lparr>gs_world := w\<rparr>)) \<and>
    gs_trace (snd (SendWoL env c machineID s)) = gs_trace (snd (sendWithRetry env c machineID (s\<lparr>gs_world := w\<rparr>))) \<and>
    gs_metrics (snd (SendWoL env c machineID s)) =
      RecordAPICall ''send_wol'' (fst (SendWoL env c machineID s) = None) d
        (gs_metrics (snd (sendWithRetry env c machineID (s\<lparr>gs_world := w\<rparr>))))"
proof -
  obtain t1 w1 where now: "ge_now env (gs_world s) = (t1, w1)" by fastforce
  obtain r s2 where send: "sendWithRetry env c machineID (s\<lparr>gs_world := w1\<rparr>) = (r, s2)" by fastforce
  obtain t2 w2 where now2: "ge_now env (gs_world s2) = (t2, w2)" by fastforce
  show ?thesis
    by (intro exI [of _ w1] exI [of _ "time_sub t2 t1"]) (simp add: SendWoL_def now send now2 assms)
qed

text \<open>A base delay of 2^62 ns (146 years) or more overflows when it is doubled: the delay is negative.\<close>

lemma backoff_overflow: "backoff_delay \<lparr>rc_MaxAttempts = 2, rc_BaseDelay = 2 ^ 62\<rparr> 2 < 0"
  by code_simp

section \<open>Example\<close>

definition replied :: "int \<Rightarrow> string \<Rightarrow> wol_reply" where
  "replied status body = Inr \<lparr>wr_status = status, wr_bytes = body, wr_broken = None\<rparr>"

definition broken_off :: "int \<Rightarrow> string \<Rightarrow> wol_reply" where
  "broken_off status e = Inr \<lparr>wr_status = status, wr_bytes = [], wr_broken = Some e\<rparr>"

definition script_env :: "wol_reply list gwaihir_env" where
  "script_env = \<lparr>ge_marshal = Inr, ge_unmarshal = (\<lambda>b. None), ge_resolve = (\<lambda>u. u),
     ge_do = (\<lambda>r w. case w of [] \<Rightarrow> (Inl ''refused'', []) | a # w \<Rightarrow> (a, w)), ge_sleep = (\<lambda>d w. (None, w)),
     ge_jitter = (\<lambda>d w. (d div 20, w)), ge_now = (\<lambda>w. (0, w))\<rparr>"

definition example_client :: gwaihir_client where
  "example_client = \<lparr>gc_baseURL = ''http://g'', gc_apiKey = ''k'', gc_timeout = 5, gc_retryConfig = NewRetryConfig\<rparr>"

definition example_state :: "wol_reply list \<Rightarrow> wol_reply list gw_state" where
  "example_state as = \<lparr>gs_world = as, gs_trace = [], gs_metrics = Some []\<rparr>"

lemma example_requestable: "requestable script_env example_client ''m''"
  by code_simp

lemma example_jitter: "jitter_ok script_env"
  by (simp add: jitter_ok_def script_env_def) linarith

section \<open>Properties\<close>

text \<open>C13. SendWoL sends the request at most MaxAttempts times and repeats it only after a transient
  answer: a transport failure, a body that cannot be read, or a status that is neither 2xx nor 4xx. Unless
  its context ends while it waits, its result is the error of the last answer (nil for 2xx,
  authentication for 401, unknown machine for 404, network or service failure otherwise), and if
  that answer is transient all attempts were used up. Every response body received is closed before
  the next step.\<close>
theorem SendWoL_attempts_and_result:
  assumes "machineID \<noteq> []" and "requestable env c machineID" and "1 \<le> rc_MaxAttempts (gc_retryConfig c)"
  shows "\<exists>t. gs_trace (snd (SendWoL env c machineID s)) = gs_trace s @ t \<and>
    int (length (answers t)) \<le> rc_MaxAttempts (gc_retryConfig c) \<and> list_all transient (butlast (answers t)) \<and>
    bodies_closed t \<and> settled (nat (rc_MaxAttempts (gc_retryConfig c))) t (fst (SendWoL env c machineID s))"
proof -
  from SendWoL_sendWithRetry [OF assms(1), of env c s] obtain w where
    eq: "fst (SendWoL env c machineID s) = fst (sendWithRetry env c machineID (s\<lparr>gs_world := w\<rparr>))"
      "gs_trace (snd (SendWoL env c machineID s)) = gs_trace (snd (sendWithRetry env c machineID (s\<lparr>gs_world := w\<rparr>)))"
    by blast
  have n: "nat (rc_MaxAttempts (gc_retryConfig c)) \<noteq> 0" using assms(3) by simp
  from retry_loop_settled [OF assms(2), of "nat (rc_MaxAttempts (gc_retryConfig c))" 1 None 0 "[]" "s\<lparr>gs_world := w\<rparr>"]
  show ?thesis unfolding eq sendWithRetry_def using n assms(3) by (auto simp: nat_le_iff le_nat_iff)
qed

lemma SendWoL_attempts_and_result_witness:
  "\<exists>t. answers t = [Inr (500, Inr []), Inr (401, Inr [])] \<and>
     settled 3 t (fst (SendWoL script_env example_client ''m'' (example_state [replied 500 [], replied 401 []])))"
proof -
  let ?s = "example_state [replied 500 [], replied 401 []]"
  have max: "1 \<le> rc_MaxAttempts (gc_retryConfig example_client)" "nat (rc_MaxAttempts (gc_retryConfig example_client)) = 3"
    by (simp_all add: example_client_def NewRetryConfig_def defaultMaxAttempts_def)
  have "answers (gs_trace (snd (SendWoL script_env example_client ''m'' ?s))) = [Inr (500, Inr []), Inr (401, Inr [])]"
    by code_simp
  moreover have "gs_trace ?s = []" by (simp add: example_state_def)
  ultimately show ?thesis
    using SendWoL_attempts_and_result [OF _ example_requestable max(1), of ?s] by (auto simp: max(2))
qed



text \<open>The comment on SendWoL says that permanent errors (4xx) are never retried; a 4xx answer whose
  body cannot be read is. In the same way an accepted command whose confirmation cannot be read is sent
  again, up to MaxAttempts times, before SendWoL reports success.\<close>
theorem unreadable_answers_are_retried:
  "(let r = SendWoL script_env example_client ''m''
      (example_state [broken_off 403 ''reset'', broken_off 403 ''reset'', replied 202 []])
    in answers (gs_trace (snd r)) = [Inr (403, Inl ''reset''), Inr (403, Inl ''reset''), Inr (202, Inr [])] \<and> fst r = None) \<and>
   (let r = SendWoL script_env example_client ''m''
      (example_state [broken_off 202 ''reset'', broken_off 202 ''reset'', broken_off 202 ''reset''])
    in answers (gs_trace (snd r)) = [Inr (202, Inl ''reset''), Inr (202, Inl ''reset''), Inr (202, Inl ''reset'')] \<and> fst r = None)"
  by code_simp

end
