(* ===== verification/Logger.thy ===== *)
theory Logger
  imports ConfigTypes
begin

text \<open>
  The logger, \<open>internal/infrastructure/logger/logger.go\<close>: levels and formats from strings, and which
  records a logger writes. The handlers of \<open>log/slog\<close> write a record when its level is at least the
  handler's; the text of a record is theirs.
\<close>

datatype log_level = LevelDebug | LevelInfo | LevelWarn | LevelError

datatype log_handler = JSON | TEXT

fun level_name :: "log_level \<Rightarrow> string" where
  "level_name LevelDebug = ''debug''"
| "level_name LevelInfo = ''info''"
| "level_name LevelWarn = ''warn''"
| "level_name LevelError = ''error''"

definition LevelFrom :: "string \<Rightarrow> log_level" where
  "LevelFrom s =
     (if s = ''debug'' then LevelDebug else if s = ''warn'' then LevelWarn
      else if s = ''error'' then LevelError else LevelInfo)"

definition FormatFrom :: "string \<Rightarrow> log_handler" where
  "FormatFrom s = (if s = ''text'' then TEXT else JSON)"

text \<open>\<open>parseLevel\<close>: the numbers of \<open>slog.Level\<close>.\<close>

fun parseLevel :: "log_level \<Rightarrow> int" where
  "parseLevel LevelDebug = -4"
| "parseLevel LevelInfo = 0"
| "parseLevel LevelWarn = 4"
| "parseLevel LevelError = 8"

text \<open>Levels are ordered by severity.\<close>

instantiation log_level :: linorder
begin

definition less_eq_log_level :: "log_level \<Rightarrow> log_level \<Rightarrow> bool" where
  "less_eq_log_level a b \<longleftrightarrow> parseLevel a \<le> parseLevel b"

definition less_log_level :: "log_level \<Rightarrow> log_level \<Rightarrow> bool" where
  "less_log_level a b \<longleftrightarrow> parseLevel a < parseLevel b"

instance
proof
  fix a b c :: log_level
  show "a < b \<longleftrightarrow> a \<le> b \<and> \<not> b \<le> a" by (auto simp: less_log_level_def less_eq_log_level_def)
  show "a \<le> a" by (simp add: less_eq_log_level_def)
  show "a \<le> b \<Longrightarrow> b \<le> c \<Longrightarrow> a \<le> c" by (simp add: less_eq_log_level_def)
  show "a \<le> b \<Longrightarrow> b \<le> a \<Longrightarrow> a = b" by (cases a; cases b) (simp_all add: less_eq_log_level_def)
  show "a \<le> b \<or> b \<le> a" by (auto simp: less_eq_log_level_def)
qed

end

datatype log_value = LStr string | LInt int

type_synonym log_record = "log_level \<times> string \<times> (string \<times> log_value) list"

record logger =
  lg_level :: log_level
  lg_handler :: log_handler
  lg_with :: "(string \<times> log_value) list"
  lg_groups :: "string list"
  lg_out :: "log_record list"

definition createHandler :: "log_handler \<Rightarrow> log_handler" where
  "createHandler h = (case h of TEXT \<Rightarrow> TEXT | JSON \<Rightarrow> JSON)"

definition logger_New :: "log_level \<Rightarrow> log_handler \<Rightarrow> logger" where
  "logger_New level h = \<lparr>lg_level = level, lg_handler = createHandler h, lg_with = [], lg_groups = [], lg_out = []\<rparr>"

text \<open>\<open>env\<close> is \<open>os.Getenv\<close>: the empty string for a variable that is not set.\<close>

definition NewFromEnvs :: "(string \<Rightarrow> string) \<Rightarrow> logger" where
  "NewFromEnvs env = logger_New (LevelFrom (env ''SMAUG_LOG_LEVEL'')) (FormatFrom (env ''SMAUG_LOG_FORMAT''))"

text \<open>Attributes added inside groups carry the names of the groups.\<close>

definition qualify :: "string list \<Rightarrow> (string \<times> log_value) list \<Rightarrow> (string \<times> log_value) list" where
  "qualify gs args = map (\<lambda>(k, v). (concat (map (\<lambda>g. g @ ''.'') gs) @ k, v)) args"

text \<open>\<open>Debug\<close>, \<open>Info\<close>, \<open>Warn\<close> and \<open>Error\<close>, with or without a context.\<close>

definition log_at :: "log_level \<Rightarrow> string \<Rightarrow> (string \<times> log_value) list \<Rightarrow> logger \<Rightarrow> logger" where
  "log_at level msg args l =
     (if lg_level l \<le> level then l\<lparr>lg_out := lg_out l @ [(level, msg, lg_with l @ qualify (lg_groups l) args)]\<rparr> else l)"

definition logger_With :: "(string \<times> log_value) list \<Rightarrow> logger \<Rightarrow> logger" where
  "logger_With args l = l\<lparr>lg_with := lg_with l @ qualify (lg_groups l) args\<rparr>"

definition logger_WithGroup :: "string \<Rightarrow> logger \<Rightarrow> logger" where
  "logger_WithGroup name l = (if name = [] then l else l\<lparr>lg_groups := lg_groups l @ [name]\<rparr>)"

definition logger_Stop :: "logger \<Rightarrow> string option" where
  "logger_Stop l = None"

text \<open>Every name of a level denotes itself, and any other text the level info.\<close>

lemma LevelFrom_name [simp]: "LevelFrom (level_name l) = l"
  by (cases l) (simp_all add: LevelFrom_def)

lemma LevelFrom_unknown: "s \<notin> range level_name \<Longrightarrow> LevelFrom s = LevelInfo"
  unfolding LevelFrom_def by (metis level_name.simps rangeI)

text \<open>A quieter logger writes a subsequence of what a more verbose one writes.\<close>

definition log_all :: "(log_level \<times> string \<times> (string \<times> log_value) list) list \<Rightarrow> logger \<Rightarrow> logger" where
  "log_all es l = fold (\<lambda>(lv, m, a). log_at lv m a) es l"

lemma log_all_out:
  "lg_out (log_all es l) = lg_out l @ map (\<lambda>(lv, m, a). (lv, m, lg_with l @ qualify (lg_groups l) a)) (filter (\<lambda>(lv, m, a). lg_level l \<le> lv) es)"
proof (induction es arbitrary: l)
  case Nil
  then show ?case by (simp add: log_all_def)
next
  case (Cons e es)
  obtain lv m a where e: "e = (lv, m, a)" by (cases e)
  have "log_all (e # es) l = log_all es (log_at lv m a l)" by (simp add: log_all_def e)
  then show ?case by (simp add: Cons e log_at_def)
qed

end
