(* ===== verification/HealthManager.thy ===== *)
theory HealthManager
  imports HealthCheck Validation Logger
begin

text \<open>
  The health manager, \<open>internal/health/manager.go\<close>: Start spawns one worker per server with a health
  endpoint and a positive interval, each worker checks its server at once and then at every tick until its
  context is done, and Stop cancels the workers and waits for them.
\<close>

section \<open>The manager\<close>

record server_worker =
  wk_serverID :: string
  wk_interval :: duration
  wk_timeout :: duration
  wk_checker :: server_health_checker

text \<open>
  \<open>hm_cancel\<close> is the run whose cancel function is held, if any; \<open>hm_runs\<close> counts the runs;
  \<open>hm_live\<close> are the worker goroutines with the run they belong to.
\<close>

record health_manager =
  hm_config :: config
  hm_metrics :: bool
  hm_workers :: "server_worker list"
  hm_cancel :: "nat option"
  hm_runs :: nat
  hm_live :: "(nat \<times> server_worker) list"

datatype health_manager_error = HealthAlreadyRunning | HealthNotRunning | HealthShutdownTimeout | HealthPanic

definition NewHealthManager :: "config \<Rightarrow> health_manager" where
  "NewHealthManager cfg =
     \<lparr>hm_config = cfg, hm_metrics = False, hm_workers = [], hm_cancel = None, hm_runs = 0, hm_live = []\<rparr>"

definition HealthManager_SetMetrics :: "bool \<Rightarrow> health_manager \<Rightarrow> health_manager" where
  "HealthManager_SetMetrics reg m = (if hm_cancel m \<noteq> None then m else m\<lparr>hm_metrics := reg\<rparr>)"

definition newWorkerFor :: "server \<Rightarrow> health_manager \<Rightarrow> string \<Rightarrow> server_worker option" where
  "newWorkerFor srv m serverID =
     (let h = srv_healthCheck srv;
          healthChecker = NewHealthChecker (hc_endpoint h) (hc_timeout h) (SecretString_Value (hc_authToken h))
      in (case NewServerHealthChecker serverID healthChecker (hm_metrics m) of
            None \<Rightarrow> None
          | Some serverChecker \<Rightarrow> Some \<lparr>wk_serverID = serverID, wk_interval = hc_interval h,
              wk_timeout = hc_timeout h, wk_checker = serverChecker\<rparr>))"

text \<open>The loop of Start over the servers in the order \<open>range\<close> yields; None is a panic.\<close>

fun start_workers :: "nat \<Rightarrow> string list \<Rightarrow> health_manager \<Rightarrow> health_manager option" where
  "start_workers run [] m = Some m"
| "start_workers run (serverID # ids) m =
     (case cfg_servers (hm_config m) serverID of
        None \<Rightarrow> start_workers run ids m
      | Some srv \<Rightarrow>
          if hc_endpoint (srv_healthCheck srv) = [] then start_workers run ids m
          else if hc_interval (srv_healthCheck srv) \<le> 0 then start_workers run ids m
          else (case newWorkerFor srv m serverID of
              None \<Rightarrow> None
            | Some w \<Rightarrow> start_workers run ids (m\<lparr>hm_workers := hm_workers m @ [w], hm_live := hm_live m @ [(run, w)]\<rparr>)))"

definition HealthManager_Start ::
  "string list \<Rightarrow> health_manager \<Rightarrow> (health_manager_error option \<times> health_manager) option" where
  "HealthManager_Start order m =
     (if hm_cancel m \<noteq> None then Some (Some HealthAlreadyRunning, m)
      else (case start_workers (hm_runs m) order (m\<lparr>hm_cancel := Some (hm_runs m), hm_runs := Suc (hm_runs m)\<rparr>) of
          None \<Rightarrow> None
        | Some m \<Rightarrow> Some (None, m)))"

text \<open>\<open>inTime\<close>: the workers finish within five seconds, so that waiting for the wait group ends.\<close>

definition HealthManager_Stop :: "bool \<Rightarrow> health_manager \<Rightarrow> health_manager_error option \<times> health_manager" where
  "HealthManager_Stop inTime m =
     (if hm_cancel m = None then (Some HealthNotRunning, m)
      else if inTime then (None, m\<lparr>hm_cancel := None, hm_live := []\<rparr>)
      else (Some HealthShutdownTimeout, m\<lparr>hm_cancel := None\<rparr>))"

text \<open>A panic in Start ends the program; for the life cycle it is a refusal.\<close>

definition start_or_panic :: "string list \<Rightarrow> health_manager \<Rightarrow> health_manager_error option \<times> health_manager" where
  "start_or_panic order m = (case HealthManager_Start order m of Some r \<Rightarrow> r | None \<Rightarrow> (Some HealthPanic, m))"

lemma start_workers_cancel: "start_workers run ids m = Some m' \<Longrightarrow> hm_cancel m' = hm_cancel m"
  by (induction run ids m rule: start_workers.induct) (auto split: option.splits if_splits)

interpretation health_cycle: lifecycle "\<lambda>m. hm_cancel m \<noteq> None" "start_or_panic order" "HealthManager_Stop inTime"
  by unfold_locales
    (auto simp: start_or_panic_def HealthManager_Start_def HealthManager_Stop_def dest: start_workers_cancel
      split: option.splits if_splits)

section \<open>A worker\<close>

type_synonym log_entry = "log_level \<times> string"

definition logStateTransition :: "server_health_status \<Rightarrow> server_health_status \<Rightarrow> log_entry" where
  "logStateTransition prev current =
     (if time_is_zero (st_lastCheckedAt prev) then
        (if st_healthy current then (LevelInfo, ''server is healthy'') else (LevelWarn, ''server is unhealthy''))
      else if \<not> st_healthy prev \<and> st_healthy current then (LevelInfo, ''server recovered'')
      else if st_healthy prev \<and> \<not> st_healthy current then (LevelWarn, ''server became unhealthy'')
      else if st_healthy current then (LevelDebug, ''server health check succeeded'')
      else (LevelDebug, ''server still unhealthy''))"

text \<open>The transport is bounded by the timeout of the check's context.\<close>

definition performCheck ::
  "(duration \<Rightarrow> 'w transport) \<Rightarrow> time \<Rightarrow> server_worker \<Rightarrow> 'w health_world \<Rightarrow> log_entry \<times> 'w health_world" where
  "performCheck net now worker hw =
     (let checkTimeout = (if wk_timeout worker \<le> 0 then 30 * second else wk_timeout worker);
          prevStatus = fst (store_Get (hw_store hw) (wk_serverID worker));
          ((newStatus, err), hw) = Check (net checkTimeout) now (wk_checker worker) hw
      in (logStateTransition prevStatus newStatus, hw))"

datatype worker_event = WorkerCtxDone | WorkerTick time

fun worker_loop ::
  "(duration \<Rightarrow> 'w transport) \<Rightarrow> server_worker \<Rightarrow> worker_event list \<Rightarrow> 'w health_world \<Rightarrow> log_entry list \<times> 'w health_world" where
  "worker_loop net worker [] hw = ([], hw)"
| "worker_loop net worker (WorkerCtxDone # evs) hw = ([], hw)"
| "worker_loop net worker (WorkerTick now # evs) hw =
     (let (entry, hw) = performCheck net now worker hw; (log, hw) = worker_loop net worker evs hw in (entry # log, hw))"

definition runWorker ::
  "(duration \<Rightarrow> 'w transport) \<Rightarrow> server_worker \<Rightarrow> time \<Rightarrow> worker_event list \<Rightarrow> 'w health_world
     \<Rightarrow> log_entry list \<times> 'w health_world" where
  "runWorker net worker now evs hw =
     (let (entry, hw) = performCheck net now worker hw; (log, hw) = worker_loop net worker evs hw in (entry # log, hw))"

section \<open>Which servers have a worker\<close>

definition monitored :: "config \<Rightarrow> string \<Rightarrow> bool" where
  "monitored c serverID \<longleftrightarrow> (case cfg_servers c serverID of None \<Rightarrow> False
     | Some srv \<Rightarrow> hc_endpoint (srv_healthCheck srv) \<noteq> [] \<and> 0 < hc_interval (srv_healthCheck srv))"

definition worker_of :: "config \<Rightarrow> bool \<Rightarrow> string \<Rightarrow> server_worker" where
  "worker_of c reg serverID =
     (let h = srv_healthCheck (the (cfg_servers c serverID)) in
      \<lparr>wk_serverID = serverID, wk_interval = hc_interval h, wk_timeout = hc_timeout h,
       wk_checker = \<lparr>shc_serverID = serverID,
         shc_checker = NewHealthChecker (hc_endpoint h) (hc_timeout h) (SecretString_Value (hc_authToken h)),
         shc_metrics = reg\<rparr>\<rparr>)"

lemma start_workers_result:
  "start_workers run ids m =
     (if [] \<in> set ids \<and> monitored (hm_config m) [] then None
      else Some (m\<lparr>hm_workers := hm_workers m @ map (worker_of (hm_config m) (hm_metrics m)) (filter (monitored (hm_config m)) ids),
        hm_live := hm_live m @ map (\<lambda>k. (run, worker_of (hm_config m) (hm_metrics m) k)) (filter (monitored (hm_config m)) ids)\<rparr>))"
proof (induction ids arbitrary: m)
  case Nil
  then show ?case by simp
next
  case (Cons k ids)
  show ?case
  proof (cases "monitored (hm_config m) k")
    case False
    then have "start_workers run (k # ids) m = start_workers run ids m"
      by (auto simp: monitored_def split: option.splits)
    with False Cons [of m] show ?thesis by auto
  next
    case True
    then obtain srv where srv: "cfg_servers (hm_config m) k = Some srv" "hc_endpoint (srv_healthCheck srv) \<noteq> []"
      "0 < hc_interval (srv_healthCheck srv)" by (auto simp: monitored_def split: option.splits)
    show ?thesis
    proof (cases "k = []")
      case True
      with srv \<open>monitored (hm_config m) k\<close> show ?thesis
        by (simp add: newWorkerFor_def NewServerHealthChecker_def Let_def)
    next
      case False
      then have "newWorkerFor srv m k = Some (worker_of (hm_config m) (hm_metrics m) k)"
        by (simp add: newWorkerFor_def NewServerHealthChecker_def worker_of_def srv Let_def)
      with srv False True show ?thesis by (simp add: Cons)
    qed
  qed
qed

section \<open>What a worker writes\<close>

lemma performCheck_store:
  "k \<noteq> shc_serverID (wk_checker worker) \<Longrightarrow>
     store_Get (hw_store (snd (performCheck net now worker hw))) k = store_Get (hw_store hw) k"
  by (simp add: performCheck_def Check_fields ims.get_update split_beta Let_def)

lemma worker_loop_store:
  "k \<noteq> shc_serverID (wk_checker worker) \<Longrightarrow>
     store_Get (hw_store (snd (worker_loop net worker evs hw))) k = store_Get (hw_store hw) k"
proof (induction evs arbitrary: hw)
  case Nil
  then show ?case by simp
next
  case (Cons ev evs)
  then show ?case by (cases ev) (simp_all add: split_beta Let_def performCheck_store)
qed

text \<open>Messages that report a change: \<open>Some True\<close> up, \<open>Some False\<close> down.\<close>

definition change :: "log_entry \<Rightarrow> bool option" where
  "change e = (if e = (LevelInfo, ''server recovered'') then Some True
     else if e = (LevelWarn, ''server became unhealthy'') then Some False else None)"

definition changes :: "log_entry list \<Rightarrow> bool list" where
  "changes log = map the (filter (\<lambda>c. c \<noteq> None) (map change log))"

fun alternating :: "bool \<Rightarrow> bool list \<Rightarrow> bool" where
  "alternating b [] = True"
| "alternating b (c # cs) = (c \<noteq> b \<and> alternating c cs)"

definition own_checker :: "server_worker \<Rightarrow> bool" where
  "own_checker worker \<longleftrightarrow> shc_serverID (wk_checker worker) = wk_serverID worker"

definition health_of :: "'w health_world \<Rightarrow> string \<Rightarrow> bool" where
  "health_of hw k = st_healthy (fst (store_Get (hw_store hw) k))"

definition checked :: "'w health_world \<Rightarrow> string \<Rightarrow> bool" where
  "checked hw k \<longleftrightarrow> \<not> time_is_zero (st_lastCheckedAt (fst (store_Get (hw_store hw) k)))"

lemma performCheck_facts:
  assumes "own_checker worker" and "now \<noteq> 0"
  shows "checked (snd (performCheck net now worker hw)) (wk_serverID worker)"
    and "fst (performCheck net now worker hw) = logStateTransition (fst (store_Get (hw_store hw) (wk_serverID worker)))
      (fst (store_Get (hw_store (snd (performCheck net now worker hw))) (wk_serverID worker)))"
  using assms
  by (simp_all add: performCheck_def Check_fields ims.get_update split_beta Let_def own_checker_def checked_def time_is_zero_def)

lemma transition_change:
  "\<not> time_is_zero (st_lastCheckedAt prev) \<Longrightarrow> change (logStateTransition prev cur) =
     (if st_healthy prev = st_healthy cur then None else Some (st_healthy cur))"
  "time_is_zero (st_lastCheckedAt prev) \<Longrightarrow> change (logStateTransition prev cur) = None"
  by (auto simp: change_def logStateTransition_def)

fun event_clock_ok :: "worker_event \<Rightarrow> bool" where
  "event_clock_ok WorkerCtxDone = True"
| "event_clock_ok (WorkerTick now) = (now \<noteq> 0)"

lemma worker_loop_changes:
  assumes "own_checker worker" and "list_all event_clock_ok evs" and "checked hw (wk_serverID worker)"
  shows "alternating (health_of hw (wk_serverID worker)) (changes (fst (worker_loop net worker evs hw))) \<and>
    (changes (fst (worker_loop net worker evs hw)) \<noteq> [] \<longrightarrow>
       last (changes (fst (worker_loop net worker evs hw))) =
         health_of (snd (worker_loop net worker evs hw)) (wk_serverID worker)) \<and>
    (changes (fst (worker_loop net worker evs hw)) = [] \<longrightarrow>
       health_of (snd (worker_loop net worker evs hw)) (wk_serverID worker) = health_of hw (wk_serverID worker))"
  using assms
proof (induction net worker evs hw rule: worker_loop.induct)
  case (3 net worker now evs hw)
  obtain entry hw1 where pc: "performCheck net now worker hw = (entry, hw1)" by fastforce
  obtain log hw2 where wl: "worker_loop net worker evs hw1 = (log, hw2)" by fastforce
  have now: "now \<noteq> 0" using 3(3) by simp
  have chk: "checked hw1 (wk_serverID worker)"
    using performCheck_facts(1) [OF 3(2) now, of net hw] pc by simp
  have entry: "entry = logStateTransition (fst (store_Get (hw_store hw) (wk_serverID worker)))
      (fst (store_Get (hw_store hw1) (wk_serverID worker)))"
    using performCheck_facts(2) [OF 3(2) now, of net hw] pc by simp
  have c: "change entry = (if health_of hw (wk_serverID worker) = health_of hw1 (wk_serverID worker) then None
      else Some (health_of hw1 (wk_serverID worker)))"
    unfolding entry health_of_def by (rule transition_change(1)) (use 3(4) in \<open>simp add: checked_def\<close>)
  have "list_all event_clock_ok evs" using 3(3) by simp
  note IH = 3(1) [OF pc [symmetric] refl 3(2) this chk, unfolded wl fst_conv snd_conv]
  have "changes (entry # log) = (case change entry of None \<Rightarrow> changes log | Some b \<Rightarrow> b # changes log)"
    by (simp add: changes_def split: option.split)
  with IH c show ?case by (auto simp: pc wl)
qed (auto simp: changes_def)

section \<open>Properties\<close>

text \<open>Start on a stopped manager spawns exactly one worker for every server with a health endpoint
  and a positive interval, with the settings of that server, whatever order the map is visited in;
  on a running manager it is refused, and it panics exactly when a server to be monitored has the
  empty name.\<close>
theorem health_Start_spawns_workers:
  assumes "range_order order (cfg_servers (hm_config m))" and "hm_cancel m = None"
  shows "(HealthManager_Start order m = None \<longleftrightarrow> monitored (hm_config m) []) \<and>
    (\<forall>r m'. HealthManager_Start order m = Some (r, m') \<longrightarrow> r = None \<and> hm_cancel m' = Some (hm_runs m) \<and>
       HealthManager_Start order m' = Some (Some HealthAlreadyRunning, m') \<and>
       (\<exists>ids. distinct ids \<and> set ids = {k. monitored (hm_config m) k} \<and>
          hm_live m' = hm_live m @ map (\<lambda>k. (hm_runs m, worker_of (hm_config m) (hm_metrics m) k)) ids))"
proof -
  let ?c = "hm_config m"
  have dom: "{k. monitored ?c k} \<subseteq> set order"
    using range_order_dom [OF assms(1)] by (auto simp: monitored_def split: option.splits)
  then have ids: "distinct (filter (monitored ?c) order)" "set (filter (monitored ?c) order) = {k. monitored ?c k}"
    using range_order_distinct [OF assms(1)] by auto
  have panic: "[] \<in> set order \<and> monitored ?c [] \<longleftrightarrow> monitored ?c []" using dom by auto
  show ?thesis
  proof (cases "monitored ?c []")
    case True
    then show ?thesis using assms(2) panic by (simp add: HealthManager_Start_def start_workers_result)
  next
    case False
    then show ?thesis using assms(2) panic ids by (auto simp: HealthManager_Start_def start_workers_result)
  qed
qed

definition monitored_config :: "string \<Rightarrow> duration \<Rightarrow> config" where
  "monitored_config name interval =
     sample_config\<lparr>cfg_servers := [''nas'' \<mapsto> zero_server, name \<mapsto> zero_server\<lparr>srv_healthCheck :=
        zero_hc\<lparr>hc_endpoint := ''http://nas/h'', hc_interval := interval\<rparr>\<rparr>]\<rparr>"

lemma health_Start_spawns_workers_witness:
  "\<exists>m'. HealthManager_Start [''nas'', ''pi''] (NewHealthManager (monitored_config ''pi'' 5)) = Some (None, m') \<and>
     length (hm_live m') = 1"
proof -
  let ?m = "NewHealthManager (monitored_config ''pi'' 5)"
  have order: "range_order [''nas'', ''pi''] (cfg_servers (hm_config ?m))"
    by (auto simp: range_order_def NewHealthManager_def monitored_config_def)
  have stopped: "hm_cancel ?m = None" by (simp add: NewHealthManager_def)
  note spawn = health_Start_spawns_workers [OF order stopped]
  have "\<not> monitored (hm_config ?m) []"
    by (simp add: monitored_def NewHealthManager_def monitored_config_def)
  with spawn obtain r m' where "HealthManager_Start [''nas'', ''pi''] ?m = Some (r, m')"
    by (cases "HealthManager_Start [''nas'', ''pi''] ?m") auto
  with spawn obtain ids where m': "HealthManager_Start [''nas'', ''pi''] ?m = Some (None, m')"
      "set ids = {k. monitored (hm_config ?m) k}" "distinct ids"
      "hm_live m' = hm_live ?m @ map (\<lambda>k. (hm_runs ?m, worker_of (hm_config ?m) (hm_metrics ?m) k)) ids" by auto
  have "{k. monitored (hm_config ?m) k} = {''pi''}"
    by (auto simp: monitored_def NewHealthManager_def monitored_config_def zero_server_def zero_hc_def split: if_splits option.splits)
  with m' have "length ids = 1" using distinct_card [of ids] by simp
  with m' show ?thesis by (intro exI [of _ m']) (simp add: NewHealthManager_def)
qed

text \<open>C20. A worker writes only the status of its own server, and the changes it reports are
  sound: starting from the status known before, the messages server recovered and server became unhealthy
  alternate, and the last of them tells the status the store holds at the end.\<close>
theorem health_worker_reports_changes:
  assumes "own_checker worker" and "list_all event_clock_ok evs" and "checked hw (wk_serverID worker)"
  shows "(\<forall>k. k \<noteq> wk_serverID worker \<longrightarrow>
      store_Get (hw_store (snd (worker_loop net worker evs hw))) k = store_Get (hw_store hw) k) \<and>
    alternating (health_of hw (wk_serverID worker)) (changes (fst (worker_loop net worker evs hw))) \<and>
    health_of (snd (worker_loop net worker evs hw)) (wk_serverID worker) =
      last (health_of hw (wk_serverID worker) # changes (fst (worker_loop net worker evs hw)))"
proof -
  have "\<forall>k. k \<noteq> wk_serverID worker \<longrightarrow>
      store_Get (hw_store (snd (worker_loop net worker evs hw))) k = store_Get (hw_store hw) k"
    using assms(1) worker_loop_store by (metis own_checker_def)
  with worker_loop_changes [OF assms, of net] show ?thesis by auto
qed

definition example_worker :: server_worker where
  "example_worker = worker_of (monitored_config ''pi'' 5) False ''pi''"

definition example_net :: "duration \<Rightarrow> int list transport" where
  "example_net d r url w = (case w of [] \<Rightarrow> (Inl (Sentinel DeadlineExceeded), []) | s # w \<Rightarrow> (Inr (s, None), w))"

definition example_world :: "int list \<Rightarrow> int list health_world" where
  "example_world ss = \<lparr>hw_world = ss, hw_store = store_Update NewInMemoryHealthStore ''pi''
     \<lparr>st_serverID = ''pi'', st_healthy = True, st_lastCheckedAt = 1, st_lastError = []\<rparr>, hw_metrics = None\<rparr>"

lemma health_worker_reports_changes_witness:
  "changes (fst (worker_loop example_net example_worker [WorkerTick 2, WorkerTick 3, WorkerTick 4, WorkerCtxDone]
       (example_world [500, 200, 503]))) = [False, True, False] \<and>
   \<not> health_of (snd (worker_loop example_net example_worker [WorkerTick 2, WorkerTick 3, WorkerTick 4, WorkerCtxDone]
       (example_world [500, 200, 503]))) ''pi''"
proof -
  let ?evs = "[WorkerTick 2, WorkerTick 3, WorkerTick 4, WorkerCtxDone]"
  have c: "changes (fst (worker_loop example_net example_worker ?evs (example_world [500, 200, 503]))) = [False, True, False]"
    by code_simp
  have id: "wk_serverID example_worker = ''pi''" by (simp add: example_worker_def worker_of_def Let_def)
  have "own_checker example_worker" by code_simp
  moreover have "checked (example_world [500, 200, 503]) (wk_serverID example_worker)" by code_simp
  ultimately show ?thesis
    using health_worker_reports_changes [of example_worker ?evs "example_world [500, 200, 503]" example_net] c
    by (simp add: id)
qed

text \<open>Validation and the health manager disagree: a server with the empty name and a monitored
  endpoint passes validation and makes Start panic, and a server whose interval is left out (zero) passes
  validation and gets no worker.\<close>
theorem valid_config_health_gaps:
  "valid_config (monitored_config [] 5) \<and>
   HealthManager_Start [''nas'', []] (NewHealthManager (monitored_config [] 5)) = None \<and>
   valid_config (monitored_config ''pi'' 0) \<and> \<not> monitored (monitored_config ''pi'' 0) ''pi''"
proof -
  have url: "valid_url ''http://nas/h''" "valid_url ''http://nas''" by code_simp+
  have settings: "valid_settings zero_settings" by code_simp
  have srv: "valid_server zero_server"
    "valid_server (zero_server\<lparr>srv_healthCheck := zero_hc\<lparr>hc_endpoint := ''http://nas/h'', hc_interval := i\<rparr>\<rparr>)" if "0 \<le> i" for i
    using that by (simp_all add: valid_server_def zero_config_defs url valid_duration_def SecretString_Value_def)
  have "valid_config (monitored_config name i)" if "0 \<le> i" for name i
    using srv [OF that] settings url
    by (auto simp: valid_config_def monitored_config_def sample_config_def valid_route_def valid_port_def ran_def
        split: if_splits)
  moreover have "HealthManager_Start [''nas'', []] (NewHealthManager (monitored_config [] 5)) = None"
    by (simp add: HealthManager_Start_def start_workers_result NewHealthManager_def monitored_def monitored_config_def)
  moreover have "\<not> monitored (monitored_config ''pi'' 0) ''pi''"
    by (simp add: monitored_def monitored_config_def)
  ultimately show ?thesis by simp
qed

end
