(* ===== verification/HttpHandler.thy ===== *)
theory HttpHandler
  imports Logger Metrics GoNet
begin

text \<open>
  HTTP handlers as programs over the operations a handler can perform on its \<open>ResponseWriter\<close>, the
  logger, the clock, the metrics, the activity recorder and the network, and the meaning of such a program: what the client
  receives according to the server of \<open>net/http\<close>. A middleware maps handlers to handlers.
\<close>

section \<open>Requests\<close>

text \<open>A header maps canonical names to values; \<open>Get\<close> returns the first one.\<close>

type_synonym header = "string \<rightharpoonup> string list"

definition header_Get :: "header \<Rightarrow> string \<Rightarrow> string" where
  "header_Get h k = (case h k of Some (v # _) \<Rightarrow> v | _ \<Rightarrow> [])"

definition header_Set :: "string \<Rightarrow> string \<Rightarrow> header \<Rightarrow> header" where
  "header_Set k v h = h(k \<mapsto> [v])"

record request =
  rq_method :: string
  rq_path :: string
  rq_query :: string
  rq_header :: header
  rq_host :: string
  rq_remoteAddr :: string
  rq_tls :: bool
  rq_requestID :: "string option"

section \<open>Handler programs\<close>

text \<open>
  An answer of the network: the informational statuses that precede it, and an error or the status
  and the body, with whether reading the body failed after that much of it.
\<close>

type_synonym round_trip = "int list \<times> (string + int \<times> string \<times> bool)"

datatype prog =
    Return
  | Panic string
  | WriteHeader int prog
  | Write string "nat \<times> string option \<Rightarrow> prog"
  | Flush prog
  | SetHeader string string prog
  | Log log_record prog
  | Now "time \<Rightarrow> prog"
  | NewUUID "string \<Rightarrow> prog"
  | Record string int duration prog
  | Activity string prog
  | RoundTrip go_url request "round_trip \<Rightarrow> prog"

type_synonym handler = "request \<Rightarrow> prog"
type_synonym middleware = "handler \<Rightarrow> handler"

primrec andThen :: "prog \<Rightarrow> prog \<Rightarrow> prog" where
  "andThen Return q = q"
| "andThen (Panic e) q = Panic e"
| "andThen (WriteHeader c p) q = WriteHeader c (andThen p q)"
| "andThen (Write b f) q = Write b (\<lambda>r. andThen (f r) q)"
| "andThen (Flush p) q = Flush (andThen p q)"
| "andThen (SetHeader k v p) q = SetHeader k v (andThen p q)"
| "andThen (Log e p) q = Log e (andThen p q)"
| "andThen (Now f) q = Now (\<lambda>t. andThen (f t) q)"
| "andThen (NewUUID f) q = NewUUID (\<lambda>i. andThen (f i) q)"
| "andThen (Record m c d p) q = Record m c d (andThen p q)"
| "andThen (Activity r p) q = Activity r (andThen p q)"
| "andThen (RoundTrip u r f) q = RoundTrip u r (\<lambda>a. andThen (f a) q)"

text \<open>\<open>http.Error\<close>.\<close>

definition http_Error :: "string \<Rightarrow> int \<Rightarrow> prog" where
  "http_Error msg code =
     SetHeader ''Content-Type'' ''text/plain; charset=utf-8'' (SetHeader ''X-Content-Type-Options'' ''nosniff''
       (WriteHeader code (Write (msg @ [CHR 0x0A]) (\<lambda>r. Return))))"

section \<open>The server\<close>

text \<open>\<open>rs_early\<close> counts the flushes that sent the header before the handler had sent a status.\<close>

record http_response =
  rs_header :: header
  rs_info :: "int list"
  rs_status :: "int option"
  rs_body :: string
  rs_early :: nat

definition no_response :: http_response where
  "no_response = \<lparr>rs_header = Map.empty, rs_info = [], rs_status = None, rs_body = [], rs_early = 0\<rparr>"

definition informational :: "int \<Rightarrow> bool" where
  "informational c \<longleftrightarrow> 100 \<le> c \<and> c \<le> 199 \<and> c \<noteq> 101"

text \<open>\<open>WriteHeader\<close> of \<open>net/http\<close>: a further final status is ignored, an informational one is sent
  at once and does not count as the status.\<close>

definition net_WriteHeader :: "int \<Rightarrow> http_response \<Rightarrow> http_response" where
  "net_WriteHeader c rs =
     (if rs_status rs \<noteq> None then rs
      else if informational c then rs\<lparr>rs_info := rs_info rs @ [c]\<rparr>
      else rs\<lparr>rs_status := Some c\<rparr>)"

text \<open>\<open>Write\<close> sends status 200 if none was; \<open>n\<close> bytes are accepted.\<close>

definition net_Write :: "string \<Rightarrow> nat \<Rightarrow> http_response \<Rightarrow> http_response" where
  "net_Write b n rs =
     (let rs = (if rs_status rs = None then net_WriteHeader 200 rs else rs) in rs\<lparr>rs_body := rs_body rs @ take n b\<rparr>)"

text \<open>\<open>Flush\<close> sends the header, with status 200 if none was sent, and what has been written.\<close>

definition net_Flush :: "http_response \<Rightarrow> http_response" where
  "net_Flush rs = (if rs_status rs = None then (net_WriteHeader 200 rs)\<lparr>rs_early := Suc (rs_early rs)\<rparr> else rs)"

record 'w serve_env =
  en_write :: "string \<Rightarrow> 'w \<Rightarrow> (nat \<times> string option) \<times> 'w"
  en_now :: "'w \<Rightarrow> time \<times> 'w"
  en_uuid :: "'w \<Rightarrow> string \<times> 'w"
  en_roundTrip :: "go_url \<Rightarrow> request \<Rightarrow> 'w \<Rightarrow> round_trip \<times> 'w"

record 'w serve_state =
  sv_world :: 'w
  sv_response :: http_response
  sv_log :: "log_record list"
  sv_metrics :: "(string \<times> int \<times> duration) list"
  sv_activity :: "string list"
  sv_sent :: "(go_url \<times> request) list"

text \<open>Running a program: the value of a panic, if any, and the state it leaves.\<close>

primrec serve :: "'w serve_env \<Rightarrow> prog \<Rightarrow> 'w serve_state \<Rightarrow> string option \<times> 'w serve_state" where
  "serve env Return = (\<lambda>s. (None, s))"
| "serve env (Panic e) = (\<lambda>s. (Some e, s))"
| "serve env (WriteHeader c p) = (\<lambda>s. serve env p (s\<lparr>sv_response := net_WriteHeader c (sv_response s)\<rparr>))"
| "serve env (Write b f) = (\<lambda>s. case en_write env b (sv_world s) of
     (r, w) \<Rightarrow> serve env (f r) (s\<lparr>sv_world := w, sv_response := net_Write b (fst r) (sv_response s)\<rparr>))"
| "serve env (Flush p) = (\<lambda>s. serve env p (s\<lparr>sv_response := net_Flush (sv_response s)\<rparr>))"
| "serve env (SetHeader k v p) = (\<lambda>s. serve env p
     (s\<lparr>sv_response := (sv_response s)\<lparr>rs_header := header_Set k v (rs_header (sv_response s))\<rparr>\<rparr>))"
| "serve env (Log e p) = (\<lambda>s. serve env p (s\<lparr>sv_log := sv_log s @ [e]\<rparr>))"
| "serve env (Now f) = (\<lambda>s. case en_now env (sv_world s) of (t, w) \<Rightarrow> serve env (f t) (s\<lparr>sv_world := w\<rparr>))"
| "serve env (NewUUID f) = (\<lambda>s. case en_uuid env (sv_world s) of (i, w) \<Rightarrow> serve env (f i) (s\<lparr>sv_world := w\<rparr>))"
| "serve env (Record m c d p) = (\<lambda>s. serve env p (s\<lparr>sv_metrics := sv_metrics s @ [(m, c, d)]\<rparr>))"
| "serve env (Activity r p) = (\<lambda>s. serve env p (s\<lparr>sv_activity := sv_activity s @ [r]\<rparr>))"
| "serve env (RoundTrip u r f) = (\<lambda>s. case en_roundTrip env u r (sv_world s) of
     (a, w) \<Rightarrow> serve env (f a) (s\<lparr>sv_world := w, sv_sent := sv_sent s @ [(u, r)]\<rparr>))"

text \<open>When the handler has returned, a response without a status gets status 200.\<close>

definition final_status :: "http_response \<Rightarrow> int" where
  "final_status rs = (case rs_status rs of None \<Rightarrow> 200 | Some c \<Rightarrow> c)"

text \<open>The contract of \<open>io.Writer\<close>: no more bytes are accepted than were offered.\<close>

definition accepts_all :: "'w serve_env \<Rightarrow> bool" where
  "accepts_all env \<longleftrightarrow> (\<forall>b w. fst (fst (en_write env b w)) \<le> length b)"

lemma serve_andThen:
  "serve env (andThen p q) s = (case serve env p s of (None, s') \<Rightarrow> serve env q s' | (Some e, s') \<Rightarrow> (Some e, s'))"
  by (induction p arbitrary: s) (simp_all split: prod.split)

text \<open>Informational statuses and early flushes are only ever added.\<close>

definition response_grows :: "http_response \<Rightarrow> http_response \<Rightarrow> bool" where
  "response_grows rs rs' \<longleftrightarrow> (\<exists>cs. rs_info rs' = rs_info rs @ cs) \<and> rs_early rs \<le> rs_early rs'"

lemma response_grows_refl [simp]: "response_grows rs rs"
  by (simp add: response_grows_def)

lemma response_grows_trans: "response_grows a b \<Longrightarrow> response_grows b c \<Longrightarrow> response_grows a c"
  by (auto simp: response_grows_def)

lemma net_grows:
  "response_grows rs (net_WriteHeader c rs)" "response_grows rs (net_Write b n rs)" "response_grows rs (net_Flush rs)"
  "response_grows rs (rs\<lparr>rs_header := h\<rparr>)"
  by (simp_all add: response_grows_def net_WriteHeader_def net_Write_def net_Flush_def Let_def informational_def)

lemma serve_grows: "response_grows (sv_response s) (sv_response (snd (serve env p s)))"
proof (induction p arbitrary: s)
  case (WriteHeader c p)
  show ?case
    using response_grows_trans [OF net_grows(1) WriteHeader [of "s\<lparr>sv_response := net_WriteHeader c (sv_response s)\<rparr>", simplified]]
    by simp
next
  case (Write b f)
  obtain r w where r: "en_write env b (sv_world s) = (r, w)" by fastforce
  show ?case
    using response_grows_trans [OF net_grows(2)
        Write [OF rangeI, of "s\<lparr>sv_world := w, sv_response := net_Write b (fst r) (sv_response s)\<rparr>" r, simplified]] r
    by simp
next
  case (Flush p)
  show ?case
    using response_grows_trans [OF net_grows(3) Flush [of "s\<lparr>sv_response := net_Flush (sv_response s)\<rparr>", simplified]]
    by simp
next
  case (SetHeader k v p)
  show ?case
    using response_grows_trans [OF net_grows(4)
        SetHeader [of "s\<lparr>sv_response := (sv_response s)\<lparr>rs_header := header_Set k v (rs_header (sv_response s))\<rparr>\<rparr>", simplified]]
    by simp
next
  case (Log e p)
  from Log [of "s\<lparr>sv_log := sv_log s @ [e]\<rparr>"] show ?case by simp
next
  case (Now f)
  obtain t w where t: "en_now env (sv_world s) = (t, w)" by fastforce
  from Now [OF rangeI, of "s\<lparr>sv_world := w\<rparr>" t] t show ?case by simp
next
  case (NewUUID f)
  obtain i w where i: "en_uuid env (sv_world s) = (i, w)" by fastforce
  from NewUUID [OF rangeI, of "s\<lparr>sv_world := w\<rparr>" i] i show ?case by simp
next
  case (Record m c d p)
  from Record [of "s\<lparr>sv_metrics := sv_metrics s @ [(m, c, d)]\<rparr>"] show ?case by simp
next
  case (Activity r p)
  from Activity [of "s\<lparr>sv_activity := sv_activity s @ [r]\<rparr>"] show ?case by simp
next
  case (RoundTrip u r f)
  obtain a w where a: "en_roundTrip env u r (sv_world s) = (a, w)" by fastforce
  from RoundTrip [OF rangeI, of "s\<lparr>sv_world := w, sv_sent := sv_sent s @ [(u, r)]\<rparr>" a] a show ?case by simp
qed simp_all

text \<open>A run that sends no informational status and does not flush before it has sent its status.\<close>

definition plain_run :: "'w serve_env \<Rightarrow> prog \<Rightarrow> 'w serve_state \<Rightarrow> bool" where
  "plain_run env p s \<longleftrightarrow>
     rs_info (sv_response (snd (serve env p s))) = rs_info (sv_response s) \<and>
     rs_early (sv_response (snd (serve env p s))) = rs_early (sv_response s)"

lemma plain_run_first:
  assumes "response_grows (sv_response s) (sv_response t)" and "serve env q s = serve env p t" and "plain_run env q s"
  shows "plain_run env p t" and "rs_info (sv_response t) = rs_info (sv_response s)"
    and "rs_early (sv_response t) = rs_early (sv_response s)"
  using assms serve_grows [of t env p] by (auto simp: plain_run_def response_grows_def)

end
