(* ===== verification/Middleware.thy ===== *)
theory Middleware
  imports HttpHandler
begin

text \<open>
  The middleware of \<open>internal/middleware\<close>: the response writers that observe the status, the logging,
  metrics and recovery middleware, and \<open>Chain\<close>. A response writer stands between a handler program
  and the writer below it; what the two writers have in common is the locale \<open>status_writer\<close>.
\<close>

section \<open>Response writers\<close>

record logging_writer =
  lw_statusCode :: int
  lw_bytesWritten :: int
  lw_headerWritten :: bool

text \<open>\<open>WriteHeader\<close>: the status delegated to the writer below, if any, and the new state.\<close>

definition LoggingResponseWriter_WriteHeader :: "int \<Rightarrow> logging_writer \<Rightarrow> int option \<times> logging_writer" where
  "LoggingResponseWriter_WriteHeader code w =
     (if lw_headerWritten w then (None, w) else (Some code, w\<lparr>lw_headerWritten := True, lw_statusCode := code\<rparr>))"

text \<open>\<open>Write\<close>: the status delegated first, and the state after the writer below took \<open>n\<close> bytes.\<close>

definition LoggingResponseWriter_Write :: "logging_writer \<Rightarrow> int option \<times> (nat \<Rightarrow> logging_writer)" where
  "LoggingResponseWriter_Write w =
     (let (c, w) = (if \<not> lw_headerWritten w then LoggingResponseWriter_WriteHeader 200 w else (None, w))
      in (c, \<lambda>n. w\<lparr>lw_bytesWritten := lw_bytesWritten w + int n\<rparr>))"

record metrics_writer =
  mw_statusCode :: int
  mw_written :: bool

definition MetricsResponseWriter_WriteHeader :: "int \<Rightarrow> metrics_writer \<Rightarrow> int option \<times> metrics_writer" where
  "MetricsResponseWriter_WriteHeader code w =
     (if mw_written w then (None, w) else (Some code, w\<lparr>mw_written := True, mw_statusCode := code\<rparr>))"

definition MetricsResponseWriter_Write :: "metrics_writer \<Rightarrow> int option \<times> (nat \<Rightarrow> metrics_writer)" where
  "MetricsResponseWriter_Write w =
     (let (c, w) = (if \<not> mw_written w then MetricsResponseWriter_WriteHeader 200 w else (None, w)) in (c, \<lambda>n. w))"

text \<open>
  \<open>Flush\<close> of either writer: the writer below supports flushing (it is another one of these, or that of
  \<open>net/http\<close>) and is flushed; the state of the writer stays as it is.
\<close>

definition LoggingResponseWriter_Flush :: "prog \<Rightarrow> prog" where
  "LoggingResponseWriter_Flush p = Flush p"

definition MetricsResponseWriter_Flush :: "prog \<Rightarrow> prog" where
  "MetricsResponseWriter_Flush p = Flush p"

text \<open>A handler that runs on a response writer; \<open>k\<close> is what its caller does with the writer after it
  has returned.\<close>

definition delegate :: "int option \<Rightarrow> prog \<Rightarrow> prog" where
  "delegate c p = (case c of None \<Rightarrow> p | Some code \<Rightarrow> WriteHeader code p)"

primrec on_writer ::
  "(int \<Rightarrow> 'st \<Rightarrow> int option \<times> 'st) \<Rightarrow> ('st \<Rightarrow> int option \<times> (nat \<Rightarrow> 'st)) \<Rightarrow> (prog \<Rightarrow> prog) \<Rightarrow> prog \<Rightarrow> 'st \<Rightarrow> ('st \<Rightarrow> prog) \<Rightarrow> prog" where
  "on_writer wh wr fl Return = (\<lambda>st k. k st)"
| "on_writer wh wr fl (Panic e) = (\<lambda>st k. Panic e)"
| "on_writer wh wr fl (WriteHeader c p) = (\<lambda>st k. case wh c st of (d, st) \<Rightarrow> delegate d (on_writer wh wr fl p st k))"
| "on_writer wh wr fl (Write b f) = (\<lambda>st k. case wr st of
     (d, next') \<Rightarrow> delegate d (Write b (\<lambda>r. on_writer wh wr fl (f r) (next' (fst r)) k)))"
| "on_writer wh wr fl (Flush p) = (\<lambda>st k. fl (on_writer wh wr fl p st k))"
| "on_writer wh wr fl (SetHeader x v p) = (\<lambda>st k. SetHeader x v (on_writer wh wr fl p st k))"
| "on_writer wh wr fl (Log e p) = (\<lambda>st k. Log e (on_writer wh wr fl p st k))"
| "on_writer wh wr fl (Now f) = (\<lambda>st k. Now (\<lambda>t. on_writer wh wr fl (f t) st k))"
| "on_writer wh wr fl (NewUUID f) = (\<lambda>st k. NewUUID (\<lambda>i. on_writer wh wr fl (f i) st k))"
| "on_writer wh wr fl (Record m c d p) = (\<lambda>st k. Record m c d (on_writer wh wr fl p st k))"
| "on_writer wh wr fl (Activity r p) = (\<lambda>st k. Activity r (on_writer wh wr fl p st k))"
| "on_writer wh wr fl (RoundTrip u r f) = (\<lambda>st k. RoundTrip u r (\<lambda>a. on_writer wh wr fl (f a) st k))"

section \<open>The middleware\<close>

text \<open>White space of \<open>strings.TrimSpace\<close>, for ASCII text.\<close>

definition is_space :: "char \<Rightarrow> bool" where
  "is_space c \<longleftrightarrow> c \<in> {CHR '' '', CHR 0x09, CHR 0x0A, CHR 0x0B, CHR 0x0C, CHR 0x0D}"

definition TrimSpace :: "string \<Rightarrow> string" where
  "TrimSpace s = rev (dropWhile is_space (rev (dropWhile is_space s)))"

text \<open>\<open>net.SplitHostPort\<close>: the host, or None for an error.\<close>

definition SplitHostPort :: "string \<Rightarrow> string option" where
  "SplitHostPort s =
     (case cut_last (CHR '':'') s of
        None \<Rightarrow> None
      | Some (host, port) \<Rightarrow>
          if take 1 s = ''['' then
            (case cut (CHR '']'') s of
               (a, b, found) \<Rightarrow>
                 if \<not> found \<or> b \<noteq> CHR '':'' # port \<or> CHR ''['' \<in> set (tl a) \<or> CHR ''['' \<in> set b \<or> CHR '']'' \<in> set b
                 then None else Some (tl a))
          else if CHR '':'' \<in> set host \<or> CHR ''['' \<in> set s \<or> CHR '']'' \<in> set s then None
          else Some host)"

definition extractIPFromRemoteAddr :: "string \<Rightarrow> string" where
  "extractIPFromRemoteAddr remoteAddr =
     (if CHR '':'' \<in> set remoteAddr then
        (case SplitHostPort remoteAddr of None \<Rightarrow> remoteAddr | Some ip \<Rightarrow> ip)
      else remoteAddr)"

definition extractClientIP :: "request \<Rightarrow> string" where
  "extractClientIP r =
     (let xff = header_Get (rq_header r) ''X-Forwarded-For'' in
      if xff \<noteq> [] then
        (case cut (CHR '','') xff of (first, rest, found) \<Rightarrow>
           if found \<and> first \<noteq> [] then TrimSpace first else TrimSpace xff)
      else
        let xri = header_Get (rq_header r) ''X-Real-Ip'' in
        if xri \<noteq> [] then TrimSpace xri else extractIPFromRemoteAddr (rq_remoteAddr r))"

definition request_record :: "string \<Rightarrow> request \<Rightarrow> log_record" where
  "request_record requestID r =
     (LevelInfo, ''request'', [(''request_id'', LStr requestID), (''method'', LStr (rq_method r)), (''path'', LStr (rq_path r)),
        (''query'', LStr (rq_query r)), (''client_ip'', LStr (extractClientIP r))])"

definition response_record :: "string \<Rightarrow> int \<Rightarrow> int \<Rightarrow> duration \<Rightarrow> log_record" where
  "response_record requestID status bytes d =
     (LevelInfo, ''response'', [(''request_id'', LStr requestID), (''status'', LInt status), (''response_bytes'', LInt bytes),
        (''duration'', LInt d)])"

definition NewLoggingMiddleware :: middleware where
  "NewLoggingMiddleware next' r =
     NewUUID (\<lambda>requestID.
       let r = r\<lparr>rq_requestID := Some requestID\<rparr> in
       SetHeader ''X-Request-Id'' requestID (
         Now (\<lambda>startTime.
           Log (request_record requestID r) (
             on_writer LoggingResponseWriter_WriteHeader LoggingResponseWriter_Write LoggingResponseWriter_Flush (next' r)
               \<lparr>lw_statusCode = 200, lw_bytesWritten = 0, lw_headerWritten = False\<rparr>
               (\<lambda>wrapped. Now (\<lambda>endTime.
                  Log (response_record requestID (lw_statusCode wrapped) (lw_bytesWritten wrapped) (time_sub endTime startTime))
                    Return))))))"

text \<open>\<open>hasRegistry\<close>: the registry is not nil.\<close>

definition NewMetricsMiddleware :: "bool \<Rightarrow> middleware" where
  "NewMetricsMiddleware hasRegistry next' r =
     Now (\<lambda>startTime.
       on_writer MetricsResponseWriter_WriteHeader MetricsResponseWriter_Write MetricsResponseWriter_Flush (next' r)
         \<lparr>mw_statusCode = 200, mw_written = False\<rparr>
         (\<lambda>wrapped. if hasRegistry
            then Now (\<lambda>endTime. Record (rq_method r) (mw_statusCode wrapped) (time_sub endTime startTime) Return)
            else Return))"

text \<open>The deferred function of the recovery middleware, run when the handler panics; the stack trace in its log
  message is left out.\<close>

primrec recovering :: "(string \<Rightarrow> prog) \<Rightarrow> prog \<Rightarrow> prog" where
  "recovering h Return = Return"
| "recovering h (Panic e) = h e"
| "recovering h (WriteHeader c p) = WriteHeader c (recovering h p)"
| "recovering h (Write b f) = Write b (\<lambda>r. recovering h (f r))"
| "recovering h (Flush p) = Flush (recovering h p)"
| "recovering h (SetHeader x v p) = SetHeader x v (recovering h p)"
| "recovering h (Log e p) = Log e (recovering h p)"
| "recovering h (Now f) = Now (\<lambda>t. recovering h (f t))"
| "recovering h (NewUUID f) = NewUUID (\<lambda>i. recovering h (f i))"
| "recovering h (Record m c d p) = Record m c d (recovering h p)"
| "recovering h (Activity r p) = Activity r (recovering h p)"
| "recovering h (RoundTrip u r f) = RoundTrip u r (\<lambda>a. recovering h (f a))"

definition NewRecoveryMiddleware :: middleware where
  "NewRecoveryMiddleware next' r =
     recovering (\<lambda>err.
       Log (LevelError, ''panic recovered'', [(''error'', LStr err), (''method'', LStr (rq_method r)), (''path'', LStr (rq_path r))])
         (http_Error ''Internal Server Error'' 500)) (next' r)"

text \<open>The loop of \<open>Chain\<close>, from the last middleware down to the first.\<close>

fun chain_loop :: "nat \<Rightarrow> middleware list \<Rightarrow> middleware" where
  "chain_loop 0 ms h = h"
| "chain_loop (Suc i) ms h = chain_loop i ms ((ms ! i) h)"

definition Chain :: "middleware list \<Rightarrow> middleware" where
  "Chain ms h = chain_loop (length ms) ms h"

lemma chain_loop_foldr: "i \<le> length ms \<Longrightarrow> chain_loop i ms h = foldr (\<lambda>m h. m h) (take i ms) h"
proof (induction i arbitrary: h)
  case 0
  then show ?case by simp
next
  case (Suc i)
  then have "take (Suc i) ms = take i ms @ [ms ! i]" by (simp add: take_Suc_conv_app_nth)
  with Suc show ?case by simp
qed

lemma Chain_foldr: "Chain ms h = foldr (\<lambda>m h. m h) ms h"
  by (simp add: Chain_def chain_loop_foldr)

section \<open>Transparency of response writers\<close>

text \<open>
  The contract of a writer that observes the status: it delegates the first status it is given, and
  200 on the first write, and nothing after that; a flush it only passes on.
\<close>

locale status_writer =
  fixes wh :: "int \<Rightarrow> 'st \<Rightarrow> int option \<times> 'st"
    and wr :: "'st \<Rightarrow> int option \<times> (nat \<Rightarrow> 'st)"
    and fl :: "prog \<Rightarrow> prog"
    and written :: "'st \<Rightarrow> bool"
    and status :: "'st \<Rightarrow> int"
    and bytes :: "'st \<Rightarrow> int"
    and counts :: bool
  assumes fl_delegates: "fl p = Flush p"
    and wh_again: "written st \<Longrightarrow> wh c st = (None, st)"
    and wh_first: "\<not> written st \<Longrightarrow> \<exists>st'. wh c st = (Some c, st') \<and> written st' \<and> status st' = c \<and> bytes st' = bytes st"
    and wr_again: "written st \<Longrightarrow> \<exists>f. wr st = (None, f) \<and> (\<forall>n. written (f n) \<and> status (f n) = status st \<and>
      bytes (f n) = (if counts then bytes st + int n else bytes st))"
    and wr_first: "\<not> written st \<Longrightarrow> \<exists>f. wr st = (Some 200, f) \<and> (\<forall>n. written (f n) \<and> status (f n) = 200 \<and>
      bytes (f n) = (if counts then bytes st + int n else bytes st))"
begin

text \<open>The writer knows what the client was sent.\<close>

definition synced :: "'st \<Rightarrow> http_response \<Rightarrow> bool" where
  "synced st rs \<longleftrightarrow> (if written st then rs_status rs = Some (status st) else rs_status rs = None)"

text \<open>A program on the writer, left with \<open>st'\<close>, does to the client what the program does without it.\<close>

definition follows :: "'w serve_env \<Rightarrow> prog \<Rightarrow> 'st \<Rightarrow> 'w serve_state \<Rightarrow> 'st \<Rightarrow> bool" where
  "follows env p st s st' \<longleftrightarrow>
     (\<forall>k. serve env (on_writer wh wr fl p st k) s =
        (case serve env p s of (None, s') \<Rightarrow> serve env (k st') s' | (Some e, s') \<Rightarrow> (Some e, s'))) \<and>
     synced st' (sv_response (snd (serve env p s))) \<and>
     (written st \<longrightarrow> written st') \<and> (\<not> written st' \<longrightarrow> status st' = status st) \<and>
     bytes st' = bytes st + (if counts then int (length (rs_body (sv_response (snd (serve env p s))))) -
        int (length (rs_body (sv_response s))) else 0)"

lemma follows_step:
  assumes "\<exists>st'. follows env p st1 t st'" and "serve env q s = serve env p t"
    and "\<And>k. serve env (on_writer wh wr fl q st k) s = serve env (on_writer wh wr fl p st1 k) t"
    and "written st \<longrightarrow> written st1" and "\<not> written st1 \<longrightarrow> status st1 = status st"
    and "bytes st1 = bytes st + (if counts then int (length (rs_body (sv_response t))) -
        int (length (rs_body (sv_response s))) else 0)"
  shows "\<exists>st'. follows env q st s st'"
proof -
  from assms(1) obtain st' where "follows env p st1 t st'" ..
  with assms(2-) have "follows env q st s st'" unfolding follows_def by auto
  then show ?thesis ..
qed

lemma follows_same:
  assumes "\<exists>st'. follows env p st t st'" and "serve env q s = serve env p t"
    and "\<And>k. serve env (on_writer wh wr fl q st k) s = serve env (on_writer wh wr fl p st k) t"
    and "rs_body (sv_response t) = rs_body (sv_response s)"
  shows "\<exists>st'. follows env q st s st'"
  by (rule follows_step [OF assms(1-3)]) (simp_all add: assms(4))

lemma transparent:
  assumes "accepts_all env" and "synced st (sv_response s)"
    and "plain_run env p s"
  shows "\<exists>st'. follows env p st s st'"
  using assms(2,3)
proof (induction p arbitrary: st s)
  case Return
  then show ?case by (intro exI [of _ st]) (simp add: follows_def)
next
  case (Panic e)
  then show ?case by (intro exI [of _ st]) (simp add: follows_def)
next
  case (WriteHeader c p)
  let ?s = "s\<lparr>sv_response := net_WriteHeader c (sv_response s)\<rparr>"
  show ?case
  proof (cases "written st")
    case True
    with WriteHeader.prems have "net_WriteHeader c (sv_response s) = sv_response s"
      by (simp add: synced_def net_WriteHeader_def)
    then have s: "?s = s" by simp
    show ?thesis
      by (rule follows_same [OF WriteHeader.IH [of st s]])
        (use WriteHeader.prems s in \<open>simp_all add: wh_again [OF True] delegate_def plain_run_def\<close>)
  next
    case False
    from WriteHeader.prems False have none: "rs_status (sv_response s) = None" by (simp add: synced_def)
    have plain: "plain_run env p ?s" "rs_info (sv_response ?s) = rs_info (sv_response s)"
      using plain_run_first [of s ?s env "WriteHeader c p" p] net_grows(1) WriteHeader.prems(2) by simp_all
    with none have fin: "\<not> informational c" by (auto simp: net_WriteHeader_def split: if_splits)
    with none have r: "net_WriteHeader c (sv_response s) = (sv_response s)\<lparr>rs_status := Some c\<rparr>"
      by (simp add: net_WriteHeader_def)
    from wh_first [OF False, of c] obtain st1 where st1: "wh c st = (Some c, st1)" "written st1" "status st1 = c"
      "bytes st1 = bytes st" by blast
    have "\<exists>st'. follows env p st1 ?s st'"
      by (rule WriteHeader.IH) (use st1 r plain(1) in \<open>simp_all add: synced_def\<close>)
    then show ?thesis
      by (rule follows_step) (use st1 r in \<open>simp_all add: delegate_def\<close>)
  qed
next
  case (Write b f)
  obtain rr w where rr: "en_write env b (sv_world s) = (rr, w)" by fastforce
  let ?s = "s\<lparr>sv_world := w, sv_response := net_Write b (fst rr) (sv_response s)\<rparr>"
  have len: "fst rr \<le> length b" using assms(1) rr by (metis accepts_all_def fst_conv)
  have body: "int (length (rs_body (net_Write b (fst rr) (sv_response s)))) =
      int (length (rs_body (sv_response s))) + int (fst rr)"
    using len by (simp add: net_Write_def net_WriteHeader_def Let_def informational_def)
  have same: "net_Write b (fst rr) (net_WriteHeader 200 (sv_response s)) = net_Write b (fst rr) (sv_response s)"
    by (simp add: net_Write_def net_WriteHeader_def Let_def informational_def)
  have "\<exists>d g. wr st = (d, g) \<and> written (g (fst rr)) \<and> synced (g (fst rr)) (sv_response ?s) \<and>
      bytes (g (fst rr)) = (if counts then bytes st + int (fst rr) else bytes st) \<and> (d = None \<or> d = Some 200)"
  proof (cases "written st")
    case True
    from wr_again [OF True] obtain g where "wr st = (None, g)" "\<forall>n. written (g n) \<and> status (g n) = status st \<and>
        bytes (g n) = (if counts then bytes st + int n else bytes st)" by blast
    with True Write.prems(1) show ?thesis
      by (intro exI [of _ None] exI [of _ g]) (simp add: synced_def net_Write_def Let_def)
  next
    case False
    from wr_first [OF False] obtain g where "wr st = (Some 200, g)" "\<forall>n. written (g n) \<and> status (g n) = 200 \<and>
        bytes (g n) = (if counts then bytes st + int n else bytes st)" by blast
    with False Write.prems(1) show ?thesis
      by (intro exI [of _ "Some 200"] exI [of _ g])
        (simp add: synced_def net_Write_def Let_def net_WriteHeader_def informational_def)
  qed
  then obtain d g where g: "wr st = (d, g)" "written (g (fst rr))" "synced (g (fst rr)) (sv_response ?s)"
    "bytes (g (fst rr)) = (if counts then bytes st + int (fst rr) else bytes st)" "d = None \<or> d = Some 200" by blast
  have "\<exists>st'. follows env (f rr) (g (fst rr)) ?s st'"
    by (rule Write.IH [OF rangeI]) (use g plain_run_first(1) [of s ?s env "Write b f" "f rr"] net_grows(2) Write.prems(2) rr in simp_all)
  then show ?case
  proof (rule follows_step)
    show "serve env (on_writer wh wr fl (Write b f) st k) s = serve env (on_writer wh wr fl (f rr) (g (fst rr)) k) ?s" for k
      using g(1,5) rr same by (auto simp: delegate_def)
    show "bytes (g (fst rr)) = bytes st + (if counts then int (length (rs_body (sv_response ?s))) -
        int (length (rs_body (sv_response s))) else 0)"
      using g(4) body by simp
  qed (use g rr in simp_all)
next
  case (Flush p)
  let ?s = "s\<lparr>sv_response := net_Flush (sv_response s)\<rparr>"
  have plain: "plain_run env p ?s" "rs_early (sv_response ?s) = rs_early (sv_response s)"
    using plain_run_first [of s ?s env "Flush p" p] net_grows(3) Flush.prems(2) by simp_all
  then have "rs_status (sv_response s) \<noteq> None" by (auto simp: net_Flush_def split: if_splits)
  then have s: "?s = s" by (auto simp: net_Flush_def)
  show ?case
    by (rule follows_same [OF Flush.IH [of st s]]) (use Flush.prems plain s in \<open>simp_all add: fl_delegates\<close>)
next
  case (SetHeader k v p)
  let ?s = "s\<lparr>sv_response := (sv_response s)\<lparr>rs_header := header_Set k v (rs_header (sv_response s))\<rparr>\<rparr>"
  have "\<exists>st'. follows env p st ?s st'"
    by (rule SetHeader.IH) (use SetHeader.prems in \<open>simp_all add: synced_def plain_run_def\<close>)
  then show ?case by (rule follows_same) simp_all
next
  case (Log e p)
  have "\<exists>st'. follows env p st (s\<lparr>sv_log := sv_log s @ [e]\<rparr>) st'"
    by (rule Log.IH) (use Log.prems in \<open>simp_all add: plain_run_def\<close>)
  then show ?case by (rule follows_same) simp_all
next
  case (Now f)
  obtain t w where t: "en_now env (sv_world s) = (t, w)" by fastforce
  have "\<exists>st'. follows env (f t) st (s\<lparr>sv_world := w\<rparr>) st'"
    by (rule Now.IH [OF rangeI]) (use Now.prems t in \<open>simp_all add: plain_run_def\<close>)
  then show ?case by (rule follows_same) (simp_all add: t)
next
  case (NewUUID f)
  obtain i w where i: "en_uuid env (sv_world s) = (i, w)" by fastforce
  have "\<exists>st'. follows env (f i) st (s\<lparr>sv_world := w\<rparr>) st'"
    by (rule NewUUID.IH [OF rangeI]) (use NewUUID.prems i in \<open>simp_all add: plain_run_def\<close>)
  then show ?case by (rule follows_same) (simp_all add: i)
next
  case (Record m c d p)
  have "\<exists>st'. follows env p st (s\<lparr>sv_metrics := sv_metrics s @ [(m, c, d)]\<rparr>) st'"
    by (rule Record.IH) (use Record.prems in \<open>simp_all add: plain_run_def\<close>)
  then show ?case by (rule follows_same) simp_all
next
  case (Activity r p)
  have "\<exists>st'. follows env p st (s\<lparr>sv_activity := sv_activity s @ [r]\<rparr>) st'"
    by (rule Activity.IH) (use Activity.prems in \<open>simp_all add: plain_run_def\<close>)
  then show ?case by (rule follows_same) simp_all
next
  case (RoundTrip u r f)
  obtain a w where a: "en_roundTrip env u r (sv_world s) = (a, w)" by fastforce
  have "\<exists>st'. follows env (f a) st (s\<lparr>sv_world := w, sv_sent := sv_sent s @ [(u, r)]\<rparr>) st'"
    by (rule RoundTrip.IH [OF rangeI]) (use RoundTrip.prems a in \<open>simp_all add: plain_run_def\<close>)
  then show ?case by (rule follows_same) (simp_all add: a)
qed

end

interpretation logging: status_writer LoggingResponseWriter_WriteHeader LoggingResponseWriter_Write LoggingResponseWriter_Flush
    lw_headerWritten lw_statusCode lw_bytesWritten True
  by unfold_locales (auto simp: LoggingResponseWriter_WriteHeader_def LoggingResponseWriter_Write_def LoggingResponseWriter_Flush_def)

interpretation metering: status_writer MetricsResponseWriter_WriteHeader MetricsResponseWriter_Write MetricsResponseWriter_Flush
    mw_written mw_statusCode "\<lambda>w. 0" False
  by unfold_locales (auto simp: MetricsResponseWriter_WriteHeader_def MetricsResponseWriter_Write_def MetricsResponseWriter_Flush_def)

section \<open>What the middleware does\<close>

text \<open>The state in which the logging middleware calls the next handler.\<close>

definition logging_enter :: "'w serve_env \<Rightarrow> request \<Rightarrow> 'w serve_state \<Rightarrow> string \<times> time \<times> 'w serve_state" where
  "logging_enter env r s =
     (let (rid, w) = en_uuid env (sv_world s); (t, w) = en_now env w
      in (rid, t, s\<lparr>sv_response := (sv_response s)\<lparr>rs_header := header_Set ''X-Request-Id'' rid (rs_header (sv_response s))\<rparr>,
            sv_world := w,
            sv_log := sv_log s @ [request_record rid (r\<lparr>rq_requestID := Some rid\<rparr>)]\<rparr>))"

lemma logging_serve:
  assumes "accepts_all env" and "rs_status (sv_response s) = None" and enter: "logging_enter env r s = (rid, t, s1)"
    and "plain_run env (h (r\<lparr>rq_requestID := Some rid\<rparr>)) s1"
  shows "case serve env (h (r\<lparr>rq_requestID := Some rid\<rparr>)) s1 of
      (Some e, s2) \<Rightarrow> serve env (NewLoggingMiddleware h r) s = (Some e, s2)
    | (None, s2) \<Rightarrow> \<exists>d w. serve env (NewLoggingMiddleware h r) s = (None, s2\<lparr>sv_world := w, sv_log := sv_log s2 @
        [response_record rid (final_status (sv_response s2))
           (int (length (rs_body (sv_response s2))) - int (length (rs_body (sv_response s)))) d]\<rparr>)"
proof -
  let ?p = "h (r\<lparr>rq_requestID := Some rid\<rparr>)"
  let ?st = "\<lparr>lw_statusCode = 200, lw_bytesWritten = 0, lw_headerWritten = False\<rparr>"
  have rs1: "rs_status (sv_response s1) = None" "rs_body (sv_response s1) = rs_body (sv_response s)"
    using enter assms(2) by (auto simp: logging_enter_def split: prod.splits)
  then have "logging.synced ?st (sv_response s1)" by (simp add: logging.synced_def)
  from logging.transparent [OF assms(1) this assms(4)] obtain st' where
    f: "logging.follows env ?p ?st s1 st'" ..
  define k where "k = (\<lambda>wrapped :: logging_writer. Now (\<lambda>endTime.
      Log (response_record rid (lw_statusCode wrapped) (lw_bytesWritten wrapped) (time_sub endTime t)) Return))"
  have run: "serve env (NewLoggingMiddleware h r) s = serve env (on_writer LoggingResponseWriter_WriteHeader
      LoggingResponseWriter_Write LoggingResponseWriter_Flush ?p ?st k) s1"
    using enter by (auto simp: NewLoggingMiddleware_def logging_enter_def k_def Let_def split: prod.splits)
  show ?thesis
  proof (cases "serve env ?p s1")
    case (Pair e s2)
    show ?thesis
    proof (cases e)
      case (Some x)
      with Pair f run show ?thesis by (simp add: logging.follows_def)
    next
      case None
      with Pair f have sync: "logging.synced st' (sv_response s2)" "\<not> lw_headerWritten st' \<longrightarrow> lw_statusCode st' = 200"
        "lw_bytesWritten st' = int (length (rs_body (sv_response s2))) - int (length (rs_body (sv_response s)))"
        using rs1 by (simp_all add: logging.follows_def)
      then have st: "lw_statusCode st' = final_status (sv_response s2)"
        by (auto simp: logging.synced_def final_status_def split: if_splits)
      have "serve env (NewLoggingMiddleware h r) s = serve env (k st') s2"
        using run f Pair None by (simp add: logging.follows_def)
      then show ?thesis
        by (cases "en_now env (sv_world s2)") (auto simp: k_def Pair None st sync(3))
    qed
  qed
qed

lemma metrics_serve:
  assumes "accepts_all env" and "rs_status (sv_response s) = None" and now: "en_now env (sv_world s) = (t, w1)"
    and "plain_run env (h r) (s\<lparr>sv_world := w1\<rparr>)"
    and ok: "serve env (h r) (s\<lparr>sv_world := w1\<rparr>) = (None, s2)"
  shows "\<exists>d w. serve env (NewMetricsMiddleware True h r) s = (None, s2\<lparr>sv_world := w,
      sv_metrics := sv_metrics s2 @ [(rq_method r, final_status (sv_response s2), d)]\<rparr>)"
proof -
  let ?st = "\<lparr>mw_statusCode = 200, mw_written = False\<rparr>"
  have "metering.synced ?st (sv_response (s\<lparr>sv_world := w1\<rparr>))" using assms(2) by (simp add: metering.synced_def)
  from metering.transparent [OF assms(1) this] assms(4) obtain st' where
    f: "metering.follows env (h r) ?st (s\<lparr>sv_world := w1\<rparr>) st'" by auto
  with ok have sync: "metering.synced st' (sv_response s2)" "\<not> mw_written st' \<longrightarrow> mw_statusCode st' = 200"
    by (simp_all add: metering.follows_def)
  then have st: "mw_statusCode st' = final_status (sv_response s2)"
    by (auto simp: metering.synced_def final_status_def split: if_splits)
  show ?thesis
    using f ok now by (cases "en_now env (sv_world s2)") (auto simp: NewMetricsMiddleware_def metering.follows_def st)
qed

lemma serve_recovering:
  "serve env (recovering h p) s = (case serve env p s of (None, s') \<Rightarrow> (None, s') | (Some e, s') \<Rightarrow> serve env (h e) s')"
  by (induction p arbitrary: s) (simp_all split: prod.split)

definition panic_record :: "string \<Rightarrow> request \<Rightarrow> log_record" where
  "panic_record err r = (LevelError, ''panic recovered'',
     [(''error'', LStr err), (''method'', LStr (rq_method r)), (''path'', LStr (rq_path r))])"

definition error_text_body :: "'w serve_env \<Rightarrow> string \<Rightarrow> 'w serve_state \<Rightarrow> string" where
  "error_text_body env msg s = take (fst (fst (en_write env (msg @ [CHR 0x0A]) (sv_world s)))) (msg @ [CHR 0x0A])"

lemma serve_http_Error:
  "\<not> informational code \<Longrightarrow>
   fst (serve env (http_Error msg code) s) = None \<and>
   sv_log (snd (serve env (http_Error msg code) s)) = sv_log s \<and>
   sv_sent (snd (serve env (http_Error msg code) s)) = sv_sent s \<and>
   sv_activity (snd (serve env (http_Error msg code) s)) = sv_activity s \<and>
   rs_status (sv_response (snd (serve env (http_Error msg code) s))) =
     Some (case rs_status (sv_response s) of None \<Rightarrow> code | Some c \<Rightarrow> c) \<and>
   plain_run env (http_Error msg code) s \<and>
   rs_body (sv_response (snd (serve env (http_Error msg code) s))) =
     rs_body (sv_response s) @ error_text_body env msg s"
  by (cases "rs_status (sv_response s)")
    (simp_all add: http_Error_def net_WriteHeader_def net_Write_def error_text_body_def plain_run_def Let_def split: prod.split)

lemma recovery_serve:
  "serve env (NewRecoveryMiddleware h r) s = (case serve env (h r) s of
      (None, s') \<Rightarrow> (None, s')
    | (Some e, s') \<Rightarrow> serve env (http_Error ''Internal Server Error'' 500) (s'\<lparr>sv_log := sv_log s' @ [panic_record e r]\<rparr>))"
  by (simp add: NewRecoveryMiddleware_def serve_recovering panic_record_def split: prod.split option.split)

section \<open>Example\<close>

text \<open>An environment whose clock and identifiers count, and whose network answers by a fixed script.\<close>

definition example_env :: "round_trip \<Rightarrow> nat serve_env" where
  "example_env a = \<lparr>en_write = (\<lambda>b w. ((length b, None), w)), en_now = (\<lambda>w. (int w, Suc w)),
     en_uuid = (\<lambda>w. (''id'', w)), en_roundTrip = (\<lambda>u r w. (a, w))\<rparr>"

definition example_serve :: "nat serve_state" where
  "example_serve = \<lparr>sv_world = 1, sv_response = no_response, sv_log = [], sv_metrics = [], sv_activity = [], sv_sent = []\<rparr>"

definition example_request :: request where
  "example_request = \<lparr>rq_method = ''GET'', rq_path = ''/x'', rq_query = [], rq_header = Map.empty, rq_host = ''h'',
     rq_remoteAddr = ''10.0.0.1:5'', rq_tls = False, rq_requestID = None\<rparr>"

lemma example_accepts: "accepts_all (example_env a)"
  by (simp add: accepts_all_def example_env_def)

section \<open>Properties\<close>

text \<open>C15. The logging middleware is transparent for a handler that sends no informational status and does
  not flush before it has sent its status: the client receives the handler's response, and X-Request-ID, and the response is logged with the status
  the client received and the number of body bytes sent; a panic passes through unlogged.\<close>
theorem logging_middleware_transparent:
  assumes "accepts_all env" and "rs_status (sv_response s) = None" and "logging_enter env r s = (rid, t, s1)"
    and "plain_run env (h (r\<lparr>rq_requestID := Some rid\<rparr>)) s1"
  shows "case serve env (h (r\<lparr>rq_requestID := Some rid\<rparr>)) s1 of
      (Some e, s2) \<Rightarrow> serve env (NewLoggingMiddleware h r) s = (Some e, s2)
    | (None, s2) \<Rightarrow> \<exists>d w. serve env (NewLoggingMiddleware h r) s = (None, s2\<lparr>sv_world := w, sv_log := sv_log s2 @
        [response_record rid (final_status (sv_response s2))
           (int (length (rs_body (sv_response s2))) - int (length (rs_body (sv_response s)))) d]\<rparr>)"
  by (rule logging_serve) (fact assms)+

lemma logging_middleware_transparent_witness:
  "\<exists>d w s2. serve (example_env ([], Inl [])) (NewLoggingMiddleware (\<lambda>r. http_Error ''no'' 404) example_request) example_serve
     = (None, s2\<lparr>sv_world := w, sv_log := sv_log s2 @ [response_record ''id'' 404 3 d]\<rparr>)"
proof -
  let ?env = "example_env ([], Inl [])" and ?r = "example_request\<lparr>rq_requestID := Some ''id''\<rparr>"
  obtain t s1 where enter: "logging_enter ?env example_request example_serve = (''id'', t, s1)"
    and s1: "rs_status (sv_response s1) = None" "rs_body (sv_response s1) = []"
    by (simp add: logging_enter_def example_env_def example_serve_def no_response_def)
  obtain s2 where s2: "serve ?env (http_Error ''no'' 404) s1 = (None, s2)" "rs_status (sv_response s2) = Some 404"
    "rs_body (sv_response s2) = ''no'' @ [CHR 0x0A]" "plain_run ?env (http_Error ''no'' 404) s1"
    using serve_http_Error [of 404 ?env "''no''" s1] s1
    by (cases "serve ?env (http_Error ''no'' 404) s1")
      (auto simp: informational_def error_text_body_def example_env_def)
  have "rs_status (sv_response example_serve) = None" "rs_body (sv_response example_serve) = []"
    by (simp_all add: example_serve_def no_response_def)
  with logging_middleware_transparent [OF example_accepts this(1) enter, of "\<lambda>r. http_Error ''no'' 404"] s2
  show ?thesis by (auto simp: final_status_def)
qed

text \<open>C16. With the recovery middleware outermost, whatever the middleware and the handler below it do, no
  panic reaches the server; if one occurs it is logged, and the client gets status 500 unless a
  status had been sent before, in which case the error text is appended to the body.\<close>
theorem recovery_stops_panics:
  "case serve env (Chain ms h r) s of
     (None, s1) \<Rightarrow> serve env (Chain (NewRecoveryMiddleware # ms) h r) s = (None, s1)
   | (Some e, s1) \<Rightarrow> \<exists>s2. serve env (Chain (NewRecoveryMiddleware # ms) h r) s = (None, s2) \<and>
       sv_log s2 = sv_log s1 @ [panic_record e r] \<and>
       rs_status (sv_response s2) = Some (case rs_status (sv_response s1) of None \<Rightarrow> 500 | Some c \<Rightarrow> c) \<and>
       rs_body (sv_response s2) = rs_body (sv_response s1) @ error_text_body env ''Internal Server Error'' s1"
proof -
  have eq: "Chain (NewRecoveryMiddleware # ms) h r = NewRecoveryMiddleware (Chain ms h) r"
    by (simp add: Chain_foldr)
  obtain e s1 where below: "serve env (Chain ms h r) s = (e, s1)" by fastforce
  show ?thesis
  proof (cases e)
    case None
    with below show ?thesis by (simp add: eq recovery_serve)
  next
    case (Some x)
    let ?s = "s1\<lparr>sv_log := sv_log s1 @ [panic_record x r]\<rparr>"
    obtain e2 s2 where "serve env (http_Error ''Internal Server Error'' 500) ?s = (e2, s2)" by fastforce
    with serve_http_Error [of 500 env "''Internal Server Error''" ?s] below Some show ?thesis
      by (simp add: eq recovery_serve informational_def error_text_body_def)
  qed
qed

text \<open>A flush sends the header with status 200, but the logging writer does not notice: a status that the
  handler sends afterwards, which the server ignores, is logged as the response's.\<close>
theorem early_flush_spoils_log:
  "(case serve (example_env ([], Inl [])) (NewLoggingMiddleware (\<lambda>r. Flush (http_Error ''no'' 404)) example_request) example_serve
     of (e, s) \<Rightarrow> e = None \<and> final_status (sv_response s) = 200 \<and> last (sv_log s) = response_record ''id'' 404 3 1)"
  by (simp add: NewLoggingMiddleware_def LoggingResponseWriter_WriteHeader_def LoggingResponseWriter_Write_def
      LoggingResponseWriter_Flush_def delegate_def http_Error_def example_env_def example_serve_def no_response_def
      net_WriteHeader_def net_Write_def net_Flush_def informational_def final_status_def time_sub_def clamp64_def
      min_int64_def max_int64_def Let_def)

end
