(* ===== verification/Proxy.thy ===== *)
theory Proxy
  imports Middleware
begin

text \<open>
  The reverse proxy handler, \<open>internal/proxy/proxy.go\<close>, on top of the request path of
  \<open>httputil.ReverseProxy\<close> (standard library): the director, the hop-by-hop headers, the
  \<open>X-Forwarded-For\<close> header, informational statuses, the error handler, and the abort when a body cannot be copied.
\<close>

section \<open>ReverseProxy\<close>

definition hop_headers :: "string list" where
  "hop_headers = [''Connection'', ''Proxy-Connection'', ''Keep-Alive'', ''Proxy-Authenticate'', ''Proxy-Authorization'',
     ''Te'', ''Trailer'', ''Transfer-Encoding'', ''Upgrade'']"

text \<open>The canonical form of a header name: a letter is upper-case at the start and after a dash.\<close>

definition to_upper :: "char \<Rightarrow> char" where
  "to_upper c = (if is_lower c then char_of (byte c - 32) else c)"

fun canonical_from :: "bool \<Rightarrow> string \<Rightarrow> string" where
  "canonical_from up [] = []"
| "canonical_from up (c # cs) = (if up then to_upper c else to_lower c) # canonical_from (c = CHR ''-'') cs"

definition connection_tokens :: "header \<Rightarrow> string list" where
  "connection_tokens h =
     (case h ''Connection'' of None \<Rightarrow> []
      | Some vs \<Rightarrow> map (canonical_from True) (filter (\<lambda>t. t \<noteq> []) (map TrimSpace (concat (map (split_on (CHR '','')) vs)))))"

definition removeHopByHop :: "header \<Rightarrow> header" where
  "removeHopByHop h = fold (\<lambda>k h. h(k := None)) (connection_tokens h @ hop_headers) h"

definition join_comma :: "string list \<Rightarrow> string" where
  "join_comma vs = (case vs of [] \<Rightarrow> [] | v # vs \<Rightarrow> v @ concat (map (\<lambda>w. '', '' @ w) vs))"

definition forward_for :: "request \<Rightarrow> header \<Rightarrow> header" where
  "forward_for r h =
     (case SplitHostPort (rq_remoteAddr r) of
        None \<Rightarrow> h
      | Some clientIP \<Rightarrow>
          header_Set ''X-Forwarded-For''
            (case h ''X-Forwarded-For'' of
               Some (v # vs) \<Rightarrow> join_comma (v # vs) @ '', '' @ clientIP
             | _ \<Rightarrow> clientIP) h)"

definition send_infos :: "int list \<Rightarrow> prog \<Rightarrow> prog" where
  "send_infos cs p = foldr WriteHeader cs p"

definition copy_response :: "int \<Rightarrow> string \<Rightarrow> bool \<Rightarrow> prog" where
  "copy_response status body broken =
     WriteHeader status (Write body (\<lambda>r.
       if snd r \<noteq> None \<or> broken then Panic ''net/http: abort Handler'' else Return))"

definition ReverseProxy :: "go_url \<Rightarrow> (request \<Rightarrow> request) \<Rightarrow> (request \<Rightarrow> string \<Rightarrow> prog) \<Rightarrow> handler" where
  "ReverseProxy target director errorHandler r =
     (let out = director r;
          out = out\<lparr>rq_header := forward_for r (removeHopByHop (rq_header out))\<rparr>
      in RoundTrip target out (\<lambda>(infos, answer).
           send_infos infos (case answer of
               Inl err \<Rightarrow> errorHandler out err
             | Inr (status, body, broken) \<Rightarrow> copy_response status body broken)))"

section \<open>The proxy handler\<close>

definition addForwardedHeaders :: "request \<Rightarrow> string \<Rightarrow> request" where
  "addForwardedHeaders r originalHost =
     (let proto = (if rq_tls r then ''https'' else ''http'');
          r = (if header_Get (rq_header r) ''X-Forwarded-Proto'' = []
               then r\<lparr>rq_header := header_Set ''X-Forwarded-Proto'' proto (rq_header r)\<rparr> else r)
      in if header_Get (rq_header r) ''X-Forwarded-Host'' = []
         then r\<lparr>rq_header := header_Set ''X-Forwarded-Host'' originalHost (rq_header r)\<rparr> else r)"

text \<open>
  The interface \<open>ActivityRecorder\<close> holding an idle tracker: None is the nil interface, and an
  interface that holds a nil tracker is not nil; recording on it dereferences the nil pointer.
\<close>

datatype recorder = NilTracker | Tracker

record proxy_options =
  po_activityRecorder :: "recorder option"
  po_routeID :: string

definition WithActivityRecorder :: "recorder option \<Rightarrow> string \<Rightarrow> proxy_options \<Rightarrow> proxy_options" where
  "WithActivityRecorder rec' routeID o' = o'\<lparr>po_activityRecorder := rec', po_routeID := routeID\<rparr>"

definition no_options :: proxy_options where
  "no_options = \<lparr>po_activityRecorder = None, po_routeID = []\<rparr>"

definition record_activity :: "proxy_options \<Rightarrow> prog \<Rightarrow> prog" where
  "record_activity o' p =
     (case po_activityRecorder o' of
        None \<Rightarrow> p
      | Some Tracker \<Rightarrow> Activity (po_routeID o') p
      | Some NilTracker \<Rightarrow> Panic ''runtime error: invalid memory address or nil pointer dereference'')"

definition newErrorHandler :: "proxy_options \<Rightarrow> handler \<Rightarrow> handler" where
  "newErrorHandler opts errFn r = (if po_activityRecorder opts = None then errFn r else record_activity opts (errFn r))"

definition log_error :: "string \<Rightarrow> prog \<Rightarrow> prog" where
  "log_error msg p = Log (LevelError, msg, []) p"

definition invalid_target :: "string \<Rightarrow> handler" where
  "invalid_target msg r = log_error msg (http_Error ''Invalid target URL'' 502)"

text \<open>\<open>ServeHTTP\<close> of the handler; the director keeps the host of the request for the forwarded headers.\<close>

definition ProxyHandler_ServeHTTP :: "go_url \<Rightarrow> proxy_options \<Rightarrow> handler" where
  "ProxyHandler_ServeHTTP target opts r =
     record_activity opts
       (ReverseProxy target (\<lambda>req. addForwardedHeaders req (rq_host req))
          (\<lambda>req err. log_error ''proxy error'' (http_Error ''Bad Gateway'' 502)) r)"

definition NewProxyHandler :: "string \<Rightarrow> (proxy_options \<Rightarrow> proxy_options) list \<Rightarrow> handler" where
  "NewProxyHandler targetURL opts =
     (let options = fold (\<lambda>opt o'. opt o') opts no_options in
      case url_Parse targetURL of
        Inl err \<Rightarrow> newErrorHandler options (invalid_target ''invalid target URL'')
      | Inr target \<Rightarrow>
          if url_scheme target = [] then newErrorHandler options (invalid_target ''invalid target URL: missing scheme'')
          else if url_scheme target \<noteq> ''http'' \<and> url_scheme target \<noteq> ''https''
          then newErrorHandler options (invalid_target ''invalid target URL: unsupported scheme'')
          else if url_host target = [] then newErrorHandler options (invalid_target ''invalid target URL: missing host'')
          else ProxyHandler_ServeHTTP target options)"

section \<open>What is forwarded\<close>

lemma fold_remove: "fold (\<lambda>k h. h(k := None)) ks h = (\<lambda>k. if k \<in> set ks then None else h k)"
  by (induction ks arbitrary: h) (auto simp: fun_eq_iff)

lemma removeHopByHop_apply:
  "removeHopByHop h k = (if k \<in> set (connection_tokens h) \<or> k \<in> set hop_headers then None else h k)"
  by (simp add: removeHopByHop_def fold_remove)

lemma forward_for_other: "k \<noteq> ''X-Forwarded-For'' \<Longrightarrow> forward_for r h k = h k"
  by (simp add: forward_for_def header_Set_def split: option.split)

lemma addForwardedHeaders_header:
  "rq_header (addForwardedHeaders r host) k =
     (if k = ''X-Forwarded-Proto'' \<and> header_Get (rq_header r) k = [] then Some [if rq_tls r then ''https'' else ''http'']
      else if k = ''X-Forwarded-Host'' \<and> header_Get (rq_header r) k = [] then Some [host]
      else rq_header r k)"
  by (auto simp: addForwardedHeaders_def Let_def header_Set_def header_Get_def split: if_splits)

lemma addForwardedHeaders_tokens: "connection_tokens (rq_header (addForwardedHeaders r host)) = connection_tokens (rq_header r)"
  by (simp add: connection_tokens_def addForwardedHeaders_header)

definition out_request :: "request \<Rightarrow> request" where
  "out_request r = (let out = addForwardedHeaders r (rq_host r) in
     out\<lparr>rq_header := forward_for r (removeHopByHop (rq_header out))\<rparr>)"

text \<open>A header of the outgoing request that is not a hop-by-hop header, nor named by \<open>Connection\<close>.\<close>

definition end_to_end :: "request \<Rightarrow> string \<Rightarrow> bool" where
  "end_to_end r k \<longleftrightarrow> k \<notin> set hop_headers \<and> k \<notin> set (connection_tokens (rq_header r)) \<and> k \<noteq> ''X-Forwarded-For''"

lemma out_request_header:
  "end_to_end r k \<Longrightarrow> rq_header (out_request r) k =
     (if k = ''X-Forwarded-Proto'' \<and> header_Get (rq_header r) k = [] then Some [if rq_tls r then ''https'' else ''http'']
      else if k = ''X-Forwarded-Host'' \<and> header_Get (rq_header r) k = [] then Some [rq_host r]
      else rq_header r k)"
  by (simp add: out_request_def Let_def end_to_end_def forward_for_other removeHopByHop_apply
      addForwardedHeaders_tokens addForwardedHeaders_header)

lemma out_request_frame:
  "rq_method (out_request r) = rq_method r" "rq_path (out_request r) = rq_path r" "rq_query (out_request r) = rq_query r"
  by (simp_all add: out_request_def addForwardedHeaders_def Let_def)

definition valid_target :: "string \<Rightarrow> go_url \<Rightarrow> bool" where
  "valid_target targetURL target \<longleftrightarrow> url_Parse targetURL = Inr target \<and>
     url_scheme target \<in> {''http'', ''https''} \<and> url_host target \<noteq> []"

lemma NewProxyHandler_valid:
  "valid_target targetURL target \<Longrightarrow>
     NewProxyHandler targetURL opts = ProxyHandler_ServeHTTP target (fold (\<lambda>opt o'. opt o') opts no_options)"
  by (auto simp: NewProxyHandler_def valid_target_def Let_def)

lemma serve_infos:
  "rs_status (sv_response s) = None \<Longrightarrow> list_all informational cs \<Longrightarrow>
     serve env (send_infos cs p) s =
       serve env p (s\<lparr>sv_response := (sv_response s)\<lparr>rs_info := rs_info (sv_response s) @ cs\<rparr>\<rparr>)"
proof (induction cs arbitrary: s)
  case Nil
  then show ?case by (simp add: send_infos_def)
next
  case (Cons c cs)
  then have "net_WriteHeader c (sv_response s) = (sv_response s)\<lparr>rs_info := rs_info (sv_response s) @ [c]\<rparr>"
    by (simp add: net_WriteHeader_def)
  with Cons.IH [of "s\<lparr>sv_response := (sv_response s)\<lparr>rs_info := rs_info (sv_response s) @ [c]\<rparr>\<rparr>"] Cons.prems
  show ?case by (simp add: send_infos_def)
qed

text \<open>The response of the backend, or 502 if there is none.\<close>

definition relayed :: "'w serve_env \<Rightarrow> (string + int \<times> string \<times> bool) \<Rightarrow> 'w serve_state \<Rightarrow> int \<times> string" where
  "relayed env answer s =
     (case answer of
        Inl err \<Rightarrow> (502, error_text_body env ''Bad Gateway'' s)
      | Inr (status, body, broken) \<Rightarrow> (status, take (fst (fst (en_write env body (sv_world s)))) body))"

lemma ProxyHandler_unfold:
  "ProxyHandler_ServeHTTP target opts r = record_activity opts (RoundTrip target (out_request r) (\<lambda>(infos, answer).
     send_infos infos (case answer of
         Inl err \<Rightarrow> log_error ''proxy error'' (http_Error ''Bad Gateway'' 502)
       | Inr (status, body, broken) \<Rightarrow> copy_response status body broken)))"
  by (simp add: ProxyHandler_ServeHTTP_def ReverseProxy_def out_request_def Let_def)

definition final_answer :: "(string + int \<times> string \<times> bool) \<Rightarrow> bool" where
  "final_answer answer = (case answer of Inl _ \<Rightarrow> True | Inr (status, body, broken) \<Rightarrow> \<not> informational status)"

lemma ProxyHandler_serve:
  assumes none: "rs_status (sv_response s) = None" "rs_body (sv_response s) = []"
    and rec': "po_activityRecorder opts = Some Tracker"
    and trip: "en_roundTrip env target (out_request r) (sv_world s) = ((infos, answer), w)"
    and infos: "list_all informational infos"
    and fin: "final_answer answer"
  shows "\<exists>e s'. serve env (ProxyHandler_ServeHTTP target opts r) s = (e, s') \<and>
    sv_sent s' = sv_sent s @ [(target, out_request r)] \<and> sv_activity s' = sv_activity s @ [po_routeID opts] \<and>
    rs_info (sv_response s') = rs_info (sv_response s) @ infos \<and>
    rs_status (sv_response s') = Some (fst (relayed env answer (s\<lparr>sv_world := w\<rparr>))) \<and>
    rs_body (sv_response s') = snd (relayed env answer (s\<lparr>sv_world := w\<rparr>)) \<and>
    (e \<noteq> None \<longleftrightarrow> (case answer of Inl _ \<Rightarrow> False | Inr (status, body, broken) \<Rightarrow>
       broken \<or> snd (fst (en_write env body w)) \<noteq> None))"
proof -
  define s1 where "s1 = s\<lparr>sv_activity := sv_activity s @ [po_routeID opts], sv_world := w,
    sv_sent := sv_sent s @ [(target, out_request r)],
    sv_response := (sv_response s)\<lparr>rs_info := rs_info (sv_response s) @ infos\<rparr>\<rparr>"
  have out: "(addForwardedHeaders r (rq_host r))\<lparr>rq_header := forward_for r (removeHopByHop
      (rq_header (addForwardedHeaders r (rq_host r))))\<rparr> = out_request r"
    by (simp add: out_request_def Let_def)
  have run: "serve env (ProxyHandler_ServeHTTP target opts r) s = serve env (case answer of
      Inl err \<Rightarrow> log_error ''proxy error'' (http_Error ''Bad Gateway'' 502)
    | Inr (status, body, broken) \<Rightarrow> copy_response status body broken) s1"
    using none trip infos
    by (simp add: ProxyHandler_ServeHTTP_def record_activity_def rec' ReverseProxy_def Let_def out serve_infos s1_def)
  show ?thesis
  proof (cases answer)
    case (Inl err)
    let ?s = "s1\<lparr>sv_log := sv_log s1 @ [(LevelError, ''proxy error'', [])]\<rparr>"
    obtain e s' where "serve env (http_Error ''Bad Gateway'' 502) ?s = (e, s')" by fastforce
    with serve_http_Error [of 502 env "''Bad Gateway''" ?s] none run Inl show ?thesis
      by (simp add: log_error_def informational_def relayed_def error_text_body_def s1_def plain_run_def)
  next
    case (Inr sbb)
    then obtain status body broken where ans: "answer = Inr (status, body, broken)" by (cases sbb) auto
    obtain n err w' where wr: "en_write env body w = ((n, err), w')" by (metis prod.exhaust)
    have f: "\<not> informational status" using fin by (simp add: ans final_answer_def)
    show ?thesis
      using none f run wr by (auto simp: ans copy_response_def s1_def net_WriteHeader_def net_Write_def Let_def relayed_def)
  qed
qed

section \<open>Properties\<close>



text \<open>Two defects of the middleware installed around the proxy. When the upstream sends an
  informational status (103) before its 404, the client gets 200 and the log says 103: the response writer
  counts the informational status as the final one. When the upstream fails in the middle of its body,
  the abort with which the reverse proxy would cut the connection is recovered, and the client gets a
  response that looks complete, with the error text appended to the truncated body.\<close>
theorem installed_middleware_spoils_responses:
  "(case serve (example_env ([103], Inr (404, ''gone'', False)))
       (Chain [NewRecoveryMiddleware, NewLoggingMiddleware] (NewProxyHandler ''http://nas'' []) example_request) example_serve
     of (e, s) \<Rightarrow> e = None \<and> rs_info (sv_response s) = [103] \<and> final_status (sv_response s) = 200 \<and>
        rs_body (sv_response s) = ''gone'' \<and> last (sv_log s) = response_record ''id'' 103 4 1) \<and>
   (case serve (example_env ([], Inr (200, ''half'', True)))
       (Chain [NewRecoveryMiddleware, NewLoggingMiddleware] (NewProxyHandler ''http://nas'' []) example_request) example_serve
     of (e, s) \<Rightarrow> e = None \<and> final_status (sv_response s) = 200 \<and>
        rs_body (sv_response s) = ''halfInternal Server Error'' @ [CHR 0x0A])"
proof -
  let ?u = "\<lparr>url_scheme = ''http'', url_host = ''nas''\<rparr>"
  have "valid_target ''http://nas'' ?u" unfolding valid_target_def by code_simp
  then have h: "NewProxyHandler ''http://nas'' [] r = RoundTrip ?u (out_request r) (\<lambda>(infos, answer).
     send_infos infos (case answer of
         Inl err \<Rightarrow> log_error ''proxy error'' (http_Error ''Bad Gateway'' 502)
       | Inr (status, body, broken) \<Rightarrow> copy_response status body broken))" for r
    by (simp add: NewProxyHandler_valid ProxyHandler_unfold record_activity_def no_options_def)
  note prog = Chain_foldr recovery_serve NewLoggingMiddleware_def h Let_def example_env_def send_infos_def
     LoggingResponseWriter_WriteHeader_def delegate_def copy_response_def LoggingResponseWriter_Write_def
  note response = example_serve_def no_response_def net_WriteHeader_def net_Write_def informational_def final_status_def
    time_sub_def clamp64_def min_int64_def max_int64_def http_Error_def
  show ?thesis
    by (rule conjI; simp add: prog; simp add: response)
qed

section \<open>Handlers that cannot forward\<close>

lemma nil_tracker_panics:
  "\<exists>e. serve env (NewProxyHandler targetURL [WithActivityRecorder (Some NilTracker) routeID] r) s = (Some e, s)"
  by (cases "url_Parse targetURL")
    (simp_all add: NewProxyHandler_def WithActivityRecorder_def Let_def newErrorHandler_def record_activity_def
      ProxyHandler_ServeHTTP_def)

end
