(* ===== verification/Management.thy ===== *)
theory Management
  imports HttpHandler RouteManager
begin

text \<open>
  The management endpoints (\<open>internal/management/health\<close>): the handlers for health, liveness,
  readiness and version, and the life cycle of the management server, which
  \<open>internal/management/metrics/server.go\<close> repeats for the metrics server. The life cycle is a
  transition system: every call of Start has its waiting caller, its timer goroutine, its serving
  goroutine and the goroutine that waits for the end of its context (the program itself passes
  \<open>context.Background()\<close>, which never ends).
\<close>

section \<open>Responses\<close>

record version_info =
  vi_Version :: string
  vi_BuildTime :: string
  vi_GitCommit :: string

record application_health =
  ah_Status :: string
  ah_Version :: string
  ah_ActiveRoutes :: int
  ah_Uptime :: string

record liveness_response =
  lr_Status :: string

record readiness_response =
  rr_Status :: string
  rr_ActiveRoutes :: int

text \<open>\<open>encoding/json\<close> on a struct of strings and ints: the fields in order, strings with their special
  characters escaped (ASCII text), and a line feed at the end.\<close>

definition hex_digit :: "nat \<Rightarrow> char" where
  "hex_digit d = ''0123456789abcdef'' ! d"

definition json_char :: "char \<Rightarrow> string" where
  "json_char c =
     (if byte c = 34 \<or> byte c = 92 then [char_of (92 :: nat), c]
      else if byte c = 8 then char_of (92 :: nat) # ''b'' else if byte c = 12 then char_of (92 :: nat) # ''f''
      else if byte c = 10 then char_of (92 :: nat) # ''n'' else if byte c = 13 then char_of (92 :: nat) # ''r''
      else if byte c = 9 then char_of (92 :: nat) # ''t''
      else if byte c < 32 \<or> c \<in> set ''<>&''
        then char_of (92 :: nat) # ''u00'' @ [hex_digit (byte c div 16), hex_digit (byte c mod 16)]
      else [c])"

definition json_string :: "string \<Rightarrow> string" where
  "json_string s = CHR 0x22 # concat (map json_char s) @ [CHR 0x22]"

datatype json_field = JStr string string | JInt string int

fun json_member :: "json_field \<Rightarrow> string" where
  "json_member (JStr k v) = json_string k @ '':'' @ json_string v"
| "json_member (JInt k i) = json_string k @ '':'' @ itoa i"

definition json_object :: "json_field list \<Rightarrow> string" where
  "json_object fs = ''{'' @ (case map json_member fs of [] \<Rightarrow> [] | t # ts \<Rightarrow> t @ concat (map (\<lambda>u. CHR '','' # u) ts)) @ ''}'' @ [CHR 0x0A]"

definition encode_health :: "application_health \<Rightarrow> string" where
  "encode_health h = json_object [JStr ''status'' (ah_Status h), JStr ''version'' (ah_Version h),
     JInt ''activeRoutes'' (ah_ActiveRoutes h), JStr ''uptime'' (ah_Uptime h)]"

definition encode_version :: "version_info \<Rightarrow> string" where
  "encode_version v = json_object [JStr ''version'' (vi_Version v), JStr ''buildTime'' (vi_BuildTime v), JStr ''gitCommit'' (vi_GitCommit v)]"

definition encode_ready :: "readiness_response \<Rightarrow> string" where
  "encode_ready r = json_object [JStr ''status'' (rr_Status r), JInt ''activeRoutes'' (rr_ActiveRoutes r)]"

definition encode_live :: "liveness_response \<Rightarrow> string" where
  "encode_live l = json_object [JStr ''status'' (lr_Status l)]"

text \<open>\<open>Duration.Round(time.Second)\<close> and \<open>Duration.String\<close> of the result, for durations that are not negative.\<close>

definition round_second :: "duration \<Rightarrow> duration" where
  "round_second d = (let r = d mod second in if 2 * r < second then d - r else d + second - r)"

definition uptime_string :: "duration \<Rightarrow> string" where
  "uptime_string d =
     (let u = d div second in
      if u < 60 then itoa u @ ''s''
      else if u < 3600 then itoa (u div 60) @ ''m'' @ itoa (u mod 60) @ ''s''
      else itoa (u div 3600) @ ''h'' @ itoa (u div 60 mod 60) @ ''m'' @ itoa (u mod 60) @ ''s'')"

section \<open>Handlers\<close>

text \<open>Sending a JSON response; an error of the encoder is logged.\<close>

definition send_json :: "int \<Rightarrow> string \<Rightarrow> string \<Rightarrow> prog" where
  "send_json status body errMsg =
     SetHeader ''Content-Type'' ''application/json'' (WriteHeader status (Write body (\<lambda>r.
       if snd r \<noteq> None then Log (LevelError, errMsg, []) Return else Return)))"

definition get_only :: "handler \<Rightarrow> handler" where
  "get_only h r = (if rq_method r \<noteq> ''GET'' then http_Error ''Method not allowed'' 405 else h r)"

text \<open>\<open>activeRoutes\<close> is what the provider's \<open>GetActiveRouteCount\<close> answers.\<close>

definition NewHealthHandler :: "int \<Rightarrow> version_info \<Rightarrow> time \<Rightarrow> handler" where
  "NewHealthHandler activeRoutes versionInfo startTime = get_only (\<lambda>r. Now (\<lambda>now.
     let uptime = round_second (time_sub now startTime);
         status = (if activeRoutes = 0 then ''degraded'' else ''healthy'')
     in send_json 200 (encode_health \<lparr>ah_Status = status, ah_Version = vi_Version versionInfo,
          ah_ActiveRoutes = activeRoutes, ah_Uptime = uptime_string uptime\<rparr>) ''failed to encode health response''))"

definition NewLiveHandler :: handler where
  "NewLiveHandler = get_only (\<lambda>r. send_json 200 (encode_live \<lparr>lr_Status = ''alive''\<rparr>) ''failed to encode liveness response'')"

definition NewReadyHandler :: "int \<Rightarrow> handler" where
  "NewReadyHandler activeRoutes = get_only (\<lambda>r.
     let (status, statusCode) = (if activeRoutes = 0 then (''not ready'', 503) else (''ready'', 200))
     in send_json statusCode (encode_ready \<lparr>rr_Status = status, rr_ActiveRoutes = activeRoutes\<rparr>)
          ''failed to encode readiness response'')"

definition NewVersionHandler :: "version_info \<Rightarrow> handler" where
  "NewVersionHandler versionInfo = get_only (\<lambda>r. send_json 200 (encode_version versionInfo) ''failed to encode version response'')"

text \<open>The \<open>ServeMux\<close> that Start builds.\<close>

definition management_mux :: "('t, 'w) route_manager \<Rightarrow> version_info \<Rightarrow> time \<Rightarrow> handler" where
  "management_mux provider versionInfo startTime r =
     (if rq_path r = ''/health'' then NewHealthHandler (int (GetActiveRouteCount provider)) versionInfo startTime r
      else if rq_path r = ''/live'' then NewLiveHandler r
      else if rq_path r = ''/ready'' then NewReadyHandler (int (GetActiveRouteCount provider)) r
      else if rq_path r = ''/version'' then NewVersionHandler versionInfo r
      else http_Error ''404 page not found'' 404)"

section \<open>The server\<close>

datatype server_timer = TimerPending | TimerRead bool | TimerOver
datatype server_runner = RunnerInit | RunnerListen | RunnerServing nat | RunnerFailed string | RunnerClose | RunnerOver
datatype server_cancel = CancelWait | CancelShutdown | CancelClear | CancelOver
datatype start_caller = CallerWaiting | CallerReturned "string option"

text \<open>One call of Start that found the server not running, and the \<open>http.Server\<close> it made. \<open>si_ctxDone\<close>:
  the context of the call has ended. \<open>si_shut\<close>: the server has been shut down. \<open>RunnerServing j\<close> serves
  on the server that call \<open>j\<close> made.\<close>

record start_instance =
  si_caller :: start_caller
  si_timer :: server_timer
  si_runner :: server_runner
  si_cancel :: server_cancel
  si_ctxDone :: bool
  si_shut :: bool

text \<open>\<open>ms_instances\<close>: the latest instance is the one \<open>s.server\<close> points to. \<open>ms_started\<close>: the channel is closed.\<close>

record management_server =
  ms_port :: int
  ms_running :: bool
  ms_started :: bool
  ms_startErr :: "string option"
  ms_instances :: "start_instance list"

definition NewServer :: "int \<Rightarrow> management_server" where
  "NewServer port = \<lparr>ms_port = port, ms_running = False, ms_started = False, ms_startErr = None, ms_instances = []\<rparr>"

definition IsRunning :: "management_server \<Rightarrow> bool" where
  "IsRunning s = ms_running s"

definition upd_instance :: "nat \<Rightarrow> (start_instance \<Rightarrow> start_instance) \<Rightarrow> management_server \<Rightarrow> management_server" where
  "upd_instance i f s = s\<lparr>ms_instances := (ms_instances s)[i := f (ms_instances s ! i)]\<rparr>"

datatype server_error = ErrServerAlreadyRunning | ErrServerNotRunning | ErrServerShutdownTimeout | ErrServerShutdown string

text \<open>The instance whose server \<open>s.server\<close> points to.\<close>

definition current_server :: "management_server \<Rightarrow> nat" where
  "current_server s = length (ms_instances s) - 1"

text \<open>Start up to the point where it waits: an error, or a new instance with its goroutines.\<close>

definition Server_Start :: "management_server \<Rightarrow> server_error option \<times> management_server" where
  "Server_Start s =
     (if ms_running s then (Some ErrServerAlreadyRunning, s)
      else (None, s\<lparr>ms_instances := ms_instances s @
          [\<lparr>si_caller = CallerWaiting, si_timer = TimerPending, si_runner = RunnerInit, si_cancel = CancelWait,
            si_ctxDone = False, si_shut = False\<rparr>]\<rparr>))"

definition server_timer_step :: "nat \<Rightarrow> management_server \<Rightarrow> management_server option" where
  "server_timer_step i s =
     (case si_timer (ms_instances s ! i) of
        TimerPending \<Rightarrow> Some (upd_instance i (\<lambda>x. x\<lparr>si_timer := TimerRead (ms_running s)\<rparr>) s)
      | TimerRead running \<Rightarrow>
          Some ((upd_instance i (\<lambda>x. x\<lparr>si_timer := TimerOver\<rparr>) s)\<lparr>ms_started := (ms_started s \<or> running)\<rparr>)
      | TimerOver \<Rightarrow> None)"

text \<open>\<open>bind\<close>: the error of listening, if the server gets to try. The server is the one that \<open>s.server\<close>
  points to when the goroutine gets there.\<close>

definition server_runner_step :: "string option \<Rightarrow> nat \<Rightarrow> management_server \<Rightarrow> management_server option" where
  "server_runner_step bind i s =
     (case si_runner (ms_instances s ! i) of
        RunnerInit \<Rightarrow> Some ((upd_instance i (\<lambda>x. x\<lparr>si_runner := RunnerListen\<rparr>) s)\<lparr>ms_running := True\<rparr>)
      | RunnerListen \<Rightarrow>
          if si_shut (ms_instances s ! current_server s) then Some (upd_instance i (\<lambda>x. x\<lparr>si_runner := RunnerOver\<rparr>) s)
          else (case bind of
              None \<Rightarrow> Some (upd_instance i (\<lambda>x. x\<lparr>si_runner := RunnerServing (current_server s)\<rparr>) s)
            | Some e \<Rightarrow> Some (upd_instance i (\<lambda>x. x\<lparr>si_runner := RunnerFailed e\<rparr>) s))
      | RunnerServing j \<Rightarrow>
          if si_shut (ms_instances s ! j) then Some (upd_instance i (\<lambda>x. x\<lparr>si_runner := RunnerOver\<rparr>) s) else None
      | RunnerFailed e \<Rightarrow>
          Some ((upd_instance i (\<lambda>x. x\<lparr>si_runner := RunnerClose\<rparr>) s)\<lparr>ms_running := False, ms_startErr := Some e\<rparr>)
      | RunnerClose \<Rightarrow> Some ((upd_instance i (\<lambda>x. x\<lparr>si_runner := RunnerOver\<rparr>) s)\<lparr>ms_started := True\<rparr>)
      | RunnerOver \<Rightarrow> None)"

text \<open>The goroutine that waits for the end of the context: it reads \<open>running\<close>, shuts the server down,
  whatever Shutdown answers, and clears \<open>running\<close>.\<close>

definition server_cancel_step :: "nat \<Rightarrow> management_server \<Rightarrow> management_server option" where
  "server_cancel_step i s =
     (case si_cancel (ms_instances s ! i) of
        CancelWait \<Rightarrow>
          if si_ctxDone (ms_instances s ! i)
          then Some (upd_instance i (\<lambda>x. x\<lparr>si_cancel := (if ms_running s then CancelShutdown else CancelOver)\<rparr>) s)
          else None
      | CancelShutdown \<Rightarrow>
          Some (upd_instance i (\<lambda>x. x\<lparr>si_cancel := CancelClear\<rparr>) (upd_instance (current_server s) (\<lambda>x. x\<lparr>si_shut := True\<rparr>) s))
      | CancelClear \<Rightarrow> Some ((upd_instance i (\<lambda>x. x\<lparr>si_cancel := CancelOver\<rparr>) s)\<lparr>ms_running := False\<rparr>)
      | CancelOver \<Rightarrow> None)"

text \<open>The end of Start: it waits for the channel, and reads the error.\<close>

definition server_caller_step :: "nat \<Rightarrow> management_server \<Rightarrow> management_server option" where
  "server_caller_step i s =
     (case si_caller (ms_instances s ! i) of
        CallerWaiting \<Rightarrow>
          if ms_started s then Some (upd_instance i (\<lambda>x. x\<lparr>si_caller := CallerReturned (ms_startErr s)\<rparr>) s) else None
      | CallerReturned r \<Rightarrow> None)"

text \<open>Stop; \<open>shutdown\<close> is the error of \<open>http.Server.Shutdown\<close>, with whether a deadline was exceeded. Shutdown closes the
  listeners in any case.\<close>

definition Server_Stop :: "(bool \<times> string) option \<Rightarrow> management_server \<Rightarrow> server_error option \<times> management_server" where
  "Server_Stop shutdown s =
     (if \<not> ms_running s then (Some ErrServerNotRunning, s)
      else
        let s = upd_instance (current_server s) (\<lambda>x. x\<lparr>si_shut := True\<rparr>) s
        in (case shutdown of
              Some (deadline, e) \<Rightarrow> (Some (if deadline then ErrServerShutdownTimeout else ErrServerShutdown e), s)
            | None \<Rightarrow> (None, s\<lparr>ms_running := False\<rparr>)))"

datatype server_action =
    SStart | STimer nat | SRun nat "string option" | SCaller nat | SStop "(bool \<times> string) option"
  | SCtxDone nat | SCancel nat

fun server_exec :: "server_action \<Rightarrow> management_server \<Rightarrow> management_server option" where
  "server_exec SStart s = Some (snd (Server_Start s))"
| "server_exec (STimer i) s = (if i < length (ms_instances s) then server_timer_step i s else None)"
| "server_exec (SRun i bind) s = (if i < length (ms_instances s) then server_runner_step bind i s else None)"
| "server_exec (SCaller i) s = (if i < length (ms_instances s) then server_caller_step i s else None)"
| "server_exec (SStop r) s = Some (snd (Server_Stop r s))"
| "server_exec (SCtxDone i) s =
     (if i < length (ms_instances s) then Some (upd_instance i (\<lambda>x. x\<lparr>si_ctxDone := True\<rparr>) s) else None)"
| "server_exec (SCancel i) s = (if i < length (ms_instances s) then server_cancel_step i s else None)"

inductive server_step :: "management_server \<Rightarrow> management_server \<Rightarrow> bool" where
  "server_exec a s = Some t \<Longrightarrow> server_step s t"

inductive_cases server_stepE: "server_step s t"

fun server_run :: "server_action list \<Rightarrow> management_server \<Rightarrow> management_server option" where
  "server_run [] s = Some s"
| "server_run (a # as) s = (case server_exec a s of None \<Rightarrow> None | Some t \<Rightarrow> server_run as t)"

lemma server_run_steps: "server_run as s = Some t \<Longrightarrow> server_step\<^sup>*\<^sup>* s t"
proof (induction as arbitrary: s)
  case Nil
  then show ?case by simp
next
  case (Cons a as)
  then show ?case
    by (auto split: option.splits intro: converse_rtranclp_into_rtranclp server_step.intros)
qed

section \<open>The metrics server\<close>

text \<open>\<open>internal/management/metrics/server.go\<close> has the same fields and the same Start and Stop; only
  the handler of its mux differs.\<close>

type_synonym metrics_server = management_server

text \<open>The mux of the metrics server; \<open>handlerFor\<close> is \<open>promhttp.HandlerFor\<close>.\<close>

definition metrics_mux :: "('r \<Rightarrow> handler) \<Rightarrow> 'r \<times> registry \<Rightarrow> handler" where
  "metrics_mux handlerFor reg r =
     (if rq_path r = ''/metrics'' then Registry_Handler handlerFor reg r else http_Error ''404 page not found'' 404)"

definition metrics_NewServer :: "int \<Rightarrow> metrics_server" where
  "metrics_NewServer = NewServer"

definition metrics_Server_Start :: "metrics_server \<Rightarrow> server_error option \<times> metrics_server" where
  "metrics_Server_Start = Server_Start"

definition metrics_Server_Stop :: "(bool \<times> string) option \<Rightarrow> metrics_server \<Rightarrow> server_error option \<times> metrics_server" where
  "metrics_Server_Stop = Server_Stop"

text \<open>The steps of its goroutines.\<close>

definition metrics_server_exec :: "server_action \<Rightarrow> metrics_server \<Rightarrow> metrics_server option" where
  "metrics_server_exec = server_exec"

section \<open>The first Start\<close>

definition first_start_inv :: "management_server \<Rightarrow> bool" where
  "first_start_inv s \<longleftrightarrow> (length (ms_instances s) \<le> 1 \<longrightarrow>
     (ms_instances s = [] \<longrightarrow> ms_startErr s = None \<and> \<not> ms_running s \<and> \<not> ms_started s) \<and>
     (\<forall>x \<in> set (ms_instances s).
        (ms_startErr s \<noteq> None \<longrightarrow> (si_runner x = RunnerClose \<or> si_runner x = RunnerOver) \<and> \<not> ms_running s) \<and>
        (si_runner x = RunnerClose \<longrightarrow> ms_startErr s \<noteq> None) \<and>
        (ms_running s \<longrightarrow> si_runner x \<noteq> RunnerInit) \<and>
        (si_timer x = TimerRead True \<longrightarrow> si_runner x \<noteq> RunnerInit) \<and>
        (ms_started s \<longrightarrow> si_runner x \<noteq> RunnerInit) \<and>
        (\<forall>e. si_caller x = CallerReturned (Some e) \<longrightarrow> ms_startErr s = Some e) \<and>
        (\<forall>r. si_caller x = CallerReturned r \<longrightarrow> ms_started s)))"

lemma single_instance:
  assumes "i < length (ms_instances s)" and "length (ms_instances s) \<le> 1"
  obtains x where "ms_instances s = [x]" and "i = 0"
  using assms by (cases "ms_instances s") auto

lemma first_start_inv_single:
  "ms_instances s = [x] \<Longrightarrow> first_start_inv s \<longleftrightarrow>
     (ms_startErr s \<noteq> None \<longrightarrow> (si_runner x = RunnerClose \<or> si_runner x = RunnerOver) \<and> \<not> ms_running s) \<and>
     (si_runner x = RunnerClose \<longrightarrow> ms_startErr s \<noteq> None) \<and>
     (ms_running s \<longrightarrow> si_runner x \<noteq> RunnerInit) \<and> (si_timer x = TimerRead True \<longrightarrow> si_runner x \<noteq> RunnerInit) \<and>
     (ms_started s \<longrightarrow> si_runner x \<noteq> RunnerInit) \<and>
     (\<forall>e. si_caller x = CallerReturned (Some e) \<longrightarrow> ms_startErr s = Some e) \<and>
     (\<forall>r. si_caller x = CallerReturned r \<longrightarrow> ms_started s)"
  by (simp add: first_start_inv_def)

lemma upd_instance_single: "ms_instances s = [x] \<Longrightarrow> upd_instance 0 f s = s\<lparr>ms_instances := [f x]\<rparr>"
  by (simp add: upd_instance_def)

lemma first_start_many: "\<not> length (ms_instances s) \<le> 1 \<Longrightarrow> first_start_inv s"
  by (simp add: first_start_inv_def)

lemma exec_instances: "server_exec a s = Some t \<Longrightarrow> length (ms_instances s) \<le> length (ms_instances t)"
  by (cases a) (auto simp: Server_Start_def server_timer_step_def server_runner_step_def server_caller_step_def
      server_cancel_step_def Server_Stop_def upd_instance_def Let_def split: if_splits option.splits server_timer.splits
      server_runner.splits server_cancel.splits start_caller.splits)

lemma first_start_exec:
  assumes inv: "first_start_inv s" and st: "server_exec a s = Some t"
  shows "first_start_inv t"
proof (cases "length (ms_instances t) \<le> 1")
  case False
  then show ?thesis by (rule first_start_many)
next
  case small: True
  with exec_instances [OF st] have len: "length (ms_instances s) \<le> 1" by simp
  show ?thesis
  proof (cases a)
    case SStart
    then show ?thesis
    proof (cases "ms_instances s")
      case Nil
      with inv SStart st show ?thesis by (auto simp: Server_Start_def first_start_inv_def)
    next
      case (Cons x xs)
      with SStart st small inv show ?thesis by (auto simp: Server_Start_def split: if_splits)
    qed
  next
    case (STimer i)
    with st have i: "i < length (ms_instances s)" and st': "server_timer_step i s = Some t" by (auto split: if_splits)
    obtain x where x: "ms_instances s = [x]" "i = 0" by (rule single_instance [OF i len])
    with st' inv show ?thesis
      by (cases "si_timer x")
        (auto simp: server_timer_step_def upd_instance_single [OF x(1)] first_start_inv_single [OF x(1)]
          first_start_inv_single)
  next
    case (SRun i bind)
    with st have i: "i < length (ms_instances s)" and st': "server_runner_step bind i s = Some t" by (auto split: if_splits)
    obtain x where x: "ms_instances s = [x]" "i = 0" by (rule single_instance [OF i len])
    with st' inv show ?thesis
      by (cases "si_runner x"; cases bind)
        (auto simp: server_runner_step_def current_server_def upd_instance_single [OF x(1)] first_start_inv_single [OF x(1)]
          first_start_inv_single split: if_splits)
  next
    case (SCtxDone i)
    with st have i: "i < length (ms_instances s)" and t: "t = upd_instance i (\<lambda>x. x\<lparr>si_ctxDone := True\<rparr>) s"
      by (auto split: if_splits)
    obtain x where x: "ms_instances s = [x]" "i = 0" by (rule single_instance [OF i len])
    with t inv show ?thesis by (simp add: upd_instance_single [OF x(1)] first_start_inv_single [OF x(1)] first_start_inv_single)
  next
    case (SCancel i)
    with st have i: "i < length (ms_instances s)" and st': "server_cancel_step i s = Some t" by (auto split: if_splits)
    obtain x where x: "ms_instances s = [x]" "i = 0" by (rule single_instance [OF i len])
    show ?thesis
    proof (cases "si_cancel x")
      case CancelShutdown
      with st' x have "t = s\<lparr>ms_instances := [x\<lparr>si_shut := True, si_cancel := CancelClear\<rparr>]\<rparr>"
        by (simp add: server_cancel_step_def current_server_def upd_instance_def)
      with inv show ?thesis by (simp add: first_start_inv_single [OF x(1)] first_start_inv_single)
    qed (use st' x inv in \<open>auto simp: server_cancel_step_def upd_instance_single [OF x(1)]
        first_start_inv_single [OF x(1)] first_start_inv_single split: if_splits\<close>)
  next
    case (SCaller i)
    with st have i: "i < length (ms_instances s)" and st': "server_caller_step i s = Some t" by (auto split: if_splits)
    obtain x where x: "ms_instances s = [x]" "i = 0" by (rule single_instance [OF i len])
    with st' inv show ?thesis
      by (cases "si_caller x")
        (auto simp: server_caller_step_def upd_instance_single [OF x(1)] first_start_inv_single [OF x(1)]
          first_start_inv_single split: if_splits)
  next
    case (SStop r)
    show ?thesis
    proof (cases "ms_running s")
      case False
      with SStop st inv show ?thesis by (simp add: Server_Stop_def)
    next
      case True
      with inv len obtain x where x: "ms_instances s = [x]"
        by (cases "ms_instances s") (auto simp: first_start_inv_def)
      with SStop st inv True show ?thesis
        by (auto simp: Server_Stop_def Let_def current_server_def upd_instance_single [OF x] first_start_inv_single [OF x]
            first_start_inv_single split: option.splits)
    qed
  qed
qed

interpretation first_start: invariant_system "\<lambda>s. \<exists>port. s = NewServer port" server_step first_start_inv
proof
  show "\<exists>port. s = NewServer port \<Longrightarrow> first_start_inv s" for s
    by (auto simp: first_start_inv_def NewServer_def)
  show "first_start_inv s \<Longrightarrow> server_step s t \<Longrightarrow> first_start_inv t" for s t
    by (auto elim!: server_stepE intro: first_start_exec)
qed

section \<open>Properties\<close>

lemma serve_send_json:
  assumes "rs_status (sv_response s) = None" and "\<not> informational c"
  shows "rs_status (sv_response (snd (serve env (send_json c b m) s))) = Some c \<and> fst (serve env (send_json c b m) s) = None"
  using assms by (cases "en_write env b (sv_world s)")
    (auto simp: send_json_def net_WriteHeader_def net_Write_def Let_def)

lemma serve_error_status:
  assumes "rs_status (sv_response s) = None" and "\<not> informational c"
  shows "rs_status (sv_response (snd (serve env (http_Error m c) s))) = Some c \<and> fst (serve env (http_Error m c) s) = None"
  using assms by (cases "en_write env (m @ [CHR 0x0A]) (sv_world s)")
    (auto simp: http_Error_def net_WriteHeader_def net_Write_def Let_def)





text \<open>Three defects of the management servers. If the serving goroutine is scheduled more than 100 ms
  late, Start waits for ever although the server serves: nobody closes the channel. If listening fails after
  the check, Start returns nil. And after a failed Start a second one returns the old error at once,
  while its own server is about to serve.\<close>
theorem management_start_defects:
  "map_option (\<lambda>s. (ms_running s, ms_started s, map si_runner (ms_instances s), map si_timer (ms_instances s), server_run [SCaller 0] s = None))
     (server_run [SStart, STimer 0, STimer 0, SRun 0 None, SRun 0 None] (NewServer 80))
     = Some (True, False, [RunnerServing 0], [TimerOver], True) \<and>
   map_option (\<lambda>s. map si_caller (ms_instances s))
     (server_run [SStart, SRun 0 None, STimer 0, STimer 0, SCaller 0, SRun 0 (Some ''in use''), SRun 0 None] (NewServer 80))
     = Some [CallerReturned None] \<and>
   map_option (\<lambda>s. (ms_running s, map si_caller (ms_instances s), map si_runner (ms_instances s)))
     (server_run [SStart, SRun 0 None, SRun 0 (Some ''in use''), SRun 0 None, SRun 0 None, SCaller 0,
        SStart, SCaller 1, SRun 1 None, SRun 1 None] (NewServer 80))
     = Some (True, [CallerReturned (Some ''in use''), CallerReturned (Some ''in use'')], [RunnerOver, RunnerServing 1])"
  by code_simp

text \<open>When the context of the only Start ends while the server is marked as running, four steps of the
  goroutines end it: it is shut down, marked as not running, and its serving goroutine returns.\<close>

lemma context_end_stops_server:
  assumes "ms_instances s = [x]" and "si_runner x = RunnerServing 0" and "si_cancel x = CancelWait" and "ms_running s"
  shows "map_option (\<lambda>t. (ms_running t, map si_runner (ms_instances t)))
    (server_run [SCtxDone 0, SCancel 0, SCancel 0, SCancel 0, SRun 0 None] s) = Some (False, [RunnerOver])"
  using assms by (simp add: server_cancel_step_def server_runner_step_def upd_instance_def current_server_def)

text \<open>If it ends before the serving goroutine has marked the server as running, it is forgotten: the
  goroutine that waits for it returns, and the server serves.\<close>

theorem context_end_before_running_is_lost:
  "map_option (\<lambda>s. (ms_running s, map si_runner (ms_instances s), map si_cancel (ms_instances s)))
     (server_run [SStart, SCtxDone 0, SCancel 0, SRun 0 None, SRun 0 None] (NewServer 80))
     = Some (True, [RunnerServing 0], [CancelOver])"
  by code_simp

end
