(* ===== verification/SleepWiring.thy ===== *)
theory SleepWiring
  imports IdleTracker SleepClient SleepCoordinator HealthStore Validation
begin

text \<open>
  The part of \<open>cmd/smaug/main.go\<close> that connects idle tracking with sleep commands:
  \<open>initIdleTracker\<close>, \<open>initSleepCoordinator\<close> and the sender \<open>routeSleepSender\<close> that maps a route to the
  sleep client and the health of its server. Log messages are left out. The tracker, the clients and the
  coordinator are those of the theories IdleTracker, SleepClient and SleepCoordinator.
\<close>

section \<open>The idle tracker\<close>

definition defaultIdleCheckInterval :: duration where "defaultIdleCheckInterval = 60 * second"

text \<open>The test both loops make of a route: its server exists and has Sleep-on-LAN enabled.\<close>

definition sol_server :: "config \<Rightarrow> route \<Rightarrow> server option" where
  "sol_server cfg r =
     (case cfg_servers cfg (route_server r) of
        None \<Rightarrow> None
      | Some srv \<Rightarrow> if sol_enabled (srv_sleepOnLan srv) then Some srv else None)"

fun count_sol :: "config \<Rightarrow> route list \<Rightarrow> nat \<Rightarrow> nat" where
  "count_sol cfg [] solCount = solCount"
| "count_sol cfg (r # rs) solCount =
     count_sol cfg rs (case sol_server cfg r of Some srv \<Rightarrow> solCount + 1 | None \<Rightarrow> solCount)"

fun register_routes :: "config \<Rightarrow> route list \<Rightarrow> idle_tracker \<Rightarrow> idle_tracker" where
  "register_routes cfg [] t = t"
| "register_routes cfg (r # rs) t =
     (case sol_server cfg r of
        None \<Rightarrow> register_routes cfg rs t
      | Some srv \<Rightarrow> register_routes cfg rs (RegisterRoute (route_name r) (sol_idleTimeout (srv_sleepOnLan srv)) t))"

definition initIdleTracker :: "config \<Rightarrow> registry \<Rightarrow> idle_error + idle_tracker option" where
  "initIdleTracker cfg m =
     (if count_sol cfg (cfg_routes cfg) 0 = 0 then Inr None
      else (case NewIdleTracker defaultIdleCheckInterval True of
          Inl err \<Rightarrow> Inl err
        | Inr t \<Rightarrow> Inr (Some (register_routes cfg (cfg_routes cfg) (IdleTracker_SetMetrics m t)))))"

section \<open>The sender\<close>

text \<open>\<open>rss_healthStore\<close>: the sender has a health store, which is read at the time of a call.\<close>

record route_sleep_sender =
  rss_senders :: "string \<rightharpoonup> sleep_client"
  rss_serverIDs :: "string \<rightharpoonup> string"
  rss_healthStore :: bool

type_synonym 'w sleep_transport = "http_request \<Rightarrow> 'w \<Rightarrow> (string + int) \<times> 'w"

definition routeSleepSender_Sleep ::
  "'w sleep_transport \<Rightarrow> in_memory_store \<Rightarrow> route_sleep_sender \<Rightarrow> string \<Rightarrow> 'w \<Rightarrow> sleep_error option \<times> 'w" where
  "routeSleepSender_Sleep transport store r routeID w =
     (let skip = (case rss_serverIDs r routeID of
            Some serverID \<Rightarrow>
              if rss_healthStore r then (case store_Get store serverID of (status, found) \<Rightarrow> found \<and> \<not> st_healthy status)
              else False
          | None \<Rightarrow> False)
      in if skip then (None, w)
         else (case rss_senders r routeID of
             None \<Rightarrow> (None, w)
           | Some client \<Rightarrow> client_Sleep transport client w))"

section \<open>The sleep coordinator\<close>

datatype sleep_setup_error =
    SleepClientFailed string string sleep_error
  | SleepCoordinatorFailed sleep_coordinator_error

text \<open>The loop over the routes, which fills the two maps.\<close>

fun add_senders ::
  "config \<Rightarrow> route list \<Rightarrow> (string \<rightharpoonup> sleep_client) \<Rightarrow> (string \<rightharpoonup> string)
     \<Rightarrow> sleep_setup_error + (string \<rightharpoonup> sleep_client) \<times> (string \<rightharpoonup> string)" where
  "add_senders cfg [] senders serverIDs = Inr (senders, serverIDs)"
| "add_senders cfg (r # rs) senders serverIDs =
     (case sol_server cfg r of
        None \<Rightarrow> add_senders cfg rs senders serverIDs
      | Some srv \<Rightarrow>
          if sol_endpoint (srv_sleepOnLan srv) = [] then add_senders cfg rs senders serverIDs
          else
            (let clientCfg = (NewClientConfig (sol_endpoint (srv_sleepOnLan srv)))
                   \<lparr>scc_authToken := SecretString_Value (sol_authToken (srv_sleepOnLan srv))\<rparr>
             in (case sleep_NewClient clientCfg True of
                   Inl err \<Rightarrow> Inl (SleepClientFailed (route_name r) (route_server r) err)
                 | Inr client \<Rightarrow> add_senders cfg rs (senders(route_name r \<mapsto> client))
                     (serverIDs(route_name r \<mapsto> route_server r)))))"

definition initSleepCoordinator ::
  "config \<Rightarrow> idle_tracker option \<Rightarrow> bool \<Rightarrow> sleep_setup_error + (route_sleep_sender \<times> sleep_coordinator) option" where
  "initSleepCoordinator cfg idleTracker healthStore =
     (if idleTracker = None then Inr None
      else (case add_senders cfg (cfg_routes cfg) Map.empty Map.empty of
          Inl err \<Rightarrow> Inl err
        | Inr (senders, serverIDs) \<Rightarrow>
            if senders = Map.empty then Inr None
            else (case NewSleepCoordinator True True True of
                Inl err \<Rightarrow> Inl (SleepCoordinatorFailed err)
              | Inr coordinator \<Rightarrow>
                  Inr (Some (\<lparr>rss_senders = senders, rss_serverIDs = serverIDs, rss_healthStore = healthStore\<rparr>, coordinator)))))"

section \<open>The routes that are set up\<close>

definition sol_routes :: "config \<Rightarrow> route list" where
  "sol_routes cfg = filter (\<lambda>r. sol_server cfg r \<noteq> None) (cfg_routes cfg)"

definition sol_of :: "config \<Rightarrow> route \<Rightarrow> sleep_on_lan_config" where
  "sol_of cfg r = srv_sleepOnLan (the (sol_server cfg r))"

text \<open>The client of a route.\<close>

definition client_of :: "config \<Rightarrow> route \<Rightarrow> sleep_client" where
  "client_of cfg r = \<lparr>sc_endpoint = sol_endpoint (sol_of cfg r),
     sc_authToken = SecretString_Value (sol_authToken (sol_of cfg r)), sc_timeout = 10 * second\<rparr>"

definition loopback_endpoint :: "config \<Rightarrow> route \<Rightarrow> bool" where
  "loopback_endpoint cfg r \<longleftrightarrow> (case url_Parse (sol_endpoint (sol_of cfg r)) of Inl e \<Rightarrow> False
     | Inr u \<Rightarrow> isLoopbackOrLocalhost (url_Hostname u))"

lemma count_sol_eq: "count_sol cfg rs n = n + length (filter (\<lambda>r. sol_server cfg r \<noteq> None) rs)"
  by (induction cfg rs n rule: count_sol.induct) (auto split: option.splits)

lemma register_routes_timeouts:
  "map_option re_idleTimeout (it_routes (register_routes cfg rs t) k) =
     (case map_of (rev (map (\<lambda>r. (route_name r, sol_idleTimeout (sol_of cfg r))) (filter (\<lambda>r. sol_server cfg r \<noteq> None) rs))) k of
        Some d \<Rightarrow> Some d | None \<Rightarrow> map_option re_idleTimeout (it_routes t k))"
  by (induction cfg rs t rule: register_routes.induct)
    (auto simp: RegisterRoute_def sol_of_def map_add_def split: option.splits)

lemma register_routes_unseen:
  "(\<And>k e. it_routes t k = Some e \<Longrightarrow> re_lastSeen e = 0) \<Longrightarrow> it_routes (register_routes cfg rs t) k = Some e \<Longrightarrow> re_lastSeen e = 0"
  by (induction cfg rs t rule: register_routes.induct)
    (fastforce simp: RegisterRoute_def split: option.splits if_splits)+

lemma valid_endpoint:
  assumes "valid_config cfg" and "sol_server cfg r \<noteq> None"
  shows "valid_url (sol_endpoint (sol_of cfg r))"
proof -
  from assms(2) obtain srv where srv: "cfg_servers cfg (route_server r) = Some srv" "sol_enabled (srv_sleepOnLan srv)"
      "sol_server cfg r = Some srv"
    by (auto simp: sol_server_def split: option.splits if_splits)
  from srv(1) assms(1) have "valid_server srv" by (auto simp: valid_config_def ran_def)
  with srv show ?thesis by (simp add: valid_server_def sol_of_def)
qed

lemma client_for_valid:
  assumes "valid_url (sol_endpoint (sol_of cfg r))"
  shows "sleep_NewClient ((NewClientConfig (sol_endpoint (sol_of cfg r)))
            \<lparr>scc_authToken := SecretString_Value (sol_authToken (sol_of cfg r))\<rparr>) True
     = (if loopback_endpoint cfg r then Inl ErrSSRFAttempt else Inr (client_of cfg r))"
proof -
  from assms obtain u where u: "url_Parse (sol_endpoint (sol_of cfg r)) = Inr u" "url_scheme u \<in> {''http'', ''https''}"
      "sol_endpoint (sol_of cfg r) \<noteq> []"
    by (auto simp: valid_url_def split: sum.splits)
  moreover have "map to_lower (url_scheme u) = url_scheme u"
    using u(2) by (auto simp: to_lower_def char_class_defs)
  ultimately show ?thesis
    by (auto simp: sleep_NewClient_def validateConfig_def validateEndpoint_def Let_def NewClientConfig_def
        loopback_endpoint_def client_of_def second_def)
qed

lemma map_add_single: "S ++ (\<lambda>x. if x = k then Some v else None) = (\<lambda>a. if a = k then Some v else S a)"
  by (auto simp: map_add_def fun_eq_iff)

lemma add_senders_valid:
  assumes "list_all (\<lambda>r. sol_server cfg r \<noteq> None \<longrightarrow> valid_url (sol_endpoint (sol_of cfg r))) rs"
  shows "add_senders cfg rs S I =
     (case find (\<lambda>r. sol_server cfg r \<noteq> None \<and> loopback_endpoint cfg r) rs of
        Some r \<Rightarrow> Inl (SleepClientFailed (route_name r) (route_server r) ErrSSRFAttempt)
      | None \<Rightarrow> Inr (S ++ map_of (rev (map (\<lambda>r. (route_name r, client_of cfg r)) (filter (\<lambda>r. sol_server cfg r \<noteq> None) rs))),
                    I ++ map_of (rev (map (\<lambda>r. (route_name r, route_server r)) (filter (\<lambda>r. sol_server cfg r \<noteq> None) rs)))))"
  using assms
proof (induction rs arbitrary: S I)
  case Nil
  then show ?case by simp
next
  case (Cons r rs)
  show ?case
  proof (cases "sol_server cfg r")
    case None
    with Cons show ?thesis by (simp cong: option.case_cong)
  next
    case (Some srv)
    then have sol: "sol_of cfg r = srv_sleepOnLan srv" by (simp add: sol_of_def)
    from Cons.prems Some have v: "valid_url (sol_endpoint (sol_of cfg r))" by simp
    then have ne: "sol_endpoint (srv_sleepOnLan srv) \<noteq> []" by (simp add: valid_url_def sol)
    from Cons.prems have vs: "list_all (\<lambda>r. sol_server cfg r \<noteq> None \<longrightarrow> valid_url (sol_endpoint (sol_of cfg r))) rs" by simp
    note step = client_for_valid [OF v, unfolded sol]
    show ?thesis
    proof (cases "loopback_endpoint cfg r")
      case True
      with Some ne step show ?thesis by (simp add: Let_def)
    next
      case False
      with Some ne step Cons.IH [OF vs] show ?thesis by (simp add: Let_def fun_upd_def map_add_single cong: option.case_cong)
    qed
  qed
qed

lemma initIdleTracker_eq:
  "initIdleTracker cfg m = Inr (if sol_routes cfg = [] then None
     else Some (register_routes cfg (cfg_routes cfg) (IdleTracker_SetMetrics m
       \<lparr>it_checkInterval = defaultIdleCheckInterval, it_metrics = None, it_routes = Map.empty,
        it_sleepCh = make_chan sleepTriggerBufSize, it_running = False, it_cycle = 0,
        it_checkers = [], it_delivered = [], it_log = []\<rparr>)))"
  by (simp add: initIdleTracker_def count_sol_eq sol_routes_def NewIdleTracker_def defaultIdleCheckInterval_def second_def)

lemma find_sol:
  "find (\<lambda>r. sol_server cfg r \<noteq> None \<and> P r) rs = find P (filter (\<lambda>r. sol_server cfg r \<noteq> None) rs)"
  by (induction rs) auto

text \<open>For a valid configuration the result of the set-up depends on the loopback check alone.\<close>

definition sender_for :: "config \<Rightarrow> bool \<Rightarrow> route_sleep_sender" where
  "sender_for cfg healthStore =
     \<lparr>rss_senders = map_of (rev (map (\<lambda>r. (route_name r, client_of cfg r)) (sol_routes cfg))),
      rss_serverIDs = map_of (rev (map (\<lambda>r. (route_name r, route_server r)) (sol_routes cfg))),
      rss_healthStore = healthStore\<rparr>"

lemma initSleepCoordinator_valid:
  assumes "valid_config cfg" and "initIdleTracker cfg m = Inr t"
  shows "initSleepCoordinator cfg t hs =
     (case find (loopback_endpoint cfg) (sol_routes cfg) of
        Some r \<Rightarrow> Inl (SleepClientFailed (route_name r) (route_server r) ErrSSRFAttempt)
      | None \<Rightarrow> Inr (if sol_routes cfg = [] then None
                     else Some (sender_for cfg hs, \<lparr>sco_running = False, sco_cycle = 0, sco_loops = []\<rparr>)))"
proof -
  have valid: "list_all (\<lambda>r. sol_server cfg r \<noteq> None \<longrightarrow> valid_url (sol_endpoint (sol_of cfg r))) (cfg_routes cfg)"
    using valid_endpoint [OF assms(1)] by (auto simp: list_all_iff)
  have none: "map_of (rev (map (\<lambda>r. (route_name r, client_of cfg r)) rs)) = Map.empty \<longleftrightarrow> rs = []" for rs
    by (cases rs rule: rev_cases) (auto simp: fun_eq_iff)
  from assms(2) have t: "t = None \<longleftrightarrow> sol_routes cfg = []" by (auto simp: initIdleTracker_eq split: if_splits)
  note add = add_senders_valid [OF valid, unfolded find_sol, folded sol_routes_def]
  show ?thesis
    using t by (auto simp: initSleepCoordinator_def add none NewSleepCoordinator_def sender_for_def split: option.split)
qed

section \<open>Properties\<close>

text \<open>C17. For a valid configuration, setting up Sleep-on-LAN fails exactly when the endpoint of some enabled
  route is a loopback address, which validation accepts. Otherwise the tracker and the sleep sender know the
  same routes, those whose server has Sleep-on-LAN enabled: the tracker with the idle timeout, the sender with
  the endpoint, the token and the server of the last route of each name.\<close>
theorem sleep_setup_for_valid_config:
  assumes "valid_config cfg"
  shows "case initIdleTracker cfg m of Inl e \<Rightarrow> False | Inr t \<Rightarrow>
    (t = None \<longleftrightarrow> sol_routes cfg = []) \<and>
    (case initSleepCoordinator cfg t True of
       Inl e \<Rightarrow> \<exists>r \<in> set (sol_routes cfg). loopback_endpoint cfg r \<and>
         e = SleepClientFailed (route_name r) (route_server r) ErrSSRFAttempt
     | Inr None \<Rightarrow> t = None
     | Inr (Some (sender, c)) \<Rightarrow>
         list_all (\<lambda>r. \<not> loopback_endpoint cfg r) (sol_routes cfg) \<and>
         (\<forall>k. rss_senders sender k = map_of (rev (map (\<lambda>r. (route_name r, client_of cfg r)) (sol_routes cfg))) k \<and>
              rss_serverIDs sender k = map_of (rev (map (\<lambda>r. (route_name r, route_server r)) (sol_routes cfg))) k \<and>
              map_option re_idleTimeout (it_routes (the t) k) =
                map_of (rev (map (\<lambda>r. (route_name r, sol_idleTimeout (sol_of cfg r))) (sol_routes cfg))) k))"
proof -
  obtain t where t: "initIdleTracker cfg m = Inr t" by (simp add: initIdleTracker_eq)
  then have none: "t = None \<longleftrightarrow> sol_routes cfg = []" by (auto simp: initIdleTracker_eq split: if_splits)
  have times: "map_option re_idleTimeout (it_routes (the t) k) =
      map_of (rev (map (\<lambda>r. (route_name r, sol_idleTimeout (sol_of cfg r))) (sol_routes cfg))) k"
    if "sol_routes cfg \<noteq> []" for k
    using t that by (auto simp: initIdleTracker_eq register_routes_timeouts [of cfg "cfg_routes cfg", folded sol_routes_def]
        IdleTracker_SetMetrics_def split: option.split)
  show ?thesis
  proof (cases "find (loopback_endpoint cfg) (sol_routes cfg)")
    case (Some r)
    then have "r \<in> set (sol_routes cfg)" "loopback_endpoint cfg r" by (auto simp: find_Some_iff)
    with Some show ?thesis by (auto simp: t none initSleepCoordinator_valid [OF assms t])
  next
    case None
    then have "list_all (\<lambda>r. \<not> loopback_endpoint cfg r) (sol_routes cfg)" by (auto simp: find_None_iff list_all_iff)
    with None times show ?thesis by (auto simp: t none initSleepCoordinator_valid [OF assms t] sender_for_def)
  qed
qed

lemma sleep_setup_for_valid_config_witness:
  "case initIdleTracker sample_config None of Inl e \<Rightarrow> False | Inr t \<Rightarrow> t = None \<longleftrightarrow> sol_routes sample_config = []"
proof -
  have "range_order [''nas''] (cfg_servers sample_config)"
    by (simp add: range_order_def sample_config_def)
  moreover have "config_Validate [''nas''] sample_config = None" by code_simp
  ultimately have "valid_config sample_config" by (simp add: config_Validate_eq all_errors_nil_iff split: if_splits)
  from sleep_setup_for_valid_config [OF this, of None] show ?thesis by (auto split: sum.splits)
qed

text \<open>The server of a route is known to be offline.\<close>

definition known_offline :: "in_memory_store \<Rightarrow> route_sleep_sender \<Rightarrow> string \<Rightarrow> bool" where
  "known_offline store r routeID \<longleftrightarrow> (case rss_serverIDs r routeID of None \<Rightarrow> False
     | Some serverID \<Rightarrow> rss_healthStore r \<and> snd (store_Get store serverID) \<and> \<not> ims.reports_healthy store serverID)"

lemma routeSleepSender_Sleep_eq:
  "routeSleepSender_Sleep transport store r routeID w =
     (if known_offline store r routeID then (None, w)
      else case rss_senders r routeID of None \<Rightarrow> (None, w) | Some client \<Rightarrow> client_Sleep transport client w)"
  by (auto simp: routeSleepSender_Sleep_def known_offline_def ims.reports_healthy_def split: option.splits prod.splits)

text \<open>A transport that keeps the requests it carries.\<close>

definition recording :: "'w sleep_transport \<Rightarrow> (http_request list \<times> 'w) sleep_transport" where
  "recording transport req = (\<lambda>(sent, w). case transport req w of (a, w') \<Rightarrow> (a, (sent @ [req], w')))"

definition sleep_requests :: "config \<Rightarrow> in_memory_store \<Rightarrow> string \<Rightarrow> http_request list" where
  "sleep_requests cfg store k =
     (case map_of (rev (map (\<lambda>r. (route_name r, r)) (sol_routes cfg))) k of
        None \<Rightarrow> []
      | Some r \<Rightarrow>
          if snd (store_Get store (route_server r)) \<and> \<not> ims.reports_healthy store (route_server r) then []
          else [\<lparr>req_method = ''GET'', req_url = sol_endpoint (sol_of cfg r),
                 req_headers = (let token = SecretString_Value (sol_authToken (sol_of cfg r))
                   in if token = [] then [] else [(''Authorization'', ''Basic '' @ token)])\<rparr>])"

lemma map_of_rev_map: "map_of (rev (map (\<lambda>r. (f r, g r)) rs)) k = map_option g (map_of (rev (map (\<lambda>r. (f r, r)) rs)) k)"
  by (induction rs) (auto simp: map_add_def split: option.splits)

lemma client_request:
  assumes "valid_config cfg" and "sol_server cfg r \<noteq> None"
  shows "fst (snd (client_Sleep (recording transport) (client_of cfg r) (sent, w))) = sent @
    [\<lparr>req_method = ''GET'', req_url = sol_endpoint (sol_of cfg r),
      req_headers = (let token = SecretString_Value (sol_authToken (sol_of cfg r))
        in if token = [] then [] else [(''Authorization'', ''Basic '' @ token)])\<rparr>]"
proof -
  from valid_endpoint [OF assms] obtain u where "url_Parse (sol_endpoint (sol_of cfg r)) = Inr u"
    by (auto simp: valid_url_def split: sum.splits)
  then show ?thesis
    by (simp add: client_Sleep_def client_of_def sleep_request_def recording_def Let_def split: prod.split sum.split)
qed

text \<open>In a program set up from a valid configuration, a sleep trigger of a Sleep-on-LAN route sends exactly one
  request to the endpoint of its server, with its token, unless the health store knows that the server is
  offline; a trigger of any other route sends nothing. No trigger is skipped or sent twice, whatever the
  endpoints answer.\<close>

lemma runLoop_requests:
  assumes "valid_config cfg" and "initIdleTracker cfg m = Inr t" and "initSleepCoordinator cfg t True = Inr (Some (sender, c))"
  shows "fst (fst (sleep_runLoop (routeSleepSender_Sleep (recording transport) store sender) evs (sent, w)))
     = sent @ concat (map (sleep_requests cfg store) (handled evs))"
proof -
  from assms(3) have sender: "sender = sender_for cfg True"
    by (auto simp: initSleepCoordinator_valid [OF assms(1,2)] split: option.splits if_splits)
  have one: "fst (snd (routeSleepSender_Sleep (recording transport) store sender k (sent, w))) = sent @ sleep_requests cfg store k"
    for k sent w
  proof (cases "map_of (rev (map (\<lambda>r. (route_name r, r)) (sol_routes cfg))) k")
    case None
    then show ?thesis
      by (simp add: routeSleepSender_Sleep_eq sender sender_for_def map_of_rev_map [of _ "client_of cfg"] sleep_requests_def)
  next
    case (Some r)
    then have "r \<in> set (sol_routes cfg)" by (auto dest: map_of_SomeD)
    then have "sol_server cfg r \<noteq> None" by (simp add: sol_routes_def)
    with Some show ?thesis
      by (auto simp: routeSleepSender_Sleep_eq sender sender_for_def map_of_rev_map [of _ "client_of cfg"]
          map_of_rev_map [of _ route_server] sleep_requests_def known_offline_def client_request [OF assms(1)])
  qed
  have "fst (fold (\<lambda>k w. snd (routeSleepSender_Sleep (recording transport) store sender k w)) ks (sent, w))
      = sent @ concat (map (sleep_requests cfg store) ks)" for ks sent w
  proof (induction ks arbitrary: sent w)
    case Nil
    then show ?case by simp
  next
    case (Cons k ks)
    obtain sent' w' where s: "snd (routeSleepSender_Sleep (recording transport) store sender k (sent, w)) = (sent', w')" by fastforce
    with one [of k sent w] have "sent' = sent @ sleep_requests cfg store k" by simp
    with s show ?case by (simp add: Cons)
  qed
  then show ?thesis by (simp add: sleep_runLoop_eq)
qed

text \<open>Two routes to one server that is to sleep after five minutes.\<close>

definition shared_config :: config where
  "shared_config =
     \<lparr>cfg_settings = zero_settings,
      cfg_servers = [''nas'' \<mapsto> zero_server\<lparr>srv_sleepOnLan := zero_sol\<lparr>sol_enabled := True, sol_endpoint := ''http://nas/s'',
         sol_idleTimeout := 300 * second\<rparr>\<rparr>],
      cfg_routes =
        [\<lparr>route_name = ''a'', route_listen = 80, route_upstream = ''http://nas'', route_server = ''nas''\<rparr>,
         \<lparr>route_name = ''b'', route_listen = 81, route_upstream = ''http://nas'', route_server = ''nas''\<rparr>]\<rparr>"

definition shared_tracker :: idle_tracker where
  "shared_tracker =
     \<lparr>it_checkInterval = defaultIdleCheckInterval, it_metrics = None,
      it_routes = [''a'' \<mapsto> \<lparr>re_idleTimeout = 300 * second, re_lastSeen = 0\<rparr>, ''b'' \<mapsto> \<lparr>re_idleTimeout = 300 * second, re_lastSeen = 0\<rparr>],
      it_sleepCh = make_chan sleepTriggerBufSize, it_running = False, it_cycle = 0,
      it_checkers = [], it_delivered = [], it_log = []\<rparr>"

lemma shared_valid: "valid_config shared_config"
proof -
  have "range_order [''nas''] (cfg_servers shared_config)"
    by (simp add: range_order_def shared_config_def)
  moreover have "config_Validate [''nas''] shared_config = None" by code_simp
  ultimately show ?thesis by (simp add: config_Validate_eq all_errors_nil_iff split: if_splits)
qed

lemma shared_sol:
  "sol_server shared_config \<lparr>route_name = n, route_listen = p, route_upstream = u, route_server = ''nas''\<rparr> =
     Some (zero_server\<lparr>srv_sleepOnLan := zero_sol\<lparr>sol_enabled := True, sol_endpoint := ''http://nas/s'', sol_idleTimeout := 300 * second\<rparr>\<rparr>)"
  by (simp add: sol_server_def shared_config_def)

lemma shared_routes: "cfg_routes shared_config =
    [\<lparr>route_name = ''a'', route_listen = 80, route_upstream = ''http://nas'', route_server = ''nas''\<rparr>,
     \<lparr>route_name = ''b'', route_listen = 81, route_upstream = ''http://nas'', route_server = ''nas''\<rparr>]"
  by (simp add: shared_config_def)

lemma shared_setup: "initIdleTracker shared_config None = Inr (Some shared_tracker)"
  by (simp add: initIdleTracker_eq sol_routes_def shared_routes shared_sol RegisterRoute_def IdleTracker_SetMetrics_def
      shared_tracker_def)

lemma shared_coordinator:
  "initSleepCoordinator shared_config (Some shared_tracker) True =
     Inr (Some (sender_for shared_config True, \<lparr>sco_running = False, sco_cycle = 0, sco_loops = []\<rparr>))"
proof -
  have "\<not> loopback_endpoint shared_config \<lparr>route_name = n, route_listen = p, route_upstream = u, route_server = ''nas''\<rparr>" for n p u
    unfolding loopback_endpoint_def sol_of_def shared_sol by code_simp
  then show ?thesis
    by (simp add: initSleepCoordinator_valid [OF shared_valid shared_setup] sol_routes_def shared_routes shared_sol)
qed

definition nas_healthy :: in_memory_store where
  "nas_healthy = store_Update NewInMemoryHealthStore ''nas'' (zero_status\<lparr>st_serverID := ''nas'', st_healthy := True\<rparr>)"

lemma shared_requests:
  "sleep_requests shared_config nas_healthy k =
     (if k \<in> {''a'', ''b''} then [\<lparr>req_method = ''GET'', req_url = ''http://nas/s'', req_headers = []\<rparr>] else [])"
  by (simp add: sleep_requests_def sol_routes_def shared_routes shared_sol sol_of_def nas_healthy_def store_Get_def
      store_Update_def NewInMemoryHealthStore_def ims.reports_healthy_def zero_sol_def zero_secret_def SecretString_Value_def)

text \<open>A server is put to sleep while it is in use. Two routes lead to one healthy server whose idle timeout is
  five minutes; one route has seen a request just now, the other none since the start. The first check, a minute
  after the start, triggers the other route, and the coordinator sends the sleep command to the server they share:
  idle times are kept per route, and a route never used counts as idle for ever.\<close>
theorem busy_server_is_put_to_sleep:
  "case initIdleTracker shared_config None of
     Inr (Some t) \<Rightarrow>
       (case initSleepCoordinator shared_config (Some t) True of
          Inr (Some (sender, c)) \<Rightarrow>
            emitted (checkIdleRoutes (60 * second) [Visit ''a'', Visit ''b''] (RecordActivity (60 * second) ''b'' t)) = [''a''] \<and>
            fst (fst (sleep_runLoop (routeSleepSender_Sleep (recording (\<lambda>req w. (Inr 200, w))) nas_healthy sender)
                [LoopTrigger ''a''] ([], ()))) = [\<lparr>req_method = ''GET'', req_url = ''http://nas/s'', req_headers = []\<rparr>]
        | _ \<Rightarrow> False)
   | _ \<Rightarrow> False"
proof -
  have "emitted (checkIdleRoutes (60 * second) [Visit ''a'', Visit ''b''] (RecordActivity (60 * second) ''b'' shared_tracker)) = [''a'']"
    by (simp add: visit_route_def RecordActivity_def shared_tracker_def computeIdleTime_def idleNeverSeen_def
        max_int64_def second_def sleepTriggerBufSize_def emitted_def go_time try_send_def)
  then show ?thesis
    using runLoop_requests [OF shared_valid shared_setup shared_coordinator, of "\<lambda>req w. (Inr 200, w)" nas_healthy
      "[LoopTrigger ''a'']" "[]" "()"]
    by (simp add: shared_setup shared_coordinator handled_def shared_requests)
qed

end
