(* ===== verification/SleepService.thy ===== *)
theory SleepService imports SleepWiring begin

text \<open>
  From idle routes to sleep commands: the idle tracker, the sleep coordinator and the sleep sender
  (\<open>internal/proxy/idle_tracker.go\<close>, \<open>internal/proxy/sleep_coordinator.go\<close>, \<open>cmd/smaug/main.go\<close>) as \<open>main\<close> sets
  them up from a configuration. The theorem says which requests one check of the tracker leads to, after
  any history of the tracker.
\<close>

section \<open>What the history of a tracker keeps\<close>

definition timeout_of :: "idle_tracker \<Rightarrow> string \<Rightarrow> duration" where
  "timeout_of t k = (case it_routes t k of None \<Rightarrow> 0 | Some e \<Rightarrow> re_idleTimeout e)"

text \<open>Routes are registered by the set-up only.\<close>

fun no_registration :: "idle_event \<Rightarrow> bool" where
  "no_registration (EvRegister r d) \<longleftrightarrow> False"
| "no_registration _ \<longleftrightarrow> True"

definition same_settings :: "idle_tracker \<Rightarrow> idle_tracker \<Rightarrow> bool" where
  "same_settings t t' \<longleftrightarrow> timeout_of t' = timeout_of t \<and> ch_cap (it_sleepCh t') = ch_cap (it_sleepCh t)"

lemma same_settings_refl [simp]: "same_settings t t"
  by (simp add: same_settings_def)

lemma same_settings_trans: "same_settings t u \<Longrightarrow> same_settings u v \<Longrightarrow> same_settings t v"
  by (simp add: same_settings_def)

lemma take_same: "same_settings t (take_trigger t)"
proof (cases "try_recv (it_sleepCh t)")
  case None
  then show ?thesis by (simp add: take_trigger_def)
next
  case (Some p)
  then obtain r ch where p: "try_recv (it_sleepCh t) = Some (r, ch)" by (cases p) simp
  from chan.recv_SomeD(2) [OF p] show ?thesis
    by (simp add: take_trigger_def p same_settings_def timeout_of_def fun_eq_iff)
qed

lemma visit_same: "same_settings t (visit_route now r t)"
proof (cases "due now r t \<and> has_room t")
  case False
  from visit_route_skip [OF this] show ?thesis by simp
next
  case True
  then obtain e where e: "it_routes t r = Some e" and
    v: "visit_route now r t = t\<lparr>it_sleepCh := (it_sleepCh t)\<lparr>ch_buf := ch_buf (it_sleepCh t) @ [r]\<rparr>,
        it_routes := (it_routes t)(r \<mapsto> e\<lparr>re_lastSeen := now\<rparr>),
        it_metrics := RecordSleepTriggered r (it_metrics t),
        it_log := it_log t @ [Fired r now (re_idleTimeout e)]\<rparr>"
    by (blast elim: visit_route_fire)
  show ?thesis unfolding v same_settings_def by (simp add: timeout_of_def fun_eq_iff e)
qed

lemma check_same: "same_settings t (checkIdleRoutes now steps t)"
proof (induction steps arbitrary: t)
  case Nil
  then show ?case by (simp add: checkIdleRoutes_def)
next
  case (Cons s steps)
  have "same_settings t (exec_check_step now s t)" using take_same visit_same by (cases s) simp_all
  moreover have "checkIdleRoutes now (s # steps) t = checkIdleRoutes now steps (exec_check_step now s t)"
    by (simp add: checkIdleRoutes_def)
  ultimately show ?case using Cons same_settings_trans by metis
qed

lemma exec_same: "no_registration ev \<Longrightarrow> same_settings t (idle_exec now ev t)"
proof (cases ev)
  case (EvActivity r)
  then show ?thesis
    by (auto simp: RecordActivity_def same_settings_def timeout_of_def fun_eq_iff Let_def split: option.split)
next
  case (EvChecker c steps)
  then show ?thesis using check_same by (simp add: runChecker_iter_def)
next
  case EvTake
  then show ?thesis using take_same by simp
qed (auto simp: IdleTracker_SetMetrics_def runChecker_iter_def IdleTracker_Start_def IdleTracker_Stop_def
    same_settings_def timeout_of_def)

lemma run_same: "list_all (\<lambda>(now, ev). no_registration ev) evs \<Longrightarrow> same_settings t (idle_run evs t)"
proof (induction evs arbitrary: t)
  case Nil
  then show ?case by (simp add: idle_run_def)
next
  case (Cons e evs)
  obtain now ev where e: "e = (now, ev)" by (cases e)
  have "same_settings t (idle_exec now ev t)" using Cons.prems e by (simp add: exec_same)
  moreover have "same_settings (idle_exec now ev t) (idle_run evs (idle_exec now ev t))" using Cons by simp
  moreover have "idle_run (e # evs) t = idle_run evs (idle_exec now ev t)" by (simp add: idle_run_def e)
  ultimately show ?case using same_settings_trans by metis
qed

section \<open>Routes that are due\<close>

text \<open>The idle timeout the configuration gives a route, by name; the last route of a name counts.\<close>

definition sol_timeout :: "config \<Rightarrow> string \<Rightarrow> duration" where
  "sol_timeout cfg k =
     (case map_of (rev (map (\<lambda>r. (route_name r, r)) (sol_routes cfg))) k of
        None \<Rightarrow> 0
      | Some r \<Rightarrow> sol_idleTimeout (sol_of cfg r))"

lemma timeout_of_setup:
  assumes "initIdleTracker cfg m = Inr (Some t)"
  shows "timeout_of t = sol_timeout cfg" and "ch_cap (it_sleepCh t) = sleepTriggerBufSize"
proof -
  let ?t0 = "IdleTracker_SetMetrics m \<lparr>it_checkInterval = defaultIdleCheckInterval, it_metrics = None, it_routes = Map.empty,
        it_sleepCh = make_chan sleepTriggerBufSize, it_running = False, it_cycle = 0,
        it_checkers = [], it_delivered = [], it_log = []\<rparr>"
  have t: "t = register_routes cfg (cfg_routes cfg) ?t0"
    using assms by (simp add: initIdleTracker_eq split: if_splits)
  have "map_option re_idleTimeout (it_routes t k) =
      map_option (\<lambda>r. sol_idleTimeout (sol_of cfg r)) (map_of (rev (map (\<lambda>r. (route_name r, r)) (sol_routes cfg))) k)" for k
    unfolding t register_routes_timeouts [of cfg "cfg_routes cfg", folded sol_routes_def]
      map_of_rev_map [of _ "\<lambda>r. sol_idleTimeout (sol_of cfg r)"]
    by (simp add: IdleTracker_SetMetrics_def split: option.split)
  note key = this
  have "timeout_of t k = sol_timeout cfg k" for k
    using key [of k] by (cases "it_routes t k"; cases "map_of (rev (map (\<lambda>r. (route_name r, r)) (sol_routes cfg))) k")
      (simp_all add: timeout_of_def sol_timeout_def)
  then show "timeout_of t = sol_timeout cfg" by (rule ext)
  have "it_sleepCh (register_routes cfg rs t') = it_sleepCh t'" for rs t'
    by (induction cfg rs t' rule: register_routes.induct) (auto simp: RegisterRoute_def split: option.splits)
  then show "ch_cap (it_sleepCh t) = sleepTriggerBufSize"
    by (simp add: t IdleTracker_SetMetrics_def make_chan_def)
qed

lemma due_timeout: "due now k t \<longleftrightarrow> 0 < timeout_of t k \<and> timeout_of t k \<le> IdleTime now k t"
  by (simp add: due_def timeout_of_def IdleTime_def split: option.split)

lemma check_requests:
  assumes "range_order (visited steps) (it_routes t)"
    and "length (ch_buf (it_sleepCh t)) + card (dom (it_routes t)) \<le> ch_cap (it_sleepCh t)"
  shows "\<exists>ids. emitted (checkIdleRoutes now steps t) = emitted t @ ids \<and> distinct ids \<and> (\<forall>k. k \<in> set ids \<longleftrightarrow> due now k t)"
proof -
  have dist: "distinct (visited steps)" and dom: "set (visited steps) = dom (it_routes t)"
    using assms by (auto simp: range_order_def)
  then have "length (visited steps) = card (dom (it_routes t))" by (metis distinct_card)
  with checkIdleRoutes_all [OF dist, of t now] assms(2)
  have "emitted (checkIdleRoutes now steps t) = emitted t @ filter (\<lambda>r. due now r t) (visited steps)" by simp
  moreover have "k \<in> set (visited steps)" if "due now k t" for k using due_someD [OF that] dom by auto
  ultimately show ?thesis using dist by (intro exI [of _ "filter (\<lambda>r. due now r t) (visited steps)"]) auto
qed

lemma distinct_singleton: "distinct xs \<Longrightarrow> set xs = {x} \<Longrightarrow> xs = [x]"
  using distinct_card [of xs] by (cases xs; cases "tl xs") auto

section \<open>Properties\<close>

text \<open>C3. Idle servers are put to sleep. In a program set up from a valid configuration, whatever happened to the
  tracker before, a check with room in the channel and the coordinator that handles its triggers send one
  request per route whose idle time has reached the idle timeout of its server, to the endpoint of that
  server, unless the health store knows the server to be offline, and nothing else.\<close>

theorem idle_servers_are_put_to_sleep:
  assumes "valid_config cfg" and "initIdleTracker cfg m = Inr (Some t)"
    and "initSleepCoordinator cfg (Some t) True = Inr (Some (sender, c))"
    and "list_all (\<lambda>(s, ev). no_registration ev) history" and "t' = idle_run history t"
    and "range_order (visited steps) (it_routes t')"
    and "length (ch_buf (it_sleepCh t')) + card (dom (it_routes t')) \<le> sleepTriggerBufSize"
    and "handled evs = drop (length (emitted t')) (emitted (checkIdleRoutes now steps t'))"
  shows "\<exists>ids. distinct ids \<and> (\<forall>k. k \<in> set ids \<longleftrightarrow> 0 < sol_timeout cfg k \<and> sol_timeout cfg k \<le> IdleTime now k t') \<and>
    fst (fst (sleep_runLoop (routeSleepSender_Sleep (recording transport) store sender) evs (sent, w))) =
      sent @ concat (map (sleep_requests cfg store) ids)"
proof -
  have same: "timeout_of t' = sol_timeout cfg" "ch_cap (it_sleepCh t') = sleepTriggerBufSize"
    using run_same [OF assms(4), of t] timeout_of_setup [OF assms(2)] by (simp_all add: assms(5) same_settings_def)
  with assms(7) have "length (ch_buf (it_sleepCh t')) + card (dom (it_routes t')) \<le> ch_cap (it_sleepCh t')" by simp
  from check_requests [OF assms(6) this] obtain ids where
    ids: "emitted (checkIdleRoutes now steps t') = emitted t' @ ids" "distinct ids" "\<forall>k. k \<in> set ids \<longleftrightarrow> due now k t'" by blast
  with assms(8) have "handled evs = ids" by simp
  then have "fst (fst (sleep_runLoop (routeSleepSender_Sleep (recording transport) store sender) evs (sent, w))) =
      sent @ concat (map (sleep_requests cfg store) ids)"
    using runLoop_requests [OF assms(1,2,3), of transport store evs sent w] by simp
  moreover have "\<forall>k. k \<in> set ids \<longleftrightarrow> 0 < sol_timeout cfg k \<and> sol_timeout cfg k \<le> IdleTime now k t'"
    using ids(3) by (simp add: due_timeout same(1))
  ultimately show ?thesis using ids(2) by blast
qed

text \<open>The tracker of the example after a request to route b: at this moment only route a is due.\<close>

lemma idle_servers_are_put_to_sleep_witness:
  "fst (fst (sleep_runLoop (routeSleepSender_Sleep (recording (\<lambda>req w. (Inr 200, w))) nas_healthy (sender_for shared_config True))
     [LoopTrigger ''a''] ([], ()))) = [\<lparr>req_method = ''GET'', req_url = ''http://nas/s'', req_headers = []\<rparr>] \<and>
   sol_timeout shared_config ''a'' = 300 * second"
proof -
  let ?h = "[(60 * second, EvActivity ''b'')]" and ?t = "RecordActivity (60 * second) ''b'' shared_tracker"
    and ?steps = "[Visit ''a'', Visit ''b'']"
  have t: "idle_run ?h shared_tracker = ?t" by (simp add: idle_run_def)
  have dom: "dom (it_routes ?t) = {''a'', ''b''}"
    by (auto simp: RecordActivity_def shared_tracker_def Let_def)
  have order: "range_order (visited ?steps) (it_routes ?t)"
    unfolding range_order_def dom by (simp add: visited_def)
  have buf: "ch_buf (it_sleepCh ?t) = []" "emitted ?t = []"
    by (simp_all add: RecordActivity_def shared_tracker_def make_chan_def emitted_def Let_def)
  have em: "emitted (checkIdleRoutes (60 * second) ?steps ?t) = [''a'']"
    by (simp add: visit_route_def RecordActivity_def shared_tracker_def computeIdleTime_def idleNeverSeen_def
        max_int64_def second_def sleepTriggerBufSize_def emitted_def go_time try_send_def)
  have handled: "handled [LoopTrigger ''a''] = drop (length (emitted ?t)) (emitted (checkIdleRoutes (60 * second) ?steps ?t))"
    unfolding em buf by (simp add: handled_def)
  have room: "length (ch_buf (it_sleepCh ?t)) + card (dom (it_routes ?t)) \<le> sleepTriggerBufSize"
    by (simp add: dom buf sleepTriggerBufSize_def)
  from idle_servers_are_put_to_sleep [OF shared_valid shared_setup shared_coordinator _ t [symmetric] order room handled,
      of "\<lambda>req w. (Inr 200, w)" nas_healthy "[]" "()"]
  obtain ids where ids: "distinct ids"
    "\<forall>k. k \<in> set ids \<longleftrightarrow> 0 < sol_timeout shared_config k \<and> sol_timeout shared_config k \<le> IdleTime (60 * second) k ?t"
    "fst (fst (sleep_runLoop (routeSleepSender_Sleep (recording (\<lambda>req w. (Inr 200, w))) nas_healthy (sender_for shared_config True))
       [LoopTrigger ''a''] ([], ()))) = concat (map (sleep_requests shared_config nas_healthy) ids)"
    by auto
  have timeout: "sol_timeout shared_config k = (if k \<in> {''a'', ''b''} then 300 * second else 0)" for k
    by (simp add: sol_timeout_def sol_routes_def shared_routes shared_sol sol_of_def)
  have "IdleTime (60 * second) ''a'' ?t \<ge> 300 * second" "\<not> IdleTime (60 * second) ''b'' ?t \<ge> 300 * second"
    by (simp_all add: IdleTime_def RecordActivity_def shared_tracker_def computeIdleTime_def idleNeverSeen_def go_time
        max_int64_def second_def Let_def)
  then have "k \<in> set ids \<longleftrightarrow> k = ''a''" for k
    using ids(2) timeout [of k] by (auto simp: second_def)
  then have "set ids = {''a''}" by blast
  with ids(1) have "ids = [''a'']" by (rule distinct_singleton)
  with ids(3) show ?thesis by (simp add: shared_requests timeout)
qed

end
