(* ===== verification/App.thy ===== *)
theory App
  imports SleepWiring GwaihirClient HealthManager ConfigManager Proxy Management "HOL-Library.Sublist"
begin

text \<open>
  The program, \<open>cmd/smaug/main.go\<close>: the functions that set the components up, and \<open>run\<close>, which starts them one
  after the other, waits for a signal and stops them with its deferred calls. The sleep part of the set-up
  is in SleepWiring. The environment holds what the outside world answers.
\<close>

section \<open>Constants\<close>

definition defaultGwaihirTimeout :: duration where "defaultGwaihirTimeout = 5 * second"

definition gracefulShutdownTimeout :: duration where "gracefulShutdownTimeout = 30 * second"

definition app_Version :: string where "app_Version = ''0.2.2-SNAPSHOT''"
definition BuildTime :: string where "BuildTime = ''unknown''"
definition GitCommit :: string where "GitCommit = ''unknown''"

section \<open>Set-up functions\<close>

text \<open>Stopping the old logger does nothing (\<open>logger_Stop\<close> never fails).\<close>

definition initLogger :: "config \<Rightarrow> logger \<Rightarrow> logger" where
  "initLogger cfg oldLog =
     (let log = logger_New (LevelFrom (ConfigTypes.log_level (set_logging (cfg_settings cfg))))
            (FormatFrom (log_format (set_logging (cfg_settings cfg))))
      in (case logger_Stop oldLog of Some err \<Rightarrow> log | None \<Rightarrow> log))"

definition initMetrics ::
  "(string \<Rightarrow> 'r \<Rightarrow> 'e option \<times> 'r) \<Rightarrow> 'r \<Rightarrow> (string \<times> 'e) + registry" where
  "initMetrics register r0 = (case metrics_New register r0 of Inl err \<Rightarrow> Inl err | Inr (r, m) \<Rightarrow> Inr m)"

definition initConfigManager ::
  "surroundings \<Rightarrow> string option \<Rightarrow> string option \<Rightarrow> string \<Rightarrow> registry \<Rightarrow> load_error + config_manager" where
  "initConfigManager sur watcherErr addErr configPath m =
     (case NewManager sur watcherErr addErr configPath of
        Inl err \<Rightarrow> Inl err
      | Inr configMgr \<Rightarrow> Inr (if m \<noteq> None then ConfigManager_SetMetrics m configMgr else configMgr))"

text \<open>None is a panic.\<close>

definition initHealthManager ::
  "string list \<Rightarrow> config \<Rightarrow> registry \<Rightarrow> (health_manager_error + health_manager) option" where
  "initHealthManager order cfg m =
     (case HealthManager_Start order (HealthManager_SetMetrics (m \<noteq> None) (NewHealthManager cfg)) of
        None \<Rightarrow> None
      | Some (Some err, healthManager) \<Rightarrow> Some (Inl err)
      | Some (None, healthManager) \<Rightarrow> Some (Inr healthManager))"

fun count_wol :: "config \<Rightarrow> string list \<Rightarrow> nat \<Rightarrow> nat" where
  "count_wol cfg [] wolCount = wolCount"
| "count_wol cfg (k # ks) wolCount =
     count_wol cfg ks (case cfg_servers cfg k of
       Some serverCfg \<Rightarrow> if wol_enabled (srv_wakeOnLan serverCfg) then wolCount + 1 else wolCount
     | None \<Rightarrow> wolCount)"

definition initWakeOptions ::
  "(duration \<Rightarrow> string) \<Rightarrow> (url_error \<Rightarrow> string) \<Rightarrow> string list \<Rightarrow> config \<Rightarrow> gw_error + gwaihir_client option" where
  "initWakeOptions show_duration url_text order cfg =
     (let g = set_gwaihir (cfg_settings cfg) in
      if gw_url g = [] then Inr None
      else if count_wol cfg order 0 = 0 then Inr None
      else
        (let timeout = (if gw_timeout g \<le> 0 then defaultGwaihirTimeout else gw_timeout g)
         in (case gwaihir_NewClient show_duration url_text
                \<lparr>gcc_BaseURL = gw_url g, gcc_APIKey = SecretString_Value (gw_apiKey g), gcc_Timeout = timeout,
                 gcc_RetryConfig = NewRetryConfig\<rparr> True of
               Inl err \<Rightarrow> Inl err
             | Inr wolClient \<Rightarrow> Inr (Some wolClient))))"

text \<open>
  The parameter \<open>idleTracker\<close> is an interface; the caller passes a pointer, which makes an interface that is
  not nil even if the pointer is.
\<close>

definition as_recorder :: "idle_tracker option \<Rightarrow> recorder option" where
  "as_recorder t = Some (case t of None \<Rightarrow> NilTracker | Some _ \<Rightarrow> Tracker)"

definition initRouteManager ::
  "config option \<Rightarrow> (route \<Rightarrow> config option) \<Rightarrow> registry \<Rightarrow> gwaihir_client option \<Rightarrow> recorder option
     \<Rightarrow> rm_error + (recorder, gwaihir_client) route_manager" where
  "initRouteManager getCfg at m wakeOpts idleTracker =
     (case NewRouteManager True True True True of
        Inl err \<Rightarrow> Inl err
      | Inr routeManager \<Rightarrow>
          let routeManager = (case wakeOpts of Some c \<Rightarrow> SetWakeOptions (Some c) routeManager | None \<Rightarrow> routeManager);
              routeManager = (if idleTracker \<noteq> None then SetIdleTracker idleTracker routeManager else routeManager);
              routeManager = RouteManager_SetMetrics m routeManager
          in (case RouteManager_Start getCfg at routeManager of
                (Some err, routeManager) \<Rightarrow> Inl err
              | (None, routeManager) \<Rightarrow> Inr routeManager))"

text \<open>
  A management server, with the steps of its goroutines until Start returns; None if Start has not
  returned by then.
\<close>

definition start_server :: "int \<Rightarrow> server_action list \<Rightarrow> (string + management_server) option" where
  "start_server port acts =
     (case server_run (SStart # acts) (NewServer port) of
        None \<Rightarrow> None
      | Some s \<Rightarrow>
          (case map si_caller (ms_instances s) of
             [CallerReturned (Some err)] \<Rightarrow> Some (Inl err)
           | [CallerReturned None] \<Rightarrow> Some (Inr s)
           | _ \<Rightarrow> None))"

definition startManagementServer :: "config \<Rightarrow> server_action list \<Rightarrow> (string + management_server) option" where
  "startManagementServer cfg acts = start_server (ep_port (obs_healthCheck (set_observability (cfg_settings cfg)))) acts"

definition startMetricsServer :: "config \<Rightarrow> server_action list \<Rightarrow> (string + metrics_server) option" where
  "startMetricsServer cfg acts = start_server (ep_port (obs_metrics (set_observability (cfg_settings cfg)))) acts"

text \<open>The version that the management server reports.\<close>

definition versionInfo :: version_info where
  "versionInfo = \<lparr>vi_Version = app_Version, vi_BuildTime = BuildTime, vi_GitCommit = GitCommit\<rparr>"

section \<open>The running program\<close>

datatype component = CLogger | CConfig | CHealth | CIdle | CRoutes | CSleep | CManagement | CMetrics

datatype app_event = Started component | SaidCompleted | Stopped component

text \<open>\<open>ap_defers\<close>: the deferred calls, the last one first. \<open>ap_trace\<close> is history.\<close>

record app =
  ap_log :: logger
  ap_config :: "config_system option"
  ap_health :: "health_manager option"
  ap_tracker :: "idle_tracker option"
  ap_routes :: "(recorder, gwaihir_client) route_manager option"
  ap_sleep :: "(route_sleep_sender \<times> sleep_coordinator) option"
  ap_management :: "management_server option"
  ap_metricsServer :: "metrics_server option"
  ap_defers :: "component list"
  ap_trace :: "app_event list"

datatype app_error =
    MetricsInit "string \<times> string"
  | ConfigInit load_error
  | HealthInit health_manager_error
  | WakeInit gw_error
  | TrackerInit idle_error
  | TrackerStart idle_error
  | RoutesInit rm_error
  | SleepInit sleep_setup_error
  | SleepStart sleep_coordinator_error
  | ManagementStart string
  | MetricsStart string

text \<open>
  \<open>ae_order\<close>: the order in which the server map is visited. \<open>ae_configAt\<close>: the configuration in force when the
  listener of a route is created. \<open>ae_meanwhile\<close>: what the goroutines do between the start and the signal.
  The remaining fields are the answers the calls of Stop depend on.
\<close>

record app_env =
  ae_getenv :: "string \<Rightarrow> string"
  ae_register :: "string \<Rightarrow> string list \<Rightarrow> string option \<times> string list"
  ae_sur :: surroundings
  ae_watcherErr :: "string option"
  ae_addErr :: "string option"
  ae_now :: time
  ae_order :: "string list"
  ae_showDuration :: "duration \<Rightarrow> string"
  ae_urlText :: "url_error \<Rightarrow> string"
  ae_configAt :: "route \<Rightarrow> config option"
  ae_management :: "server_action list"
  ae_metricsServer :: "server_action list"
  ae_meanwhile :: "app \<Rightarrow> app"
  ae_healthInTime :: bool
  ae_deadline :: bool
  ae_managementShutdown :: "(bool \<times> string) option"
  ae_metricsShutdown :: "(bool \<times> string) option"

datatype run_point = Waiting | Returned "app_error option" | Panicked | Blocked

text \<open>A component has been started and its Stop is deferred.\<close>

definition started :: "component \<Rightarrow> app \<Rightarrow> app" where
  "started c a = a\<lparr>ap_defers := c # ap_defers a, ap_trace := ap_trace a @ [Started c]\<rparr>"

text \<open>\<open>run\<close> from the last step it takes before it waits for a signal, back to its beginning.\<close>

definition run_metricsServer :: "app_env \<Rightarrow> config \<Rightarrow> app \<Rightarrow> run_point \<times> app" where
  "run_metricsServer env cfg a =
     (if \<not> ep_enabled (obs_metrics (set_observability (cfg_settings cfg))) then (Waiting, a)
      else (case startMetricsServer cfg (ae_metricsServer env) of
          None \<Rightarrow> (Blocked, a)
        | Some (Inl err) \<Rightarrow> (Returned (Some (MetricsStart err)), a)
        | Some (Inr metricsServer) \<Rightarrow> (Waiting, started CMetrics (a\<lparr>ap_metricsServer := Some metricsServer\<rparr>))))"

definition run_management :: "app_env \<Rightarrow> config \<Rightarrow> app \<Rightarrow> run_point \<times> app" where
  "run_management env cfg a =
     (if \<not> ep_enabled (obs_healthCheck (set_observability (cfg_settings cfg))) then run_metricsServer env cfg a
      else (case startManagementServer cfg (ae_management env) of
          None \<Rightarrow> (Blocked, a)
        | Some (Inl err) \<Rightarrow> (Returned (Some (ManagementStart err)), a)
        | Some (Inr managementServer) \<Rightarrow>
            run_metricsServer env cfg (started CManagement (a\<lparr>ap_management := Some managementServer\<rparr>))))"

definition run_sleep :: "app_env \<Rightarrow> config \<Rightarrow> app \<Rightarrow> run_point \<times> app" where
  "run_sleep env cfg a =
     (case initSleepCoordinator cfg (ap_tracker a) True of
        Inl err \<Rightarrow> (Returned (Some (SleepInit err)), a)
      | Inr None \<Rightarrow> run_management env cfg a
      | Inr (Some (sender, sleepCoordinator)) \<Rightarrow>
          (case SleepCoordinator_Start sleepCoordinator of
             (Some err, c) \<Rightarrow> (Returned (Some (SleepStart err)), a)
           | (None, c) \<Rightarrow> run_management env cfg (started CSleep (a\<lparr>ap_sleep := Some (sender, c)\<rparr>))))"

definition current_config :: "app \<Rightarrow> config option" where
  "current_config a = (case ap_config a of None \<Rightarrow> None | Some cs \<Rightarrow> map_option snd (GetConfig (cs_mgr cs)))"

definition run_routes :: "app_env \<Rightarrow> config \<Rightarrow> registry \<Rightarrow> gwaihir_client option \<Rightarrow> app \<Rightarrow> run_point \<times> app" where
  "run_routes env cfg m wakeOpts a =
     (case initRouteManager (current_config a) (ae_configAt env) m wakeOpts (as_recorder (ap_tracker a)) of
        Inl err \<Rightarrow> (Returned (Some (RoutesInit err)), a)
      | Inr routeManager \<Rightarrow> run_sleep env cfg (started CRoutes (a\<lparr>ap_routes := Some routeManager\<rparr>)))"

definition run_tracker :: "app_env \<Rightarrow> config \<Rightarrow> registry \<Rightarrow> gwaihir_client option \<Rightarrow> app \<Rightarrow> run_point \<times> app" where
  "run_tracker env cfg m wakeOpts a =
     (case initIdleTracker cfg m of
        Inl err \<Rightarrow> (Returned (Some (TrackerInit err)), a)
      | Inr None \<Rightarrow> run_routes env cfg m wakeOpts a
      | Inr (Some idleTracker) \<Rightarrow>
          (case IdleTracker_Start idleTracker of
             (Some err, t) \<Rightarrow> (Returned (Some (TrackerStart err)), a)
           | (None, t) \<Rightarrow> run_routes env cfg m wakeOpts (started CIdle (a\<lparr>ap_tracker := Some t\<rparr>))))"

definition run_health :: "app_env \<Rightarrow> config \<Rightarrow> registry \<Rightarrow> app \<Rightarrow> run_point \<times> app" where
  "run_health env cfg m a =
     (case initHealthManager (ae_order env) cfg m of
        None \<Rightarrow> (Panicked, a)
      | Some (Inl err) \<Rightarrow> (Returned (Some (HealthInit err)), a)
      | Some (Inr healthManager) \<Rightarrow>
          let a = started CHealth (a\<lparr>ap_health := Some healthManager\<rparr>) in
          (case initWakeOptions (ae_showDuration env) (ae_urlText env) (ae_order env) cfg of
             Inl err \<Rightarrow> (Returned (Some (WakeInit err)), a)
           | Inr wakeOpts \<Rightarrow> run_tracker env cfg m wakeOpts a))"

definition configPath :: "app_env \<Rightarrow> string" where
  "configPath env =
     (if ae_getenv env ''SMAUG_CONFIG'' = [] then ''/etc/smaug/services.yaml'' else ae_getenv env ''SMAUG_CONFIG'')"

definition run_start :: "app_env \<Rightarrow> run_point \<times> app" where
  "run_start env =
     (let a = started CLogger \<lparr>ap_log = NewFromEnvs (ae_getenv env), ap_config = None, ap_health = None, ap_tracker = None,
            ap_routes = None, ap_sleep = None, ap_management = None, ap_metricsServer = None, ap_defers = [], ap_trace = []\<rparr>
      in (case initMetrics (ae_register env) [] of
            Inl err \<Rightarrow> (Returned (Some (MetricsInit err)), a)
          | Inr m \<Rightarrow>
              (case initConfigManager (ae_sur env) (ae_watcherErr env) (ae_addErr env) (configPath env) m of
                 Inl err \<Rightarrow> (Returned (Some (ConfigInit err)), a)
               | Inr configMgr \<Rightarrow>
                   let a = started CConfig (a\<lparr>ap_config := Some (boot_system (ae_sur env) (ae_now env) configMgr)\<rparr>) in
                   (case current_config a of
                      None \<Rightarrow> (Panicked, a)
                    | Some cfg \<Rightarrow> run_health env cfg m (a\<lparr>ap_log := initLogger cfg (ap_log a)\<rparr>)))))"

section \<open>Shutdown\<close>

text \<open>A deferred Stop; its error is logged.\<close>

definition report :: "string \<Rightarrow> 'e option \<Rightarrow> app \<Rightarrow> app" where
  "report msg err a = (if err = None then a else a\<lparr>ap_log := log_at LevelError msg [] (ap_log a)\<rparr>)"

text \<open>
  The call of the configuration manager's Stop, with the return of the watcher goroutine it waits for; a
  second call does nothing.
\<close>

definition stop_config :: "config_system \<Rightarrow> config_system" where
  "stop_config cs =
     (if cs_stop cs = MStopFresh
      then the (config_run (CStop # (if cs_watch cs then [CWatchDone] else []) @ [CStop, CStop]) cs)
      else cs)"

definition stop_with :: "('c \<Rightarrow> 'e option \<times> 'c) \<Rightarrow> string \<Rightarrow> ('c option \<Rightarrow> app \<Rightarrow> app) \<Rightarrow> 'c option \<Rightarrow> app \<Rightarrow> app" where
  "stop_with stop msg put c a =
     (case c of None \<Rightarrow> a | Some x \<Rightarrow> (case stop x of (err, x') \<Rightarrow> report msg err (put (Some x') a)))"

definition sleep_stop ::
  "route_sleep_sender \<times> sleep_coordinator \<Rightarrow> sleep_coordinator_error option \<times> route_sleep_sender \<times> sleep_coordinator" where
  "sleep_stop x = (case SleepCoordinator_Stop (snd x) of (err, c) \<Rightarrow> (err, (fst x, c)))"

fun stop_component :: "app_env \<Rightarrow> component \<Rightarrow> app \<Rightarrow> app" where
  "stop_component env CLogger a = (case logger_Stop (ap_log a) of Some err \<Rightarrow> a | None \<Rightarrow> a)"
| "stop_component env CConfig a = a\<lparr>ap_config := map_option stop_config (ap_config a)\<rparr>"
| "stop_component env CHealth a =
     stop_with (HealthManager_Stop (ae_healthInTime env)) ''failed to stop health manager'' (\<lambda>c a. a\<lparr>ap_health := c\<rparr>) (ap_health a) a"
| "stop_component env CIdle a =
     stop_with IdleTracker_Stop ''failed to stop idle tracker'' (\<lambda>c a. a\<lparr>ap_tracker := c\<rparr>) (ap_tracker a) a"
| "stop_component env CRoutes a =
     stop_with (RouteManager_Stop (ae_deadline env)) ''failed to stop route manager'' (\<lambda>c a. a\<lparr>ap_routes := c\<rparr>) (ap_routes a) a"
| "stop_component env CSleep a =
     stop_with sleep_stop ''failed to stop sleep coordinator'' (\<lambda>c a. a\<lparr>ap_sleep := c\<rparr>) (ap_sleep a) a"
| "stop_component env CManagement a =
     stop_with (Server_Stop (ae_managementShutdown env)) ''failed to stop management server'' (\<lambda>c a. a\<lparr>ap_management := c\<rparr>)
       (ap_management a) a"
| "stop_component env CMetrics a =
     stop_with (metrics_Server_Stop (ae_metricsShutdown env)) ''failed to stop metrics server'' (\<lambda>c a. a\<lparr>ap_metricsServer := c\<rparr>)
       (ap_metricsServer a) a"

text \<open>The deferred calls run when \<open>run\<close> returns, and also when it panics.\<close>

definition run_deferred :: "app_env \<Rightarrow> app \<Rightarrow> app" where
  "run_deferred env a =
     fold (\<lambda>c a. (stop_component env c a)\<lparr>ap_trace := ap_trace (stop_component env c a) @ [Stopped c]\<rparr>) (ap_defers a) a"

text \<open>
  The timeout context for the shutdown is cancelled at once and reaches no call of Stop; \<open>run\<close> logs that the
  shutdown is completed, and returns.
\<close>

definition run :: "app_env \<Rightarrow> run_point \<times> app" where
  "run env =
     (case run_start env of
        (Waiting, a) \<Rightarrow>
          let a = ae_meanwhile env a; a = a\<lparr>ap_trace := ap_trace a @ [SaidCompleted]\<rparr>
          in (Returned None, run_deferred env a)
      | (Blocked, a) \<Rightarrow> (Blocked, a)
      | (p, a) \<Rightarrow> (p, run_deferred env a))"

text \<open>The exit status of \<open>main\<close>; None if the program hangs.\<close>

definition main :: "app_env \<Rightarrow> int option" where
  "main env = (case fst (run env) of
     Returned None \<Rightarrow> Some 0 | Returned (Some err) \<Rightarrow> Some 1 | Panicked \<Rightarrow> Some 2 | _ \<Rightarrow> None)"

section \<open>The handler of a route\<close>

text \<open>
  What a listener serves: the middleware around the proxy, with the wake coordinator between if there is one.
  \<open>awake\<close> is the outcome of the coordinator for the request (theory WakeSystem); its log messages are left out.
\<close>

definition wake_handler :: "bool \<Rightarrow> middleware" where
  "wake_handler awake downstream r =
     (if awake then downstream r
      else http_Error ''Service Unavailable: server did not become healthy in time'' 503)"

definition listener_handler :: "bool \<Rightarrow> recorder route_listener \<Rightarrow> handler" where
  "listener_handler awake l =
     (let proxyOpts = (case rl_activity l of None \<Rightarrow> [] | Some (t, routeID) \<Rightarrow> [WithActivityRecorder (Some t) routeID]);
          proxyHandler = NewProxyHandler (route_upstream (rl_route l)) proxyOpts;
          h = (case rl_wake l of None \<Rightarrow> proxyHandler | Some c \<Rightarrow> wake_handler awake proxyHandler)
      in Chain [NewRecoveryMiddleware, NewLoggingMiddleware] h)"

end
