(* ===== verification/AppRun.thy ===== *)
theory AppRun
  imports App RouteReload
begin

text \<open>
  What the program as a whole does: which components it starts and stops and in which order, how the start ends
  for a configuration that loads, and what becomes of the requests when no route has Sleep-on-LAN.
\<close>


section \<open>What is started is stopped\<close>

definition startup_order :: "component list" where
  "startup_order = [CLogger, CConfig, CHealth, CIdle, CRoutes, CSleep, CManagement, CMetrics]"

definition traced :: "nat \<Rightarrow> app \<Rightarrow> bool" where
  "traced n a \<longleftrightarrow> (\<exists>cs. ap_trace a = map Started cs \<and> ap_defers a = rev cs \<and> subseq cs (take n startup_order))"

lemma traced_mono: "traced n a \<Longrightarrow> n \<le> k \<Longrightarrow> traced k a"
proof -
  assume "traced n a" "n \<le> k"
  moreover from this(2) have "subseq (take n startup_order) (take k startup_order)"
    using prefix_imp_subseq [OF take_is_prefix, of n "take k startup_order"] by (simp add: min_def)
  ultimately show ?thesis unfolding traced_def by (blast intro: subseq_order.trans)
qed

lemma traced_started:
  assumes "traced n a" and "ap_defers b = ap_defers a" and "ap_trace b = ap_trace a" and "n < length startup_order"
    and "c = startup_order ! n"
  shows "traced (Suc n) (started c b)"
proof -
  from assms(1) obtain cs where cs: "ap_trace a = map Started cs" "ap_defers a = rev cs" "subseq cs (take n startup_order)"
    by (auto simp: traced_def)
  have "subseq (cs @ [c]) (take (Suc n) startup_order)"
    using cs(3) assms(4,5) by (simp add: take_Suc_conv_app_nth list_emb_append_mono)
  with cs assms(2,3) show ?thesis
    unfolding traced_def by (intro exI [of _ "cs @ [c]"]) (simp add: started_def)
qed

lemma traced_metricsServer: "traced 7 a \<Longrightarrow> traced 8 (snd (run_metricsServer env cfg a))"
  using traced_started [of 7 a _ CMetrics] traced_mono [of 7 a 8]
  by (auto simp: run_metricsServer_def startup_order_def split: option.split sum.split)

lemma traced_management: "traced 6 a \<Longrightarrow> traced 8 (snd (run_management env cfg a))"
  using traced_started [of 6 a _ CManagement] traced_mono [of 6 a]
  by (auto simp: run_management_def startup_order_def intro!: traced_metricsServer split: option.split sum.split)

lemma traced_sleep: "traced 5 a \<Longrightarrow> traced 8 (snd (run_sleep env cfg a))"
  using traced_started [of 5 a _ CSleep] traced_mono [of 5 a]
  by (auto simp: run_sleep_def startup_order_def intro!: traced_management split: option.split sum.split prod.split)

lemma traced_routes: "traced 4 a \<Longrightarrow> traced 8 (snd (run_routes env cfg m w a))"
  using traced_started [of 4 a _ CRoutes] traced_mono [of 4 a]
  by (auto simp: run_routes_def startup_order_def intro!: traced_sleep split: sum.split)

lemma traced_tracker: "traced 3 a \<Longrightarrow> traced 8 (snd (run_tracker env cfg m w a))"
  using traced_started [of 3 a _ CIdle] traced_mono [of 3 a]
  by (auto simp: run_tracker_def startup_order_def intro!: traced_routes split: option.split sum.split prod.split)

lemma traced_health: "traced 2 a \<Longrightarrow> traced 8 (snd (run_health env cfg m a))"
  using traced_started [of 2 a _ CHealth] traced_mono [of 2 a] traced_mono [of 3 _ 8]
  by (auto simp: run_health_def startup_order_def Let_def intro!: traced_tracker split: option.split sum.split)

lemma traced_frame [simp]: "traced n (a\<lparr>ap_log := l\<rparr>) = traced n a" "traced n (a\<lparr>ap_config := c\<rparr>) = traced n a"
  by (simp_all add: traced_def)

lemma traced_start: "traced 8 (snd (run_start env))"
proof -
  have logger: "traced (Suc 0) (started CLogger a)" if "ap_defers a = []" "ap_trace a = []" for a
    using that unfolding traced_def by (intro exI [of _ "[CLogger]"]) (simp add: started_def startup_order_def)
  have config: "traced 2 (started CConfig a)" if "traced (Suc 0) a" for a
    using traced_started [OF that, of a CConfig] by (simp add: startup_order_def numeral_2_eq_2)
  show ?thesis
    by (auto simp: run_start_def Let_def intro!: traced_health config logger traced_mono [OF logger, of _ 8]
        traced_mono [OF config, of _ 8] split: sum.split option.split)
qed

section \<open>What is deferred is stopped\<close>

fun present :: "component \<Rightarrow> app \<Rightarrow> bool" where
  "present CLogger a = True"
| "present CConfig a = (ap_config a \<noteq> None)"
| "present CHealth a = (ap_health a \<noteq> None)"
| "present CIdle a = (ap_tracker a \<noteq> None)"
| "present CRoutes a = (ap_routes a \<noteq> None)"
| "present CSleep a = (ap_sleep a \<noteq> None)"
| "present CManagement a = (ap_management a \<noteq> None)"
| "present CMetrics a = (ap_metricsServer a \<noteq> None)"

text \<open>A component that is there is not running; a management server only if its shutdown succeeded.\<close>

fun quiet :: "app_env \<Rightarrow> component \<Rightarrow> app \<Rightarrow> bool" where
  "quiet env CLogger a = True"
| "quiet env CConfig a = (case ap_config a of None \<Rightarrow> True | Some c \<Rightarrow> cs_stop c \<noteq> MStopFresh)"
| "quiet env CHealth a = (case ap_health a of None \<Rightarrow> True | Some c \<Rightarrow> hm_cancel c = None)"
| "quiet env CIdle a = (case ap_tracker a of None \<Rightarrow> True | Some c \<Rightarrow> \<not> it_running c)"
| "quiet env CRoutes a = (case ap_routes a of None \<Rightarrow> True | Some c \<Rightarrow> \<not> rm_running c)"
| "quiet env CSleep a = (case ap_sleep a of None \<Rightarrow> True | Some c \<Rightarrow> \<not> sco_running (snd c))"
| "quiet env CManagement a =
     (case ap_management a of None \<Rightarrow> True | Some c \<Rightarrow> ae_managementShutdown env \<noteq> None \<or> \<not> ms_running c)"
| "quiet env CMetrics a =
     (case ap_metricsServer a of None \<Rightarrow> True | Some c \<Rightarrow> ae_metricsShutdown env \<noteq> None \<or> \<not> ms_running c)"

lemma stop_config_stops: "cs_stop (stop_config cs) \<noteq> MStopFresh"
proof (cases "cs_stop cs = MStopFresh")
  case True
  obtain t where t: "config_run (CStop # (if cs_watch cs then [CWatchDone] else []) @ [CStop, CStop]) cs = Some t"
    "cs_stop t = MStopReturned"
    using True by (cases "cs_watch cs") (simp_all add: ConfigManager_Stop_def watch_return_def)
  then show ?thesis by (simp only: stop_config_def True if_True option.sel) simp
next
  case False
  then show ?thesis by (simp add: stop_config_def)
qed

lemma RouteManager_Stop_stops: "\<not> rm_running (snd (RouteManager_Stop deadline m))"
  by (simp add: RouteManager_Stop_def Stop_begin_def Let_def)

lemma Server_Stop_stops: "shutdown = None \<Longrightarrow> \<not> ms_running (snd (Server_Stop shutdown s))"
  by (simp add: Server_Stop_def Let_def)

lemma report_frame [simp]:
  "ap_config (report msg err a) = ap_config a" "ap_health (report msg err a) = ap_health a"
  "ap_tracker (report msg err a) = ap_tracker a" "ap_routes (report msg err a) = ap_routes a"
  "ap_sleep (report msg err a) = ap_sleep a" "ap_management (report msg err a) = ap_management a"
  "ap_metricsServer (report msg err a) = ap_metricsServer a" "ap_defers (report msg err a) = ap_defers a"
  "ap_trace (report msg err a) = ap_trace a"
  by (simp_all add: report_def)

lemma stop_component_quiet: "quiet env c (stop_component env c a)"
proof (cases c)
  case CConfig
  then show ?thesis by (simp add: stop_config_stops split: option.split)
next
  case CRoutes
  then show ?thesis
    by (simp add: stop_with_def split_beta RouteManager_Stop_stops split: option.split)
next
  case CManagement
  then show ?thesis
    by (cases "ae_managementShutdown env") (simp_all add: stop_with_def split_beta Server_Stop_stops split: option.split)
next
  case CMetrics
  then show ?thesis
    by (cases "ae_metricsShutdown env") (simp_all add: stop_with_def split_beta metrics_Server_Stop_def Server_Stop_stops split: option.split)
qed (auto simp: stop_with_def HealthManager_Stop_def IdleTracker_Stop_def sleep_stop_def SleepCoordinator_Stop_def
      split: option.split prod.split if_splits)

lemma stop_component_frame: "d \<noteq> c \<Longrightarrow> quiet env d (stop_component env c a) = quiet env d a"
  by (cases c; cases d) (auto simp: stop_with_def logger_Stop_def split: option.split prod.split)

lemma stop_component_trace [simp]: "ap_trace (stop_component env c a) = ap_trace a"
  by (cases c) (auto simp: stop_with_def logger_Stop_def split: option.split prod.split)

lemma quiet_trace [simp]: "quiet env d (a\<lparr>ap_trace := tr\<rparr>) = quiet env d a"
  by (cases d) simp_all

definition stop_logged :: "app_env \<Rightarrow> component \<Rightarrow> app \<Rightarrow> app" where
  "stop_logged env c a = (stop_component env c a)\<lparr>ap_trace := ap_trace (stop_component env c a) @ [Stopped c]\<rparr>"

lemma stops_trace: "ap_trace (fold (stop_logged env) cs a) = ap_trace a @ map Stopped cs"
  by (induction cs arbitrary: a) (simp_all add: stop_logged_def)

lemma stops_quiet: "d \<in> set cs \<or> quiet env d a \<Longrightarrow> quiet env d (fold (stop_logged env) cs a)"
proof (induction cs arbitrary: a)
  case Nil
  then show ?case by simp
next
  case (Cons c cs)
  have "quiet env d (stop_logged env c a)" if "d = c \<or> quiet env d a"
    using that stop_component_quiet [of env c a] stop_component_frame [of d c env a]
    by (cases "d = c") (simp_all add: stop_logged_def)
  with Cons show ?case by auto
qed

lemma run_deferred_eq: "run_deferred env a = fold (stop_logged env) (ap_defers a) a"
  by (simp add: run_deferred_def stop_logged_def [abs_def])

lemma absent_quiet: "\<not> present d a \<Longrightarrow> quiet env d a"
  by (cases d) (auto split: option.split)

text \<open>Every component that is there has its Stop deferred.\<close>

definition owned :: "app \<Rightarrow> bool" where
  "owned a \<longleftrightarrow> (\<forall>c. present c a \<longrightarrow> c = CLogger \<or> c \<in> set (ap_defers a))"

lemma run_deferred_quiet: "owned a \<Longrightarrow> quiet env d (run_deferred env a)"
  unfolding run_deferred_eq owned_def using absent_quiet [of d a env]
  by (cases "d = CLogger") (auto intro!: stops_quiet)

lemma owned_started:
  assumes "owned a" and "\<And>d. d \<noteq> c \<Longrightarrow> present d b \<Longrightarrow> present d a" and "ap_defers b = ap_defers a"
  shows "owned (started c b)"
proof -
  have "present d (started c b) = present d b" for d by (cases d) (simp_all add: started_def)
  with assms show ?thesis unfolding owned_def by (auto simp: started_def)
qed

lemma present_other:
  "d \<noteq> CConfig \<Longrightarrow> present d (a\<lparr>ap_config := x1\<rparr>) = present d a"
  "d \<noteq> CHealth \<Longrightarrow> present d (a\<lparr>ap_health := x2\<rparr>) = present d a"
  "d \<noteq> CIdle \<Longrightarrow> present d (a\<lparr>ap_tracker := x3\<rparr>) = present d a"
  "d \<noteq> CRoutes \<Longrightarrow> present d (a\<lparr>ap_routes := x4\<rparr>) = present d a"
  "d \<noteq> CSleep \<Longrightarrow> present d (a\<lparr>ap_sleep := x5\<rparr>) = present d a"
  "d \<noteq> CManagement \<Longrightarrow> present d (a\<lparr>ap_management := x6\<rparr>) = present d a"
  "d \<noteq> CMetrics \<Longrightarrow> present d (a\<lparr>ap_metricsServer := x7\<rparr>) = present d a"
  "present d (a\<lparr>ap_log := l\<rparr>) = present d a" "present d (a\<lparr>ap_trace := tr\<rparr>) = present d a"
  by (cases d; simp)+

lemma owned_log [simp]: "owned (a\<lparr>ap_log := l\<rparr>) = owned a" "owned (a\<lparr>ap_trace := tr\<rparr>) = owned a"
  by (simp_all add: owned_def present_other)

lemma owned_step:
  "owned a \<Longrightarrow> owned (started CConfig (a\<lparr>ap_config := x1\<rparr>))"
  "owned a \<Longrightarrow> owned (started CHealth (a\<lparr>ap_health := x2\<rparr>))"
  "owned a \<Longrightarrow> owned (started CIdle (a\<lparr>ap_tracker := x3\<rparr>))"
  "owned a \<Longrightarrow> owned (started CRoutes (a\<lparr>ap_routes := x4\<rparr>))"
  "owned a \<Longrightarrow> owned (started CSleep (a\<lparr>ap_sleep := x5\<rparr>))"
  "owned a \<Longrightarrow> owned (started CManagement (a\<lparr>ap_management := x6\<rparr>))"
  "owned a \<Longrightarrow> owned (started CMetrics (a\<lparr>ap_metricsServer := x7\<rparr>))"
  by (rule owned_started; simp add: present_other)+

lemma owned_metricsServer: "owned a \<Longrightarrow> owned (snd (run_metricsServer env cfg a))"
  by (auto simp: run_metricsServer_def intro: owned_step split: option.split sum.split)

lemma owned_management: "owned a \<Longrightarrow> owned (snd (run_management env cfg a))"
  by (auto simp: run_management_def intro: owned_step owned_metricsServer split: option.split sum.split)

lemma owned_sleep: "owned a \<Longrightarrow> owned (snd (run_sleep env cfg a))"
  by (auto simp: run_sleep_def intro: owned_step owned_management split: option.split sum.split prod.split)

lemma owned_routes: "owned a \<Longrightarrow> owned (snd (run_routes env cfg m w a))"
  by (auto simp: run_routes_def intro: owned_step owned_sleep split: sum.split)

lemma owned_tracker: "owned a \<Longrightarrow> owned (snd (run_tracker env cfg m w a))"
  by (auto simp: run_tracker_def intro: owned_step owned_routes split: option.split sum.split prod.split)

lemma owned_health: "owned a \<Longrightarrow> owned (snd (run_health env cfg m a))"
  by (auto simp: run_health_def Let_def intro: owned_step owned_tracker split: option.split sum.split)

lemma owned_start: "owned (snd (run_start env))"
proof -
  have "owned (started CLogger \<lparr>ap_log = l, ap_config = None, ap_health = None, ap_tracker = None,
      ap_routes = None, ap_sleep = None, ap_management = None, ap_metricsServer = None, ap_defers = [], ap_trace = []\<rparr>)" for l
    unfolding owned_def started_def by (auto elim: present.elims)
  then show ?thesis
    by (auto simp: run_start_def Let_def intro!: owned_step owned_health split: option.split sum.split)
qed

lemma start_not_done: "fst (run_start env) \<noteq> Returned None"
proof -
  have metricsServer: "fst (run_metricsServer env cfg a) \<noteq> Returned None" for cfg a
    by (auto simp: run_metricsServer_def split: option.split sum.split)
  have management: "fst (run_management env cfg a) \<noteq> Returned None" for cfg a
    by (auto simp: run_management_def metricsServer split: option.split sum.split)
  have sleep: "fst (run_sleep env cfg a) \<noteq> Returned None" for cfg a
    by (auto simp: run_sleep_def management split: option.split sum.split prod.split)
  have routes: "fst (run_routes env cfg m w a) \<noteq> Returned None" for cfg m w a
    by (auto simp: run_routes_def sleep split: sum.split)
  have tracker: "fst (run_tracker env cfg m w a) \<noteq> Returned None" for cfg m w a
    by (auto simp: run_tracker_def routes split: option.split sum.split prod.split)
  have health: "fst (run_health env cfg m a) \<noteq> Returned None" for cfg m a
    by (auto simp: run_health_def Let_def tracker split: option.split sum.split)
  show ?thesis by (auto simp: run_start_def Let_def health split: option.split sum.split)
qed

section \<open>Properties\<close>

text \<open>What the goroutines may do while the program runs: the components stay the same, in any state.\<close>

definition keeps :: "(app \<Rightarrow> app) \<Rightarrow> bool" where
  "keeps f \<longleftrightarrow> (\<forall>a. ap_defers (f a) = ap_defers a \<and> ap_trace (f a) = ap_trace a \<and> (\<forall>c. present c (f a) = present c a))"


section \<open>How the start ends\<close>

definition gwaihir_needed :: "config \<Rightarrow> bool" where
  "gwaihir_needed cfg \<longleftrightarrow> gw_url (set_gwaihir (cfg_settings cfg)) \<noteq> [] \<and>
     (\<exists>k srv. cfg_servers cfg k = Some srv \<and> wol_enabled (srv_wakeOnLan srv))"

definition api_key :: "config \<Rightarrow> string" where
  "api_key cfg = SecretString_Value (gw_apiKey (set_gwaihir (cfg_settings cfg)))"

definition server_point ::
  "bool \<Rightarrow> (string + management_server) option \<Rightarrow> (string \<Rightarrow> app_error) \<Rightarrow> run_point \<Rightarrow> run_point" where
  "server_point enabled result err next' =
     (if \<not> enabled then next'
      else case result of None \<Rightarrow> Blocked | Some (Inl e) \<Rightarrow> Returned (Some (err e)) | Some (Inr s) \<Rightarrow> next')"

definition start_point :: "app_env \<Rightarrow> config \<Rightarrow> run_point \<Rightarrow> run_point" where
  "start_point env cfg final =
     (let obs = set_observability (cfg_settings cfg) in
      if monitored cfg [] then Panicked
      else if gwaihir_needed cfg \<and> api_key cfg = [] then Returned (Some (WakeInit (Sentinel ErrEmptyAPIKey)))
      else case find (loopback_endpoint cfg) (sol_routes cfg) of
        Some r \<Rightarrow> Returned (Some (SleepInit (SleepClientFailed (route_name r) (route_server r) ErrSSRFAttempt)))
      | None \<Rightarrow>
          server_point (ep_enabled (obs_healthCheck obs)) (startManagementServer cfg (ae_management env)) ManagementStart
            (server_point (ep_enabled (obs_metrics obs)) (startMetricsServer cfg (ae_metricsServer env)) MetricsStart final))"

lemma count_wol_pos: "count_wol cfg ks n = 0 \<longleftrightarrow>
    n = 0 \<and> \<not> (\<exists>k \<in> set ks. \<exists>srv. cfg_servers cfg k = Some srv \<and> wol_enabled (srv_wakeOnLan srv))"
  by (induction cfg ks n rule: count_wol.induct) (auto split: option.splits)

lemma initWakeOptions_valid:
  assumes "valid_config cfg" and "range_order order (cfg_servers cfg)"
  shows "\<exists>w. initWakeOptions sd ut order cfg =
    (if gwaihir_needed cfg \<and> api_key cfg = [] then Inl (Sentinel ErrEmptyAPIKey) else Inr w)"
proof -
  have count: "count_wol cfg order 0 = 0 \<longleftrightarrow> \<not> (\<exists>k srv. cfg_servers cfg k = Some srv \<and> wol_enabled (srv_wakeOnLan srv))"
    using assms(2) by (auto simp: count_wol_pos range_order_some)
  show ?thesis
  proof (cases "gwaihir_needed cfg")
    case False
    then show ?thesis by (auto simp: initWakeOptions_def count gwaihir_needed_def Let_def)
  next
    case True
    then have url: "gw_url (set_gwaihir (cfg_settings cfg)) \<noteq> []" by (simp add: gwaihir_needed_def)
    with assms(1) have "valid_url (gw_url (set_gwaihir (cfg_settings cfg)))" by (auto simp: valid_config_def valid_settings_def)
    then obtain u where "url_Parse (gw_url (set_gwaihir (cfg_settings cfg))) = Inr u"
      by (auto simp: valid_url_def split: sum.splits)
    with True url count show ?thesis
      by (auto simp: initWakeOptions_def Let_def gwaihir_needed_def api_key_def gwaihir_NewClient_def gwaihir_validate_def
          RetryConfig_Validate_def NewRetryConfig_def defaultMaxAttempts_def defaultBaseDelay_def second_def
          defaultGwaihirTimeout_def)
  qed
qed

lemma initHealthManager_result:
  "initHealthManager order cfg m = None \<longleftrightarrow> [] \<in> set order \<and> monitored cfg []"
  "initHealthManager order cfg m \<noteq> Some (Inl e)"
  by (auto simp: initHealthManager_def HealthManager_Start_def NewHealthManager_def HealthManager_SetMetrics_def
      start_workers_result)

lemma register_routes_running [simp]: "it_running (register_routes cfg rs t) = it_running t"
  by (induction cfg rs t rule: register_routes.induct) (auto simp: RegisterRoute_def split: option.split)

lemma initIdleTracker_stopped: "initIdleTracker cfg m = Inr (Some t) \<Longrightarrow> \<not> it_running t"
  by (auto simp: initIdleTracker_eq IdleTracker_SetMetrics_def split: if_splits)

lemma initRouteManager_starts:
  "getCfg = Some cfg \<Longrightarrow> \<exists>r. initRouteManager getCfg at m w t = Inr r"
  by (auto simp: initRouteManager_def NewRouteManager_def validateDependencies_def Let_def SetWakeOptions_def
      SetIdleTracker_def RouteManager_SetMetrics_def RouteManager_Start_def split: option.split)

lemma metricsServer_point:
  "fst (run_metricsServer env cfg a) = server_point (ep_enabled (obs_metrics (set_observability (cfg_settings cfg))))
     (startMetricsServer cfg (ae_metricsServer env)) MetricsStart Waiting"
  by (auto simp: run_metricsServer_def server_point_def split: option.split sum.split)

lemma management_point:
  "fst (run_management env cfg a) = server_point (ep_enabled (obs_healthCheck (set_observability (cfg_settings cfg))))
     (startManagementServer cfg (ae_management env)) ManagementStart
     (server_point (ep_enabled (obs_metrics (set_observability (cfg_settings cfg))))
       (startMetricsServer cfg (ae_metricsServer env)) MetricsStart Waiting)"
  by (auto simp: run_management_def server_point_def metricsServer_point split: option.split sum.split)

text \<open>The coordinator is set up from the tracker that has been started.\<close>

lemma initSleepCoordinator_tracker:
  "t \<noteq> None \<Longrightarrow> u \<noteq> None \<Longrightarrow> initSleepCoordinator cfg t hs = initSleepCoordinator cfg u hs"
  by (cases t; cases u) (simp_all add: initSleepCoordinator_def)

lemma sleep_point:
  assumes "valid_config cfg" and "initIdleTracker cfg m = Inr t" and "(ap_tracker a = None) = (t = None)"
  shows "fst (run_sleep env cfg a) =
    (case find (loopback_endpoint cfg) (sol_routes cfg) of
       Some r \<Rightarrow> Returned (Some (SleepInit (SleepClientFailed (route_name r) (route_server r) ErrSSRFAttempt)))
     | None \<Rightarrow> fst (run_management env cfg a))"
proof -
  have same: "initSleepCoordinator cfg (ap_tracker a) True = initSleepCoordinator cfg t True"
    using assms(3) initSleepCoordinator_tracker [of "ap_tracker a" t cfg True] by (cases t) auto
  show ?thesis
    by (simp add: run_sleep_def same initSleepCoordinator_valid [OF assms(1,2)] SleepCoordinator_Start_def management_point
        split: option.split)
qed

lemma routes_point:
  assumes "valid_config cfg" and "initIdleTracker cfg m = Inr t" and "(ap_tracker a = None) = (t = None)"
    and "current_config a = Some c"
  shows "fst (run_routes env cfg m w a) =
    (case find (loopback_endpoint cfg) (sol_routes cfg) of
       Some r \<Rightarrow> Returned (Some (SleepInit (SleepClientFailed (route_name r) (route_server r) ErrSSRFAttempt)))
     | None \<Rightarrow> fst (run_management env cfg a))"
proof -
  from initRouteManager_starts [OF assms(4)] obtain r where
    "initRouteManager (current_config a) (ae_configAt env) m w (as_recorder (ap_tracker a)) = Inr r" by blast
  then show ?thesis
    using sleep_point [OF assms(1,2)] assms(3)
    by (simp add: run_routes_def started_def management_point split: option.split)
qed

lemma tracker_point:
  assumes "valid_config cfg" and "ap_tracker a = None" and "current_config a = Some c"
  shows "fst (run_tracker env cfg m w a) =
    (case find (loopback_endpoint cfg) (sol_routes cfg) of
       Some r \<Rightarrow> Returned (Some (SleepInit (SleepClientFailed (route_name r) (route_server r) ErrSSRFAttempt)))
     | None \<Rightarrow> fst (run_management env cfg a))"
proof -
  obtain t where t: "initIdleTracker cfg m = Inr t" by (simp add: initIdleTracker_eq)
  show ?thesis
  proof (cases t)
    case None
    with t assms routes_point [OF assms(1) t, of a] show ?thesis by (simp add: run_tracker_def)
  next
    case (Some tr)
    with t have "\<not> it_running tr" by (simp add: initIdleTracker_stopped)
    with t Some assms routes_point [OF assms(1) t] show ?thesis
      by (auto simp: run_tracker_def IdleTracker_Start_def started_def current_config_def management_point split: option.split)
  qed
qed

lemma start_point_correct:
  assumes "decoder_ok (ae_sur env)" and "Load (ae_sur env) (configPath env) = Inr cfg"
    and "ae_watcherErr env = None" and "ae_addErr env = None" and "initMetrics (ae_register env) [] = Inr m"
    and "range_order (ae_order env) (cfg_servers cfg)"
  shows "fst (run_start env) = start_point env cfg Waiting"
proof -
  have valid: "valid_config cfg" by (rule Load_valid [OF assms(1,2)])
  obtain configMgr where mgr: "initConfigManager (ae_sur env) (ae_watcherErr env) (ae_addErr env) (configPath env) m = Inr configMgr"
    "GetConfig configMgr = Some (0, cfg)"
    using assms(2-4) by (auto simp: initConfigManager_def NewManager_def ConfigManager_SetMetrics_def GetConfig_def)
  have empty: "[] \<in> set (ae_order env) \<longleftrightarrow> (\<exists>srv. cfg_servers cfg [] = Some srv)"
    using assms(6) by (simp add: range_order_some)
  have panic: "initHealthManager (ae_order env) cfg m = None \<longleftrightarrow> monitored cfg []"
    by (auto simp: initHealthManager_result empty monitored_def split: option.splits)
  obtain w where w: "initWakeOptions (ae_showDuration env) (ae_urlText env) (ae_order env) cfg =
      (if gwaihir_needed cfg \<and> api_key cfg = [] then Inl (Sentinel ErrEmptyAPIKey) else Inr w)"
    using initWakeOptions_valid [OF valid assms(6)] by blast
  show ?thesis
  proof (cases "initHealthManager (ae_order env) cfg m")
    case None
    with panic show ?thesis
      by (simp add: run_start_def Let_def assms(5) mgr current_config_def started_def boot_system_def run_health_def start_point_def)
  next
    case (Some r)
    with panic obtain h where h: "r = Inr h" and "\<not> monitored cfg []"
      using initHealthManager_result(2) by (cases r) auto
    then show ?thesis
      by (auto simp: run_start_def Let_def assms(5) mgr current_config_def started_def boot_system_def run_health_def start_point_def
          Some w tracker_point [OF valid] management_point split: option.split)
  qed
qed

lemma run_point_of_start: "fst (run env) = (case fst (run_start env) of Waiting \<Rightarrow> Returned None | p \<Rightarrow> p)"
  by (cases "run_start env"; cases "fst (run_start env)") (auto simp: run_def Let_def)


definition sample_env :: app_env where
  "sample_env =
     \<lparr>ae_getenv = (\<lambda>v. []), ae_register = (\<lambda>n r. (None, n # r)), ae_sur = file_surroundings ''a'', ae_watcherErr = None,
      ae_addErr = None, ae_now = 0, ae_order = [''nas''], ae_showDuration = (\<lambda>d. []), ae_urlText = (\<lambda>e. []),
      ae_configAt = (\<lambda>r. None), ae_management = [], ae_metricsServer = [], ae_meanwhile = id, ae_healthInTime = True,
      ae_deadline = False, ae_managementShutdown = None, ae_metricsShutdown = None\<rparr>"

lemma sample_metrics: "\<exists>m. initMetrics (ae_register sample_env) [] = Inr m"
  by (simp add: sample_env_def initMetrics_def metrics_New_def bind_sum_def NewRequestMetrics_def NewPowerMetrics_def
      NewConfigMetrics_def NewGwaihirMetrics_def)

lemma sample_load: "Load (ae_sur sample_env) p = Inr sample_config"
proof -
  have "config_Validate [''nas''] sample_config = None" by code_simp
  moreover have "SubstituteEnv (\<lambda>v. None) ''a'' = ''a''" by code_simp
  ultimately show ?thesis by (simp add: sample_env_def Load_def file_surroundings_def)
qed

lemma sample_start_point: "start_point sample_env sample_config f = f"
proof -
  have "\<not> loopback_endpoint sample_config \<lparr>route_name = ''web'', route_listen = 80, route_upstream = ''http://nas'', route_server = ''nas''\<rparr>"
    unfolding loopback_endpoint_def sol_of_def sol_server_def sample_config_def by code_simp
  then have "find (loopback_endpoint sample_config) (sol_routes sample_config) = None"
    by (simp add: sol_routes_def) (simp add: sample_config_def)
  moreover have "\<not> monitored sample_config []" "\<not> gwaihir_needed sample_config"
    "\<not> ep_enabled (obs_healthCheck (set_observability (cfg_settings sample_config)))"
    "\<not> ep_enabled (obs_metrics (set_observability (cfg_settings sample_config)))"
    by (simp_all add: monitored_def gwaihir_needed_def sample_config_def zero_settings_def)
  ultimately show ?thesis by (simp add: start_point_def server_point_def)
qed



section \<open>Without Sleep-on-LAN\<close>

lemma createListener_tracker:
  assumes "initRouteManager getCfg at m w (Some rec') = Inr rm"
  shows "rl_activity (createListener c rm r) = Some (rec', route_name r)"
proof -
  have "rm_idleTracker (start_listeners at rs m) = rm_idleTracker m" for rs and m :: "('t, 'w) route_manager"
    by (induction rs arbitrary: m) (simp_all add: add_listener_def Let_def)
  then have "rm_idleTracker (start_listeners at rs m) = rm_idleTracker m" for rs and m :: "(recorder, gwaihir_client) route_manager"
    by blast
  with assms have "rm_idleTracker rm = Some rec'"
    by (auto simp: initRouteManager_def NewRouteManager_def validateDependencies_def Let_def SetWakeOptions_def
        SetIdleTracker_def RouteManager_SetMetrics_def RouteManager_Start_def split: option.splits)
  then show ?thesis by (simp add: createListener_def)
qed

text \<open>C10. When no route has Sleep-on-LAN enabled, the program forwards nothing: every request to every route, also to
  those a reload adds, is answered with 500 (or with 503 if its server does not wake up). The tracker that is not
  created reaches the proxy as an interface that holds a nil pointer, and recording the activity
  panics before the request is forwarded.\<close>
theorem without_sleep_routes_nothing_is_forwarded:
  fixes c :: "config option" and r :: route
  assumes "sol_routes cfg = []" and "initIdleTracker cfg m = Inr t"
    and "initRouteManager getCfg at m w (as_recorder t) = Inr rm"
    and "accepts_all env" and "rs_status (sv_response s) = None"
  defines "l \<equiv> createListener c rm r"
  shows "case serve env (listener_handler awake l req) s of (e, s') \<Rightarrow>
    e = None \<and> sv_sent s' = sv_sent s \<and> final_status (sv_response s') = (if awake \<or> rl_wake l = None then 500 else 503)"
proof -
  have act: "rl_activity l = Some (NilTracker, route_name r)"
    using assms(1,2) createListener_tracker [of getCfg at m w NilTracker rm c r] assms(3)
    by (simp add: initIdleTracker_eq as_recorder_def l_def)
  let ?proxy = "NewProxyHandler (route_upstream (rl_route l)) [WithActivityRecorder (Some NilTracker) (route_name r)]"
  define h where "h = (case rl_wake l of None \<Rightarrow> ?proxy | Some x \<Rightarrow> wake_handler awake ?proxy)"
  have handler: "listener_handler awake l req = NewRecoveryMiddleware (NewLoggingMiddleware h) req"
    by (simp add: listener_handler_def act Chain_foldr h_def Let_def)
  obtain rid' tm s1 where enter: "logging_enter env req s = (rid', tm, s1)" by (cases "logging_enter env req s")
  then have s1: "rs_status (sv_response s1) = None" "sv_sent s1 = sv_sent s"
    using assms(5) by (auto simp: logging_enter_def split: prod.splits)
  let ?req = "req\<lparr>rq_requestID := Some rid'\<rparr>"
  show ?thesis
  proof (cases "awake \<or> rl_wake l = None")
    case True
    then have "h = ?proxy" by (auto simp: h_def wake_handler_def fun_eq_iff split: option.split)
    with nil_tracker_panics [of env _ "route_name r" ?req s1] obtain e where e: "serve env (h ?req) s1 = (Some e, s1)" by metis
    with logging_serve [OF assms(4,5) enter, of h] have "serve env (NewLoggingMiddleware h req) s = (Some e, s1)" by (simp add: plain_run_def)
    then show ?thesis
      using True s1 serve_http_Error [of 500 env "''Internal Server Error''" "s1\<lparr>sv_log := sv_log s1 @ [panic_record e req]\<rparr>"]
      by (simp add: handler recovery_serve informational_def final_status_def split_beta)
  next
    case False
    then have h: "h ?req = http_Error ''Service Unavailable: server did not become healthy in time'' 503"
      by (auto simp: h_def wake_handler_def)
    define s2 where "s2 = snd (serve env (h ?req) s1)"
    have s2: "serve env (h ?req) s1 = (None, s2)" "sv_sent s2 = sv_sent s" "rs_status (sv_response s2) = Some 503"
      "plain_run env (h ?req) s1"
      using serve_http_Error [of 503 env "''Service Unavailable: server did not become healthy in time''" s1] s1
      by (simp_all add: h s2_def informational_def prod_eq_iff)
    with logging_serve [OF assms(4,5) enter, of h] obtain d x where
      "serve env (NewLoggingMiddleware h req) s = (None, s2\<lparr>sv_world := x, sv_log := sv_log s2 @
        [response_record rid' (final_status (sv_response s2))
           (int (length (rs_body (sv_response s2))) - int (length (rs_body (sv_response s)))) d]\<rparr>)" by auto
    with False s2 show ?thesis unfolding handler recovery_serve by (simp add: final_status_def)
  qed
qed

definition plain_config :: config where
  "plain_config = \<lparr>cfg_settings = zero_settings, cfg_servers = Map.empty,
     cfg_routes = [\<lparr>route_name = ''web'', route_listen = 80, route_upstream = ''http://nas'', route_server = []\<rparr>]\<rparr>"

lemma without_sleep_routes_nothing_is_forwarded_witness:
  "case initIdleTracker plain_config None of Inr t \<Rightarrow>
     (case initRouteManager (Some plain_config) (\<lambda>r. Some plain_config) None None (as_recorder t) of Inr rm \<Rightarrow>
        list_all (\<lambda>r. case serve (example_env ([], Inr (200, ''hello'', False)))
            (listener_handler True (createListener (Some plain_config) rm r) example_request) example_serve of (e, s') \<Rightarrow>
          e = None \<and> sv_sent s' = [] \<and> final_status (sv_response s') = 500) (cfg_routes plain_config)
      | Inl e \<Rightarrow> False)
   | Inl e \<Rightarrow> False"
proof -
  have none: "sol_routes plain_config = []" by (simp add: sol_routes_def plain_config_def sol_server_def)
  then have t: "initIdleTracker plain_config None = Inr None" by (simp add: initIdleTracker_eq)
  from initRouteManager_starts [OF refl] obtain rm where
    rm: "initRouteManager (Some plain_config) (\<lambda>r. Some plain_config) None None (as_recorder None) = Inr rm" by blast
  have "rs_status (sv_response example_serve) = None" "sv_sent example_serve = []"
    by (simp_all add: example_serve_def no_response_def)
  with without_sleep_routes_nothing_is_forwarded [OF none t rm example_accepts this(1), of True "Some plain_config"]
  show ?thesis by (auto simp: t rm list_all_iff split: prod.splits)
qed

end
