(* ===== verification/HotReload.thy ===== *)
theory HotReload
  imports ConfigManager RouteReload
begin

text \<open>
  Hot reload from end to end: the configuration manager and the route manager composed, the way
  \<open>cmd/smaug/main.go\<close> wires them. The consumer of the reload signal is the goroutine
  \<open>watchConfigReloads\<close> of the route manager (\<open>internal/proxy/route_manager.go\<close>): it receives the
  signal, reads the configuration and applies it to the running listeners, while the file, the
  watcher, the debounce timer and any number of reload goroutines of the configuration manager
  (\<open>internal/config/manager.go\<close>) go on. The properties say that what is served converges to the
  configuration that is stored, however these interleave.

  A reload of the routes takes the configuration once, at its start; what it does afterwards touches
  only the route manager, so the two are one step. The listeners of Start have bound their ports
  or failed by the time a reload is handled.
\<close>

section \<open>The composed system\<close>

text \<open>\<open>hs_taken\<close> is the configuration the route manager took last; None until Start.\<close>

record ('t, 'w) hot_system =
  hs_config :: config_system
  hs_routes :: "('t, 'w) route_manager"
  hs_taken :: "config_ptr option"

datatype ('t, 'w) hot_action =
    HConfig config_action
  | HStart "'w option option" "'t option" "route \<Rightarrow> config option" net_env "nat list"
  | HReceive
  | HReload net_env "string list" "string list" "route \<Rightarrow> config option"

text \<open>Start of the route manager on the stored configuration.\<close>

definition hot_start ::
  "'w option option \<Rightarrow> 't option \<Rightarrow> (route \<Rightarrow> config option) \<Rightarrow> net_env \<Rightarrow> nat list \<Rightarrow>
     ('t, 'w) hot_system \<Rightarrow> ('t, 'w) hot_system option" where
  "hot_start wake tracker at env order s =
     (case (hs_taken s, GetConfig (cs_mgr (hs_config s))) of
        (None, Some p) \<Rightarrow>
          Some (s\<lparr>hs_config := (hs_config s)\<lparr>cs_seen := fst p\<rparr>,
            hs_routes := boot_manager (hs_routes s) wake tracker (snd p) at env order, hs_taken := Some p\<rparr>)
      | _ \<Rightarrow> None)"

text \<open>The goroutine \<open>watchConfigReloads\<close> takes the signal out of the channel.\<close>

definition hot_receive :: "('t, 'w) hot_system \<Rightarrow> ('t, 'w) hot_system option" where
  "hot_receive s =
     (case (hs_taken s, cs_client (hs_config s)) of
        (Some p, ClientWait) \<Rightarrow> map_option (\<lambda>c. s\<lparr>hs_config := c\<rparr>) (client_step (hs_config s))
      | _ \<Rightarrow> None)"

text \<open>It handles the signal: \<open>handleReload\<close> reads the configuration, compares and applies it.\<close>

definition hot_reload ::
  "net_env \<Rightarrow> string list \<Rightarrow> string list \<Rightarrow> (route \<Rightarrow> config option) \<Rightarrow>
     ('t, 'w) hot_system \<Rightarrow> ('t, 'w) hot_system option" where
  "hot_reload env newOrder oldOrder at s =
     (case (hs_taken s, cs_client (hs_config s)) of
        (Some p, ClientSignalled) \<Rightarrow>
          let getCfg = GetConfig (cs_mgr (hs_config s));
              m' = snd (handleReload env newOrder oldOrder (map_option snd getCfg) at (hs_routes s))
          in map_option (\<lambda>c. s\<lparr>hs_config := c, hs_routes := m', hs_taken := getCfg\<rparr>) (client_step (hs_config s))
      | _ \<Rightarrow> None)"

text \<open>The route manager's goroutine is the only consumer of the signal.\<close>

fun manager_action :: "config_action \<Rightarrow> bool" where
  "manager_action CClient \<longleftrightarrow> False"
| "manager_action a \<longleftrightarrow> True"

fun hot_exec :: "('t, 'w) hot_action \<Rightarrow> ('t, 'w) hot_system \<Rightarrow> ('t, 'w) hot_system option" where
  "hot_exec (HConfig a) s =
     (if manager_action a then map_option (\<lambda>c. s\<lparr>hs_config := c\<rparr>) (config_exec a (hs_config s)) else None)"
| "hot_exec (HStart wake tracker at env order) s = hot_start wake tracker at env order s"
| "hot_exec HReceive s = hot_receive s"
| "hot_exec (HReload env newOrder oldOrder at) s = hot_reload env newOrder oldOrder at s"

text \<open>
  What is assumed of a step: the decoder keeps its promises, the goroutines of Start run once each, a
  map is visited key by key, and the environment satisfies \<open>P\<close> on the configuration applied.
\<close>

fun hot_ok :: "(net_env \<Rightarrow> config \<Rightarrow> bool) \<Rightarrow> ('t, 'w) hot_action \<Rightarrow> ('t, 'w) hot_system \<Rightarrow> bool" where
  "hot_ok P (HConfig a) s \<longleftrightarrow> action_ok a"
| "hot_ok P (HStart wake tracker at env order) s \<longleftrightarrow>
     (case GetConfig (cs_mgr (hs_config s)) of None \<Rightarrow> False | Some p \<Rightarrow> P env (snd p) \<and> start_order (snd p) order)"
| "hot_ok P HReceive s \<longleftrightarrow> True"
| "hot_ok P (HReload env newOrder oldOrder at) s \<longleftrightarrow>
     (case GetConfig (cs_mgr (hs_config s)) of
        None \<Rightarrow> False
      | Some p \<Rightarrow> P env (snd p) \<and> range_order newOrder (route_map (cfg_routes (snd p))) \<and>
          range_order oldOrder (route_map (active_routes (hs_routes s))))"

inductive hot_step ::
  "(net_env \<Rightarrow> config \<Rightarrow> bool) \<Rightarrow> ('t, 'w) hot_system \<Rightarrow> ('t, 'w) hot_system \<Rightarrow> bool" for P where
  hot_exec_step: "hot_ok P a s \<Longrightarrow> hot_exec a s = Some t \<Longrightarrow> hot_step P s t"

inductive_cases hot_stepE: "hot_step P s t"

fun hot_run :: "('t, 'w) hot_action list \<Rightarrow> ('t, 'w) hot_system \<Rightarrow> ('t, 'w) hot_system option" where
  "hot_run [] s = Some s"
| "hot_run (a # as) s = (case hot_exec a s of None \<Rightarrow> None | Some t \<Rightarrow> hot_run as t)"

text \<open>The steps of the program's own goroutines, as opposed to the file, the clock and the operator.\<close>

fun own_step :: "('t, 'w) hot_action \<Rightarrow> bool" where
  "own_step (HConfig (CReload i)) \<longleftrightarrow> True"
| "own_step (HConfig a) \<longleftrightarrow> False"
| "own_step (HStart wake tracker at env order) \<longleftrightarrow> False"
| "own_step HReceive \<longleftrightarrow> True"
| "own_step (HReload env newOrder oldOrder at) \<longleftrightarrow> True"

definition hot_init :: "('t, 'w) hot_system \<Rightarrow> bool" where
  "hot_init s \<longleftrightarrow> config_init (hs_config s) \<and> NewRouteManager True True True True = Inr (hs_routes s) \<and> hs_taken s = None"

section \<open>The invariant\<close>

text \<open>What is served is the configuration \<open>c\<close>.\<close>

definition serves :: "('t, 'w) route_manager \<Rightarrow> config \<Rightarrow> bool" where
  "serves m c \<longleftrightarrow> rm_wf m \<and> all_serving m \<and> route_map (active_routes m) = route_map (cfg_routes c) \<and>
     distinct (map route_listen (cfg_routes c))"

text \<open>The route manager serves what it took last, which is the stored configuration unless a signal is
  on its way to it.\<close>

definition hot_inv :: "('t, 'w) hot_system \<Rightarrow> bool" where
  "hot_inv s \<longleftrightarrow> config_inv (hs_config s) \<and>
     (case hs_taken s of
        None \<Rightarrow> NewRouteManager True True True True = Inr (hs_routes s)
      | Some p \<Rightarrow> serves (hs_routes s) (snd p) \<and>
          (GetConfig (cs_mgr (hs_config s)) = Some p \<or> signal_underway (hs_config s)))"

lemma signal_kept:
  assumes st: "config_exec a c = Some d" and a: "manager_action a" and cap: "ch_cap (cm_reloadCh (cs_mgr c)) = 1"
  shows "signal_underway d \<or> (\<not> signal_underway c \<and> cm_config (cs_mgr d) = cm_config (cs_mgr c))"
proof (cases a)
  case (CReload i)
  with st have rs: "reload_step i c = Some d" by simp
  then have i: "i < length (cs_reloads c)" by (simp add: reload_step_def split: if_splits)
  have keep: "RSignal \<in> set (cs_reloads c) \<Longrightarrow> cs_reloads c ! i \<noteq> RSignal \<Longrightarrow> RSignal \<in> set ((cs_reloads c)[i := x])" for x
    by (rule set_update_keeps)
  show ?thesis
    using rs i keep signal_reload_facts [OF cap]
    by (auto simp: reload_step_def signal_underway_def store_config_def record_reload_def set_update_memI
        split: reload_pc.splits sum.splits if_splits)
qed (use st a in \<open>auto simp: signal_underway_def watch_event_def watch_return_def watch_error_def timer_fire_def
       ConfigManager_Stop_def split: if_splits option.splits manager_stop_pc.splits\<close>)

lemma hot_inv_init: "hot_init s \<Longrightarrow> hot_inv s"
  by (simp add: hot_init_def hot_inv_def config_inv_init)

lemma config_step_keeps:
  assumes inv: "hot_inv s" and ok: "action_ok a" and a: "manager_action a" and st: "config_exec a (hs_config s) = Some c"
  shows "hot_inv (s\<lparr>hs_config := c\<rparr>)"
proof -
  have ci: "config_inv (hs_config s)" using inv by (simp add: hot_inv_def)
  have "signal_underway c \<or> (\<not> signal_underway (hs_config s) \<and> cm_config (cs_mgr c) = cm_config (cs_mgr (hs_config s)))"
    by (rule signal_kept [OF st a]) (use ci in \<open>simp add: config_inv_def\<close>)
  with inv config_exec_inv [OF ci ok st] show ?thesis
    by (auto simp: hot_inv_def GetConfig_def split: option.splits)
qed

lemma hot_start_keeps:
  assumes inv: "hot_inv s" and st: "hot_start wake tracker at env order s = Some t"
    and ok: "hot_ok grants (HStart wake tracker at env order) s"
  shows "hot_inv t"
proof -
  from st obtain p where p: "hs_taken s = None" "GetConfig (cs_mgr (hs_config s)) = Some p"
    and t: "t = s\<lparr>hs_config := (hs_config s)\<lparr>cs_seen := fst p\<rparr>,
            hs_routes := boot_manager (hs_routes s) wake tracker (snd p) at env order, hs_taken := Some p\<rparr>"
    by (auto simp: hot_start_def split: option.splits)
  from ok p have g: "distinct (map route_listen (cfg_routes (snd p)))" "cooperative env (cfg_routes (snd p))"
      "start_order (snd p) order" by (simp_all add: grants_def)
  have new: "NewRouteManager True True True True = Inr (hs_routes s)" using inv p by (simp add: hot_inv_def)
  have "serves (boot_manager (hs_routes s) wake tracker (snd p) at env order) (snd p)"
    using boot_wf [OF new g(1,3)] boot_serving [OF new g(1,3,2)] g(1) by (simp add: serves_def)
  moreover have "config_inv ((hs_config s)\<lparr>cs_seen := fst p\<rparr>)"
    using inv p by (auto simp: hot_inv_def config_inv_def GetConfig_def)
  ultimately show ?thesis using p by (simp add: hot_inv_def t)
qed

lemma hot_receive_keeps:
  assumes inv: "hot_inv s" and st: "hot_receive s = Some t"
  shows "hot_inv t"
proof -
  from st obtain p c where p: "hs_taken s = Some p" "cs_client (hs_config s) = ClientWait"
    and c: "client_step (hs_config s) = Some c" and t: "t = s\<lparr>hs_config := c\<rparr>"
    by (auto simp: hot_receive_def split: option.splits client_pc.splits)
  have "signal_underway c"
    using c p(2) by (auto simp: client_step_def signal_underway_def split: option.splits)
  with inv client_step_inv [OF _ c] p show ?thesis by (simp add: hot_inv_def t)
qed

lemma hot_reload_keeps:
  assumes inv: "hot_inv s" and st: "hot_reload env newOrder oldOrder at s = Some t"
    and ok: "hot_ok grants (HReload env newOrder oldOrder at) s"
  shows "hot_inv t" and "GetConfig (cs_mgr (hs_config t)) = GetConfig (cs_mgr (hs_config s))"
    and "hs_taken t = GetConfig (cs_mgr (hs_config s))"
proof -
  from st obtain p c where p: "hs_taken s = Some p" "cs_client (hs_config s) = ClientSignalled"
    and c: "client_step (hs_config s) = Some c"
    and t: "t = s\<lparr>hs_config := c, hs_routes := snd (handleReload env newOrder oldOrder
        (map_option snd (GetConfig (cs_mgr (hs_config s)))) at (hs_routes s)), hs_taken := GetConfig (cs_mgr (hs_config s))\<rparr>"
    by (auto simp: hot_reload_def Let_def split: option.splits client_pc.splits)
  from ok obtain q where q: "GetConfig (cs_mgr (hs_config s)) = Some q" and g: "grants env (snd q)"
    and ro: "range_order newOrder (route_map (cfg_routes (snd q)))" "range_order oldOrder (route_map (active_routes (hs_routes s)))"
    by (auto split: option.splits)
  have mgr: "cs_mgr c = cs_mgr (hs_config s)" using c p(2) by (auto simp: client_step_def)
  have sv: "rm_wf (hs_routes s)" "all_serving (hs_routes s)" using inv p by (simp_all add: hot_inv_def serves_def)
  have g': "distinct (map route_listen (cfg_routes (snd q)))" "cooperative env (cfg_routes (snd q))"
    using g by (simp_all add: grants_def)
  from handleReload_converges [OF sv ro g', of at] g'(1)
  have "serves (snd (handleReload env newOrder oldOrder (Some (snd q)) at (hs_routes s))) (snd q)"
    by (auto simp: serves_def)
  moreover have "config_inv c" using client_step_inv [OF _ c] inv by (simp add: hot_inv_def)
  ultimately show "hot_inv t" using q mgr by (simp add: hot_inv_def t)
  show "GetConfig (cs_mgr (hs_config t)) = GetConfig (cs_mgr (hs_config s))" "hs_taken t = GetConfig (cs_mgr (hs_config s))"
    by (simp_all add: t mgr)
qed

lemma hot_exec_inv:
  assumes inv: "hot_inv s" and ok: "hot_ok grants a s" and st: "hot_exec a s = Some t"
  shows "hot_inv t"
proof (cases a)
  case (HConfig b)
  with st ok config_step_keeps [OF inv] show ?thesis by (auto split: if_splits)
next
  case (HStart wake tracker at env order)
  with st ok hot_start_keeps [OF inv] show ?thesis by simp
next
  case HReceive
  with st hot_receive_keeps [OF inv] show ?thesis by simp
next
  case (HReload env newOrder oldOrder at)
  with st ok hot_reload_keeps(1) [OF inv] show ?thesis by simp
qed

interpretation hot: invariant_system hot_init "hot_step grants" hot_inv
  by unfold_locales (auto intro: hot_inv_init hot_exec_inv elim!: hot_stepE)

section \<open>Convergence\<close>

lemma finite_order: "finite (dom m) \<Longrightarrow> \<exists>order. range_order order m"
  using finite_distinct_list [of "dom m"] by (auto simp: range_order_def)

lemma route_order: "\<exists>order. range_order order (route_map rs)"
  by (rule finite_order) (simp add: route_map_dom)

lemma hot_run_steps:
  "hot_run as s = Some t \<Longrightarrow> hot_ok grants a u \<Longrightarrow> hot_exec a u = Some s \<Longrightarrow> (hot_step grants)\<^sup>*\<^sup>* s t \<Longrightarrow>
     hot_run (a # as) u = Some t \<and> (hot_step grants)\<^sup>*\<^sup>* u t"
  by (auto intro: converse_rtranclp_into_rtranclp hot_exec_step)

text \<open>The state in which the stored configuration \<open>p\<close> is served, reached from \<open>s\<close> by at most \<open>k\<close> steps
  of the program's own goroutines.\<close>

definition settles :: "nat \<Rightarrow> ('t, 'w) hot_system \<Rightarrow> config_ptr \<Rightarrow> bool" where
  "settles k s p \<longleftrightarrow> (\<exists>as t. length as \<le> k \<and> list_all own_step as \<and> hot_run as s = Some t \<and>
     (hot_step grants)\<^sup>*\<^sup>* s t \<and> GetConfig (cs_mgr (hs_config t)) = Some p \<and> serves (hs_routes t) (snd p))"

lemma settles_mono: "settles k s p \<Longrightarrow> k \<le> k' \<Longrightarrow> settles k' s p"
  unfolding settles_def using le_trans by blast

lemma settles_step:
  assumes "settles k t p" and "hot_ok grants a s" and "hot_exec a s = Some t" and "own_step a"
  shows "settles (Suc k) s p"
proof -
  from assms(1) obtain as u where "length as \<le> k" "list_all own_step as" "hot_run as t = Some u"
     "(hot_step grants)\<^sup>*\<^sup>* t u" "GetConfig (cs_mgr (hs_config u)) = Some p" "serves (hs_routes u) (snd p)"
    by (auto simp: settles_def)
  with assms(2-) hot_run_steps [of as t u a s] show ?thesis
    unfolding settles_def by (intro exI [of _ "a # as"] exI [of _ u]) auto
qed

lemma settles_signalled:
  assumes inv: "hot_inv s" and st: "hs_taken s = Some q" and cl: "cs_client (hs_config s) = ClientSignalled"
    and p: "GetConfig (cs_mgr (hs_config s)) = Some p" and g: "grants env (snd p)"
  shows "settles (Suc 0) s p"
proof -
  obtain n o' where ord: "range_order n (route_map (cfg_routes (snd p)))" "range_order o' (route_map (active_routes (hs_routes s)))"
    using route_order by blast
  let ?a = "HReload env n o' (\<lambda>_. None)"
  have ok: "hot_ok grants ?a s" using p g ord by simp
  from cl have "\<exists>c. client_step (hs_config s) = Some c" by (simp add: client_step_def)
  then obtain t where t: "hot_reload env n o' (\<lambda>_. None) s = Some t" using st cl by (auto simp: hot_reload_def Let_def)
  note keeps = hot_reload_keeps [OF inv t ok]
  have "serves (hs_routes t) (snd p)" using keeps p by (simp add: hot_inv_def)
  with keeps p have "settles 0 t p"
    unfolding settles_def by (intro exI [of _ "[]"] exI [of _ t]) simp
  from settles_step [OF this ok] t show ?thesis by simp
qed

lemma settles_buffered:
  assumes inv: "hot_inv s" and st: "hs_taken s = Some q"
    and ch: "ch_buf (cm_reloadCh (cs_mgr (hs_config s))) \<noteq> [] \<or> cs_client (hs_config s) = ClientSignalled"
    and p: "GetConfig (cs_mgr (hs_config s)) = Some p" and g: "grants env (snd p)"
  shows "settles 2 s p"
proof (cases "cs_client (hs_config s)")
  case ClientSignalled
  from settles_mono [OF settles_signalled [OF inv st this p g]] show ?thesis by simp
next
  case ClientWait
  with ch client_receives [of "hs_config s"] obtain c where c: "client_step (hs_config s) = Some c"
    "cs_client c = ClientSignalled" "cm_config (cs_mgr c) = cm_config (cs_mgr (hs_config s))" by auto
  define t where "t = s\<lparr>hs_config := c\<rparr>"
  have rcv: "hot_receive s = Some t" using c st ClientWait by (simp add: hot_receive_def t_def)
  have "settles (Suc 0) t p"
    by (rule settles_signalled [OF hot_receive_keeps [OF inv rcv] _ _ _ g]) (use c st p in \<open>simp_all add: t_def GetConfig_def\<close>)
  from settles_step [OF this, of HReceive s] rcv show ?thesis by (simp add: numeral_2_eq_2)
qed

lemma settles_underway:
  assumes inv: "hot_inv s" and st: "hs_taken s = Some q" and sig: "signal_underway (hs_config s)"
    and p: "GetConfig (cs_mgr (hs_config s)) = Some p" and g: "grants env (snd p)"
  shows "settles 3 s p"
proof (cases "ch_buf (cm_reloadCh (cs_mgr (hs_config s))) \<noteq> [] \<or> cs_client (hs_config s) = ClientSignalled")
  case True
  from settles_mono [OF settles_buffered [OF inv st this p g]] show ?thesis by simp
next
  case False
  let ?c = "hs_config s"
  from False sig obtain i where i: "i < length (cs_reloads ?c)" "cs_reloads ?c ! i = RSignal"
    by (auto simp: signal_underway_def in_set_conv_nth)
  define t where "t = s\<lparr>hs_config := ?c\<lparr>cs_mgr := signal_reload (cs_mgr ?c), cs_reloads := (cs_reloads ?c)[i := RRecord True]\<rparr>\<rparr>"
  have step: "hot_exec (HConfig (CReload i)) s = Some t" using i by (simp add: reload_step_def t_def)
  have cap: "ch_cap (cm_reloadCh (cs_mgr ?c)) = 1" using inv by (simp add: hot_inv_def config_inv_def)
  have it: "hot_inv t" by (rule hot_exec_inv [OF inv _ step]) simp
  have "settles 2 t p"
    by (rule settles_buffered [OF it _ _ _ g]) (use signal_reload_facts [OF cap] st p in \<open>simp_all add: t_def GetConfig_def\<close>)
  from settles_step [OF this _ step] show ?thesis by (simp add: numeral_3_eq_3 numeral_2_eq_2)
qed

text \<open>A run of the configuration manager alone is a run of the composed system.\<close>

lemma config_run_hot:
  "config_run as c = Some d \<Longrightarrow> list_all action_ok as \<Longrightarrow> list_all manager_action as \<Longrightarrow>
     hot_run (map HConfig as) (s\<lparr>hs_config := c\<rparr>) = Some (s\<lparr>hs_config := d\<rparr>) \<and>
     (hot_step P)\<^sup>*\<^sup>* (s\<lparr>hs_config := c\<rparr>) (s\<lparr>hs_config := d\<rparr>)"
proof (induction as arbitrary: c)
  case Nil
  then show ?case by simp
next
  case (Cons a as)
  then obtain c1 where c1: "config_exec a c = Some c1" "config_run as c1 = Some d" by (auto split: option.splits)
  with Cons.prems have ex: "hot_exec (HConfig a) (s\<lparr>hs_config := c\<rparr>) = Some (s\<lparr>hs_config := c1\<rparr>)" by simp
  with Cons.prems have "hot_step P (s\<lparr>hs_config := c\<rparr>) (s\<lparr>hs_config := c1\<rparr>)"
    by (intro hot_exec_step [of P "HConfig a"]) simp_all
  with Cons.IH [OF c1(2)] Cons.prems ex show ?case by (auto intro: converse_rtranclp_into_rtranclp)
qed

lemma serves_exactly:
  assumes "serves m c"
  shows "r \<in> set (active_routes m) \<longleftrightarrow> r \<in> set (cfg_routes c)"
    and "(\<exists>i. rm_bound m q = Some i) \<longleftrightarrow> q \<in> route_listen ` set (cfg_routes c)"
    and "GetActiveRouteCount m = length (rm_routes m)"
  using served_ports [of m "cfg_routes c"] assms by (simp_all add: serves_def GetActiveRouteCount_def all_serving_def serving_def)

section \<open>Example\<close>

definition hot_example :: "(nat, nat) hot_system" where
  "hot_example = \<lparr>hs_config = example_system, hs_routes = empty_manager, hs_taken = None\<rparr>"

text \<open>The file is replaced by one without routes, and the reload has stored the new configuration but
  not sent its signal yet.\<close>

definition file_replaced :: "config_action list" where
  "file_replaced = [CEvent file_written, CEdit (file_surroundings ''b''), CTick 1000000000, CFire,
     CReload 0, CReload 0, CReload 0]"

section \<open>Properties\<close>

text \<open>C1. Hot reload works from end to end. Whatever edits, file events, ticks of the clock and
  reload goroutines have happened since Start, and however they interleaved with the route
  manager, as long as the environment granted each configuration applied: if no signal is on
  its way, exactly the routes of the stored configuration are served and exactly its ports are bound;
  otherwise three steps of the program's own goroutines (send the signal, receive it, reload) get there.\<close>

theorem hot_reload_converges:
  assumes "hot_init s0" and "(hot_step grants)\<^sup>*\<^sup>* s0 s" and "hs_taken s \<noteq> None"
    and "GetConfig (cs_mgr (hs_config s)) = Some p" and "grants env (snd p)"
  shows "\<exists>as t. length as \<le> (if signal_underway (hs_config s) then 3 else 0) \<and> list_all own_step as \<and>
    hot_run as s = Some t \<and> (hot_step grants)\<^sup>*\<^sup>* s t \<and> GetConfig (cs_mgr (hs_config t)) = Some p \<and>
    (\<forall>r. r \<in> set (active_routes (hs_routes t)) \<longleftrightarrow> r \<in> set (cfg_routes (snd p))) \<and>
    GetActiveRouteCount (hs_routes t) = length (rm_routes (hs_routes t)) \<and>
    (\<forall>q. (\<exists>i. rm_bound (hs_routes t) q = Some i) \<longleftrightarrow> q \<in> route_listen ` set (cfg_routes (snd p)))"
proof -
  have inv: "hot_inv s" by (rule hot.reachable_inv [OF assms(1,2)])
  obtain q where q: "hs_taken s = Some q" using assms(3) by blast
  have "settles (if signal_underway (hs_config s) then 3 else 0) s p"
  proof (cases "signal_underway (hs_config s)")
    case True
    from settles_underway [OF inv q True assms(4,5)] True show ?thesis by simp
  next
    case False
    with inv q assms(4) have "serves (hs_routes s) (snd p)" by (simp add: hot_inv_def)
    with False assms(4) show ?thesis
      unfolding settles_def by (intro exI [of _ "[]"] exI [of _ s]) simp
  qed
  then obtain as t where "length as \<le> (if signal_underway (hs_config s) then 3 else 0)" "list_all own_step as"
     "hot_run as s = Some t" "(hot_step grants)\<^sup>*\<^sup>* s t" "GetConfig (cs_mgr (hs_config t)) = Some p"
     "serves (hs_routes t) (snd p)" unfolding settles_def by blast
  with serves_exactly [of "hs_routes t" "snd p"] show ?thesis by blast
qed

lemma hot_reload_converges_witness:
  "\<exists>s1 s as t. hot_exec (HStart None None (\<lambda>_. None) granting_env [0]) hot_example = Some s1 \<and>
     hot_run (map HConfig file_replaced) s1 = Some s \<and> rm_bound (hs_routes s) 80 = Some 0 \<and>
     length as \<le> 3 \<and> hot_run as s = Some t \<and> \<not> (\<exists>i. rm_bound (hs_routes t) 80 = Some i)"
proof -
  let ?start = "HStart None None (\<lambda>_. None) granting_env [0]"
  define s1 where "s1 = the (hot_exec ?start hot_example)"
  have init: "hot_init hot_example"
    using example_init example_new_manager by (simp add: hot_init_def hot_example_def)
  have "hot_exec ?start hot_example \<noteq> None"
    by (simp add: hot_start_def hot_example_def example_system_def boot_system_def GetConfig_def)
  then have s1: "hot_exec ?start hot_example = Some s1" by (auto simp: s1_def)
  have "hot_ok grants ?start hot_example"
    by (simp add: hot_example_def example_system_def boot_system_def GetConfig_def grants_def cooperative_def
        granting_env_def sample_config_def start_order_def)
  with s1 have st1: "hot_step grants hot_example s1" by (blast intro: hot_exec_step)
  have "map_option (\<lambda>c. (cs_seen c, map_option (\<lambda>p. (fst p, map route_listen (cfg_routes (snd p)))) (GetConfig (cs_mgr c))))
      (config_run file_replaced example_system) = Some (0, Some (1, []))" by code_simp
  then obtain c p where c: "config_run file_replaced example_system = Some c" "GetConfig (cs_mgr c) = Some p"
    "cfg_routes (snd p) = []" by auto
  have cfg1: "s1\<lparr>hs_config := example_system\<rparr> = s1"
    using s1 by (auto simp: hot_start_def hot_example_def example_system_def boot_system_def GetConfig_def)
  have run: "hot_run (map HConfig file_replaced) s1 = Some (s1\<lparr>hs_config := c\<rparr>)"
    and st2: "(hot_step grants)\<^sup>*\<^sup>* s1 (s1\<lparr>hs_config := c\<rparr>)"
    using config_run_hot [OF c(1), of s1] by (simp_all add: cfg1 file_replaced_def file_surroundings_ok)
  have b80: "rm_bound (hs_routes s1) 80 = Some 0" unfolding s1_def by code_simp
  have "hs_taken s1 \<noteq> None" using s1 by (auto simp: hot_start_def split: option.splits)
  moreover have "grants granting_env (snd p)" using c(3) by (simp add: example_ports)
  moreover have "(hot_step grants)\<^sup>*\<^sup>* hot_example (s1\<lparr>hs_config := c\<rparr>)"
    using st1 st2 by (rule converse_rtranclp_into_rtranclp)
  ultimately obtain as t where "length as \<le> (if signal_underway c then 3 else 0)"
      "hot_run as (s1\<lparr>hs_config := c\<rparr>) = Some t" "\<forall>q. (\<exists>i. rm_bound (hs_routes t) q = Some i) \<longleftrightarrow> q \<in> {}"
    using hot_reload_converges [OF init, of "s1\<lparr>hs_config := c\<rparr>" p granting_env] c by auto
  then have "length as \<le> 3" "hot_run as (s1\<lparr>hs_config := c\<rparr>) = Some t" "\<not> (\<exists>i. rm_bound (hs_routes t) 80 = Some i)"
    by (simp_all split: if_splits)
  with s1 run b80 show ?thesis by fastforce
qed

end
