(* ===== verification/Spec2Isabelle.thy ===== *)
theory Spec2Isabelle
  imports Prelude ConfigTypes Reload Channel HealthStore Metrics IdleTracker GoNet SleepClient
    SleepCoordinator WakeCoordinator WakeSystem WakeSafety WakeService RouteManager RouteReload Listener
    ManagerThreads ManagerStop ManagerRuns
    Substitute GoBase64 Validation ConfigManager GwaihirClient Logger HealthCheck HealthManager HttpHandler
    Middleware Proxy Management SleepWiring SleepService App AppRun HotReload
begin

text \<open>
  Smaug is a reverse proxy in Go that wakes the servers behind it on demand and puts idle ones to
  sleep. This development models the program (\<open>cmd/smaug\<close> and \<open>internal\<close>) as executable HOL functions
  and transition systems, and proves what makes its parts, and the parts together, correct.

  \<^bold>\<open>The program.\<close> \<open>main\<close> reads a YAML configuration: servers, and routes, each with a port to listen on,
  an upstream URL and a server. The configuration manager watches the file and reloads it; the route
  manager runs one HTTP listener per route and follows the configuration. A request passes the recovery
  and the logging middleware, then the wake coordinator of its route, if the server has Wake-on-LAN, and
  is forwarded by the proxy handler, which also records activity. The wake coordinator looks the server
  up in the health store; if it is not healthy it sends one Wake-on-LAN command through the Gwaihir client,
  whichever and however many requests wait, and polls the store. The health manager has a worker per
  server that checks its health endpoint and updates the store. The idle tracker compares the last
  activity of every route with its idle timeout once a minute and sends a trigger over a channel; the
  sleep coordinator takes it, and the sleep sender finds the server of the route and calls its
  endpoint through the sleep client. Two management servers answer liveness, readiness, health, version
  and metrics requests.

  \<^bold>\<open>Theories and sources.\<close> Each theory opens with what it holds; paths are below \<open>internal/\<close>.
  \<^item> Prelude: durations and times with int64 arithmetic, errors as values (\<open>Sentinel\<close>, wrapped by \<open>Errorf\<close>,
    tested by \<open>errors_is\<close>), and the contracts \<open>invariant_system\<close> and \<open>lifecycle\<close>. Channel: buffered channels
    (\<open>bounded_queue\<close>).
  \<^item> ConfigTypes (\<open>config/types.go\<close>): a record per struct. Substitute (\<open>config/substitute.go\<close>): the scanner of
    the environment variables. GoBase64, GoNet: the parts of \<open>encoding/base64\<close>, \<open>net/url\<close> and \<open>net\<close> the checks
    use. Validation (\<open>config/validation.go\<close>): one function per check, collecting errors in order.
  \<^item> ConfigManager (\<open>config/loader.go\<close>, \<open>config/manager.go\<close>): \<open>Load\<close>, and the manager as the transition system
    \<open>config_step\<close> whose state \<open>config_system\<close> holds the struct (\<open>cs_mgr\<close>), the watcher goroutine, the pending timer
    (\<open>cs_timer\<close>), the program counter of every goroutine that runs \<open>reload\<close> (\<open>cs_reloads\<close>), the caller of Stop
    and the consumer of the signal.
  \<^item> Reload (\<open>proxy/reload.go\<close>): the difference of two route lists, with the iteration orders of the Go maps as
    arguments. RouteManager (\<open>proxy/route_manager.go\<close>): the manager; \<open>rm_heap\<close> holds every \<open>routeListener\<close> ever
    made, \<open>rm_routes\<close> and \<open>rm_routeMap\<close> point into it, \<open>rm_bound\<close> says which listener holds a port. RouteReload: its
    invariant \<open>rm_wf\<close> and convergence. Listener: one listener at the granularity of its critical sections.
    ManagerThreads: the same manager under all its threads, as the transition system \<open>manager_step\<close> whose state
    \<open>manager_system\<close> holds the manager and where the reload goroutine (\<open>ms_watch\<close>), the callers of Stop (\<open>ms_stop\<close>) and
    the goroutines of each listener (\<open>ms_run\<close>, \<open>ms_timer\<close>) are; ManagerStop: what Stop guarantees; ManagerRuns: the
    operations of RouteManager are schedules of the threads.
    HotReload: the configuration manager and the route manager composed.
  \<^item> HealthStore, HealthCheck, HealthManager (\<open>store\<close>, \<open>health\<close>): the store (contract \<open>health_store\<close>), the HTTP
    check with its redirects, the workers with their ticks and the log of state changes.
  \<^item> WakeCoordinator, WakeSystem, WakeSafety (\<open>proxy/wake_coordinator.go\<close>): the functions of the coordinator; any
    number of requests, wake goroutines and callers of Close as threads of \<open>wake_step\<close>; the invariant and what
    follows from it. WakeService: health checks and the wake coordinator of a server composed.
  \<^item> IdleTracker, SleepCoordinator, SleepClient (\<open>proxy/idle_tracker.go\<close>, \<open>proxy/sleep_coordinator.go\<close>,
    \<open>client/sleep\<close>) and SleepWiring (\<open>cmd/smaug/main.go\<close>): idle times, triggers, the sleep call and how \<open>main\<close> connects them.
    SleepService: the three composed.
  \<^item> GwaihirClient (\<open>client/gwaihir\<close>): requests, the size limit on response bodies, retries and back-off.
  \<^item> HttpHandler: handlers as programs (\<open>prog\<close>) over a response writer, and what the server of \<open>net/http\<close> makes of
    them. Middleware (\<open>middleware\<close>): the response writers (contract \<open>status_writer\<close>), logging, metrics, recovery and
    \<open>Chain\<close>. Proxy (\<open>proxy/proxy.go\<close>): the proxy handler on a model of \<open>httputil.ReverseProxy\<close>.
  \<^item> Management (\<open>management/health\<close>, \<open>management/metrics\<close>): the endpoints and the life cycle of their servers, with
    every goroutine of Start. Metrics, Logger (\<open>infrastructure\<close>).
  \<^item> App (\<open>cmd/smaug/main.go\<close>): the set-up functions, \<open>run\<close> with its deferred calls, \<open>main\<close>. AppRun: what they do.

  \<^bold>\<open>How code becomes definitions.\<close> Definitions keep the names of the source, prefixed with their type or package
  where two would clash. A struct is a record, an error a value of a sum or an option, a Go map a HOL map
  and its iteration order an argument that \<open>range_order\<close> constrains to visit every key once. A method that
  mutates its receiver returns the new state. Code that runs under a mutex, or from one channel operation to
  the next, is one step; goroutines are program counters in the state, and a step relation
  interleaves them in every way (\<open>config_step\<close>, \<open>hot_step\<close>, \<open>manager_step\<close>, \<open>wake_step\<close>, \<open>listener_step\<close>, \<open>server_step\<close>).
  Relations are generated from executable functions (\<open>config_exec\<close>, \<open>hot_exec\<close>, ...) so that runs can be
  evaluated. Durations and times are ints; where the code computes with them, \<open>wrap64\<close> and \<open>clamp64\<close> give the
  int64 result.

  \<^bold>\<open>Outside world.\<close> What is not part of the repository is an argument: the file system, the environment and the
  YAML decoder (\<open>surroundings\<close>), the HTTP transport, timers, clock, randomness and JSON of the clients
  (\<open>gwaihir_env\<close>, \<open>sleep_transport\<close>, \<open>transport\<close>), the network below the listeners (\<open>net_env\<close>: which ports are refused,
  which shutdowns fail, who is slow), registration with Prometheus. They thread a state of the world, so that they
  may answer differently each time. What is assumed of them is named: \<open>decoder_ok\<close>, \<open>accepts_all\<close> (the
  contract of \<open>io.Writer\<close>), \<open>jitter_ok\<close> (\<open>rand.Float64\<close> is below one), \<open>cooperative\<close> and \<open>grants\<close> (the ports are
  granted, and listeners start and stop in time).

  \<^bold>\<open>What is shown.\<close>
  \<^item> The routes: after any interleaving of file edits, reload goroutines and route reloads, what is served converges
    to the stored configuration (HotReload); reloads end in exactly the new routes, and Stop frees every port
    (RouteReload); no interleaving of reloads, Stops and listeners loses track of a listener, Stop never gets
    stuck and a successful Stop is final (ManagerStop); every history of the sequential model is a schedule of
    the threads (ManagerRuns); the state a listener announces (Listener); the difference of two
    configurations is exact (Reload).
  \<^item> The configuration: every configuration that GetConfig returns is valid, signals are not lost, reloads are
    debounced, none begins after Stop, the goroutine of a reload refines the sequential \<open>reload\<close> (ConfigManager); Validate
    accepts exactly the valid configurations (\<open>valid_config\<close>) and Load fails exactly when it should;
    substitution equals the evaluation of a template and inverts its rendering (Substitute).
  \<^item> Waking: requests share one wake, wakes are debounced, a request is forwarded only after a healthy observation
    and never gets stuck, Close waits for the wakes it can see (WakeSafety); after a successful health check the requests
    that wait are forwarded within eight steps (WakeService); SendWoL's attempts, result, closed
    bodies and waits (GwaihirClient).
  \<^item> Sleeping: a trigger is sent exactly for idle routes, in order and not again before another idle timeout
    (IdleTracker); a valid configuration is set up completely (SleepWiring), and a check of the tracker sends one request
    per idle route, to its server (SleepService); loopback endpoints are refused (SleepClient).
  \<^item> Serving: what is forwarded and what the client gets (Proxy); the middleware is transparent and stops panics
    (Middleware); health checks and their workers (HealthCheck, HealthManager); the management servers (Management).
  \<^item> The program: it stops what it started, in reverse order; how the start ends for each configuration; and what
    happens without a Sleep-on-LAN route (AppRun).
  Some of the theorems state defects of the code by evaluating a run that shows them.

  \<^bold>\<open>Recursion and bounds.\<close> No definition needs fuel that could run out. The redirect loop \<open>client_Do\<close> ends because
  \<open>CheckRedirect\<close> refuses the next hop once the limit is reached (its measure is the number of redirects left), the
  retry loop counts the attempts left, which start at \<open>MaxAttempts\<close>, and \<open>backoff_loop\<close> the doublings left. The substitution
  consumes at least one character a step. Loops that serve for ever (the watcher, the workers, the tracker's checker, the
  trigger loop) take the list of events they receive; a theorem about them holds for every list. Channels have the
  capacities of the code (1 for the reload signal, 64 for the triggers).

  \<^bold>\<open>Not modelled.\<close>
  \<^item> Texts of log messages, apart from the access log, the panic record, the health transitions and the reports of failed
    Stops; the output of \<open>log/slog\<close>.
  \<^item> Libraries: YAML, fsnotify, Prometheus (collectors' help texts, buckets, exposition), the socket layer of \<open>net/http\<close>;
    \<open>json_object\<close> covers ASCII strings. Of ReverseProxy, trailers, upgrades and its flushes (which come after the header) are
    left out. \<open>Unwrap\<close> of the response writers hands out the writer below, which programs of HttpHandler cannot name.
  \<^item> HotReload takes the listeners of Start to have bound their ports or failed before the first reload is handled, at the
    earliest a second later, and a reload of the routes as one step; ManagerRuns shows that this is a schedule of
    the threads, and ManagerThreads has the interleavings with Stop and the listeners. There, a critical section that
    reads the states of several listeners reads them at one moment, closing a wake coordinator is one step, and Start is
    called once.
  \<^item> The tests and the build files.
\<close>

end
